(* ===== verification/Prelude.thy ===== *)
theory Prelude
  imports Main "HOL-Library.Word"
begin

text \<open>
  The vocabulary the component theories share: machine integers at the width the C++ code
  uses, byte strings, the lemma collections of the development, generic facts on words and
  lists, and the contracts of an inductive invariant and of a measure of a step relation.
\<close>

unbundle bit_operations_syntax

subsection \<open>Types\<close>

text \<open>
  \<open>uint8_t\<close>, \<open>uint16_t\<close>, \<open>uint32_t\<close> and \<open>uint64_t\<close> are words, so that arithmetic wraps as
  it does in C++. A \<open>std::string\<close> that travels over the socket (payloads, handshake
  headers) is a list of bytes; a \<open>std::string\<close> that is text (error messages, generated
  code) is an Isabelle string.
\<close>

type_synonym byte = "8 word"
type_synonym u16 = "16 word"
type_synonym u32 = "32 word"
type_synonym u64 = "64 word"
type_synonym bytes = "byte list"

definition bytes_of_string :: "string \<Rightarrow> bytes" where
  "bytes_of_string s = map of_char s"

subsection \<open>Lemma collections\<close>

text \<open>
  \<open>handler_defs\<close> holds the definitions of the state-changing handlers, to be unfolded when a
  property of one step is shown; \<open>inv_intros\<close> holds the preservation lemmas of the
  components.
\<close>

named_theorems handler_defs
named_theorems inv_intros

subsection \<open>Words and bytes\<close>

lemma mask_byte: "(0xFF :: 'a::len word) = mask 8"
  by (simp add: mask_eq_exp_minus_1)

lemma bit_byte_high: "8 \<le> n \<Longrightarrow> bit (b :: byte) n = False"
  using bit_imp_le_length [of b n] by auto

text \<open>
  The four bytes of a 32-bit word, most significant first, and the word they make. Both
  directions are bitwise: every bit of the word lies in exactly one of the four bytes.
\<close>

lemma be32_join_split:
  "push_bit 24 (ucast (ucast (drop_bit 24 v AND 0xFF) :: byte)) OR
   push_bit 16 (ucast (ucast (drop_bit 16 v AND 0xFF) :: byte)) OR
   push_bit 8 (ucast (ucast (drop_bit 8 v AND 0xFF) :: byte)) OR
   ucast (ucast (v AND 0xFF) :: byte) = (v :: u32)"
proof (rule bit_word_eqI, goal_cases)
  case (1 n)
  consider "n < 8" | "8 \<le> n" "n < 16" | "16 \<le> n" "n < 24" | "24 \<le> n" by linarith
  then show ?case
    unfolding mask_byte using 1 by cases (auto simp: bit_simps)
qed

lemma be32_split_join:
  fixes a b c d :: byte
  defines "w \<equiv> (push_bit 24 (ucast a) OR push_bit 16 (ucast b) OR push_bit 8 (ucast c) OR ucast d :: u32)"
  shows "ucast (drop_bit 24 w AND 0xFF) = a"
    and "ucast (drop_bit 16 w AND 0xFF) = b"
    and "ucast (drop_bit 8 w AND 0xFF) = c"
    and "ucast (w AND 0xFF) = d"
  unfolding w_def mask_byte
  by (rule bit_word_eqI, auto simp: bit_simps bit_byte_high)+

lemma be16_join_split:
  "ucast (push_bit 8 (ucast (ucast (drop_bit 8 v AND 0xFF) :: byte)) OR
          (ucast (ucast (v AND 0xFF) :: byte) :: u32)) = (v :: u16)"
proof (rule bit_word_eqI, goal_cases)
  case (1 n)
  consider "n < 8" | "8 \<le> n" by linarith
  then show ?case
    unfolding mask_byte using 1 by cases (auto simp: bit_simps)
qed

lemma be16_split_join:
  fixes a b :: byte
  defines "w \<equiv> (ucast (push_bit 8 (ucast a) OR (ucast b :: u32)) :: u16)"
  shows "ucast (drop_bit 8 w AND 0xFF) = a" and "ucast (w AND 0xFF) = b"
  unfolding w_def mask_byte
  by (rule bit_word_eqI, auto simp: bit_simps bit_byte_high)+

subsection \<open>Lists\<close>

lemma list_eq_nth_16:
  assumes "length xs = 16"
  shows "xs = [xs ! 0, xs ! 1, xs ! 2, xs ! 3, xs ! 4, xs ! 5, xs ! 6, xs ! 7,
               xs ! 8, xs ! 9, xs ! 10, xs ! 11, xs ! 12, xs ! 13, xs ! 14, xs ! 15]"
  using assms by (intro nth_equalityI) (auto simp: less_Suc_eq numeral_eq_Suc)

lemma take_append_exact: "length xs = n \<Longrightarrow> take n (xs @ ys) = xs"
  by simp

lemma drop_append_exact: "length xs = n \<Longrightarrow> drop n (xs @ ys) = ys"
  by simp

text \<open>Sums and counts over a list after one element was replaced.\<close>

lemma sum_list_upd:
  "j < length xs \<Longrightarrow> (\<Sum>x\<leftarrow>xs[j := y]. f x) + f (xs ! j) = (\<Sum>x\<leftarrow>xs. f x) + (f y :: 'a :: comm_monoid_add)"
proof (induction xs arbitrary: j)
  case (Cons x xs)
  show ?case
  proof (cases j)
    case (Suc i)
    with Cons.prems have "i < length xs" by simp
    from Cons.IH [OF this] Suc show ?thesis by (simp add: add.assoc)
  qed (simp add: ac_simps)
qed simp

lemma length_filter_upd:
  "j < length xs \<Longrightarrow> length (filter P (xs[j := y])) + of_bool (P (xs ! j)) = length (filter P xs) + of_bool (P y)"
proof (induction xs arbitrary: j)
  case (Cons x xs)
  then show ?case by (cases j) auto
qed simp

subsection \<open>Decimal numbers\<close>

text \<open>\<open>std::to_string\<close> on an unsigned value.\<close>

fun to_string :: "nat \<Rightarrow> string" where
  "to_string n =
     (if n < 10 then [char_of (48 + n)] else to_string (n div 10) @ [char_of (48 + n mod 10)])"

declare to_string.simps [simp del]

subsection \<open>Consecutive ids\<close>

text \<open>The first \<open>n\<close> values of a 32-bit counter that starts at one.\<close>

definition given_ids :: "nat \<Rightarrow> u32 set" where
  "given_ids n = (\<lambda>i. of_nat (Suc i)) ` {..<n}"

lemma unat_of_nat_u32: "n < 2 ^ 32 \<Longrightarrow> unat (of_nat n :: u32) = n"
  by (simp add: unat_of_nat)

lemma given_ids_Suc: "given_ids (Suc n) = insert (of_nat (Suc n)) (given_ids n)"
  by (auto simp: given_ids_def lessThan_Suc)

lemma fresh_id: "n < 2 ^ 32 \<Longrightarrow> of_nat (Suc n) \<notin> given_ids n"
proof
  assume n: "n < 2 ^ 32" and "of_nat (Suc n) \<in> given_ids n"
  then obtain i where i: "i < n" "(of_nat n :: u32) = of_nat i" by (auto simp: given_ids_def)
  then have "n = i" using n unat_of_nat_u32 [of n] unat_of_nat_u32 [of i] by auto
  then show False using i by simp
qed

subsection \<open>Inductive invariants\<close>

text \<open>
  The contract between a step relation and an invariant: what holds at the start and is kept
  by every step holds in every reachable state. Every state machine of the development
  interprets it.
\<close>

inductive reachable :: "('s \<Rightarrow> bool) \<Rightarrow> ('s \<Rightarrow> 's \<Rightarrow> bool) \<Rightarrow> 's \<Rightarrow> bool"
  for init :: "'s \<Rightarrow> bool" and step :: "'s \<Rightarrow> 's \<Rightarrow> bool" where
  start: "init s \<Longrightarrow> reachable init step s"
| step: "reachable init step s \<Longrightarrow> step s t \<Longrightarrow> reachable init step t"

locale inductive_invariant =
  fixes init :: "'s \<Rightarrow> bool"
    and step :: "'s \<Rightarrow> 's \<Rightarrow> bool"
    and invar :: "'s \<Rightarrow> bool"
  assumes invar_init: "init s \<Longrightarrow> invar s"
    and invar_step: "invar s \<Longrightarrow> step s t \<Longrightarrow> invar t"
begin

lemma invar_reachable: "reachable init step s \<Longrightarrow> invar s"
  by (induction rule: reachable.induct) (auto intro: invar_init invar_step)

lemma invar_star: "step\<^sup>*\<^sup>* s t \<Longrightarrow> invar s \<Longrightarrow> invar t"
  by (induction rule: rtranclp_induct) (auto intro: invar_step)

end

lemma reachable_star:
  "step\<^sup>*\<^sup>* s t \<Longrightarrow> reachable init step s \<Longrightarrow> reachable init step t"
  by (induction rule: rtranclp_induct) (auto intro: reachable.step)

subsection \<open>Running out of work\<close>

text \<open>
  The contract of a system that comes to rest: while it is winding down, every step keeps it so
  and leaves less work. Then no run is longer than the work there was at its start, and every run
  can be continued to a state in which nothing is left to do.
\<close>

locale winding_down =
  fixes step :: "'s \<Rightarrow> 's \<Rightarrow> bool"
    and winding :: "'s \<Rightarrow> bool"
    and work :: "'s \<Rightarrow> nat"
  assumes winding_step: "winding s \<Longrightarrow> step s t \<Longrightarrow> winding t"
    and work_step: "winding s \<Longrightarrow> step s t \<Longrightarrow> work t < work s"
begin

lemma winding_steps: "(step ^^ n) s t \<Longrightarrow> winding s \<Longrightarrow> winding t \<and> n + work t \<le> work s"
proof (induction n arbitrary: t)
  case (Suc n)
  then obtain u where u: "(step ^^ n) s u" "step u t" by auto
  with Suc.IH [OF u(1) Suc.prems(2)] show ?case
    using winding_step [of u t] work_step [of u t] by auto
qed simp

lemma comes_to_rest: "winding s \<Longrightarrow> \<exists>t. step\<^sup>*\<^sup>* s t \<and> winding t \<and> (\<forall>u. \<not> step t u)"
proof (induction "work s" arbitrary: s rule: less_induct)
  case less
  show ?case
  proof (cases "\<exists>t. step s t")
    case True
    then obtain t where t: "step s t" by blast
    from less.hyps [OF work_step [OF less.prems t] winding_step [OF less.prems t]] t
    show ?thesis by (meson converse_rtranclp_into_rtranclp)
  next
    case False
    with less.prems show ?thesis by blast
  qed
qed

end

end
