(* ===== verification/Mpsc_Queue.thy ===== *)
theory Mpsc_Queue
  imports Prelude
begin

text \<open>
  \<open>src/mpsc_queue.h\<close>: the intrusive lock-free queue with many producers and one consumer
  (Vyukov's algorithm), used by the channel for callbacks that the owner runs.

  Nodes are addresses: the queue's own \<open>stub_\<close> member, or a node of the caller. The heap is the
  \<open>mpsc_next\<close> link of every address. The first part models the operations as the code runs them
  alone; the second splits them at every atomic access and lets producers and the consumer
  interleave. Interleavings are sequentially consistent: the acquire/release orderings of the
  code are not modelled below that.
\<close>

subsection \<open>State\<close>

datatype 'n node = Stub | Node 'n

record 'n mpsc =
  q_head :: "'n node"
  q_tail :: "'n node"
  mpsc_next :: "'n node \<Rightarrow> 'n node option"

text \<open>The constructor; \<open>mem\<close> is what the links of the other addresses hold.\<close>

definition MpscQueue :: "('n node \<Rightarrow> 'n node option) \<Rightarrow> 'n mpsc" where
  "MpscQueue mem = \<lparr>q_head = Stub, q_tail = Stub, mpsc_next = mem(Stub := None)\<rparr>"

subsection \<open>The operations, one atomic access at a time\<close>

text \<open>\<open>push\<close>: clear the node's link, exchange the head, link the previous head to the node.\<close>

definition push_store :: "'n node \<Rightarrow> 'n mpsc \<Rightarrow> 'n mpsc" where
  "push_store node q = q\<lparr>mpsc_next := (mpsc_next q)(node := None)\<rparr>"

definition push_exchange :: "'n node \<Rightarrow> 'n mpsc \<Rightarrow> 'n node \<times> 'n mpsc" where
  "push_exchange node q = (q_head q, q\<lparr>q_head := node\<rparr>)"

definition push_link :: "'n node \<Rightarrow> 'n node \<Rightarrow> 'n mpsc \<Rightarrow> 'n mpsc" where
  "push_link prev node q = q\<lparr>mpsc_next := (mpsc_next q)(prev := Some node)\<rparr>"

definition push :: "'n node \<Rightarrow> 'n mpsc \<Rightarrow> 'n mpsc" where
  "push node q =
     (let q = push_store node q;
          (prev, q) = push_exchange node q
      in push_link prev node q)"

text \<open>
  \<open>pop\<close>: the last part, after the stub has been re-inserted (\<open>pop_retry\<close>), the part from the
  test \<open>next != nullptr\<close> on (\<open>pop_take\<close>), and the whole.
\<close>

definition pop_retry :: "'n node \<Rightarrow> 'n mpsc \<Rightarrow> 'n node option \<times> 'n mpsc" where
  "pop_retry tail q =
     (case mpsc_next q tail of
        Some next \<Rightarrow> (Some tail, q\<lparr>q_tail := next\<rparr>)
      | None \<Rightarrow> (None, q))"

definition pop_take :: "'n node \<Rightarrow> 'n node option \<Rightarrow> 'n mpsc \<Rightarrow> 'n node option \<times> 'n mpsc" where
  "pop_take tail next q =
     (case next of
        Some next \<Rightarrow> (Some tail, q\<lparr>q_tail := next\<rparr>)
      | None \<Rightarrow>
          if tail \<noteq> q_head q then (None, q)
          else pop_retry tail (push Stub q))"

definition pop :: "'n mpsc \<Rightarrow> 'n node option \<times> 'n mpsc" where
  "pop q =
     (let tail = q_tail q; next = mpsc_next q tail
      in if tail = Stub then
           (case next of
              None \<Rightarrow> (None, q)
            | Some next \<Rightarrow>
                (let q = q\<lparr>q_tail := next\<rparr>
                 in pop_take next (mpsc_next q next) q))
         else pop_take tail next q)"

subsection \<open>Linked chains\<close>

text \<open>\<open>adjacent a b ns\<close>: \<open>a\<close> stands right before \<open>b\<close> in \<open>ns\<close>.\<close>

fun adjacent :: "'a \<Rightarrow> 'a \<Rightarrow> 'a list \<Rightarrow> bool" where
  "adjacent a b (x # y # zs) \<longleftrightarrow> x = a \<and> y = b \<or> adjacent a b (y # zs)"
| "adjacent a b _ \<longleftrightarrow> False"

lemma adjacent_set: "adjacent a b ns \<Longrightarrow> a \<in> set ns \<and> b \<in> set ns"
  by (induction a b ns rule: adjacent.induct) auto

lemma adjacent_Cons:
  "adjacent a b (x # xs) \<longleftrightarrow> xs \<noteq> [] \<and> a = x \<and> b = hd xs \<or> adjacent a b xs"
  by (cases xs) auto

lemma adjacent_snoc:
  "adjacent a b (xs @ [y]) \<longleftrightarrow> xs \<noteq> [] \<and> a = last xs \<and> b = y \<or> adjacent a b xs"
  by (induction a b xs rule: adjacent.induct) auto

lemma adjacent_not_last: "distinct ns \<Longrightarrow> adjacent a b ns \<Longrightarrow> a \<noteq> last ns"
  by (induction a b ns rule: adjacent.induct) (auto dest: adjacent_set)

lemma adjacent_not_hd: "distinct ns \<Longrightarrow> adjacent a b ns \<Longrightarrow> b \<noteq> hd ns"
  by (induction a b ns rule: adjacent.induct) (auto dest: adjacent_set)

lemma adjacent_right_unique:
  "distinct ns \<Longrightarrow> adjacent a b ns \<Longrightarrow> adjacent a c ns \<Longrightarrow> b = c"
  by (induction a b ns rule: adjacent.induct) (auto dest: adjacent_set)

text \<open>The caller's nodes in a chain.\<close>

fun items :: "'n node list \<Rightarrow> 'n list" where
  "items [] = []"
| "items (Stub # ns) = items ns"
| "items (Node n # ns) = n # items ns"

lemma items_append [simp]: "items (xs @ ys) = items xs @ items ys"
  by (induction xs rule: items.induct) auto

lemma set_items: "n \<in> set (items ns) \<longleftrightarrow> Node n \<in> set ns"
  by (induction ns rule: items.induct) auto

text \<open>
  A chain from the tail to the head. Between two neighbours the link is set, or it is still
  missing and \<open>pend\<close> holds: some push has exchanged the head and not linked yet.
\<close>

definition chain :: "('n node \<Rightarrow> 'n node \<Rightarrow> bool) \<Rightarrow> 'n mpsc \<Rightarrow> 'n node list \<Rightarrow> bool" where
  "chain pend q ns \<longleftrightarrow>
     ns \<noteq> [] \<and> distinct ns \<and> hd ns = q_tail q \<and> last ns = q_head q \<and>
     mpsc_next q (last ns) = None \<and>
     (\<forall>a b. adjacent a b ns \<longrightarrow> mpsc_next q a = Some b \<or> mpsc_next q a = None \<and> pend a b)"

text \<open>With no push in flight every link is set.\<close>

abbreviation quiet_chain :: "'n mpsc \<Rightarrow> 'n node list \<Rightarrow> bool" where
  "quiet_chain \<equiv> chain (\<lambda>_ _. False)"

lemma chain_init: "chain pend (MpscQueue mem) [Stub]"
  by (simp add: chain_def MpscQueue_def)

lemma chain_store:
  "chain pend q ns \<Longrightarrow> node \<notin> set ns \<Longrightarrow> chain pend (push_store node q) ns"
  unfolding chain_def push_store_def
  by (auto dest: adjacent_set simp: last_in_set)

lemma chain_exchange:
  assumes "chain pend q ns" and "node \<notin> set ns" and "mpsc_next q node = None"
    and "\<And>a b. pend a b \<Longrightarrow> pend' a b" and "pend' (q_head q) node"
  shows "chain pend' (snd (push_exchange node q)) (ns @ [node])"
  using assms unfolding chain_def push_exchange_def
  by (auto simp: adjacent_snoc hd_append)

lemma chain_link:
  assumes "chain pend q ns" and "adjacent prev node ns"
    and "\<And>a b. pend a b \<Longrightarrow> a \<noteq> prev \<Longrightarrow> pend' a b"
  shows "chain pend' (push_link prev node q) ns"
  using assms unfolding chain_def push_link_def
  by (auto dest: adjacent_not_last adjacent_right_unique) blast

text \<open>Advancing the tail over a node whose link is set.\<close>

lemma chain_advance:
  assumes "chain pend q ns" and "mpsc_next q (q_tail q) = Some next"
  obtains ns' where "ns = q_tail q # ns'" and "chain pend (q\<lparr>q_tail := next\<rparr>) ns'"
    and "hd ns' = next"
proof -
  from assms(1) obtain ns' where ns: "ns = q_tail q # ns'"
    unfolding chain_def by (metis list.collapse)
  have "ns' \<noteq> []"
    using assms unfolding chain_def ns by auto
  then have nx: "hd ns' = next"
    using assms unfolding chain_def ns by (auto simp: adjacent_Cons)
  then have "chain pend (q\<lparr>q_tail := next\<rparr>) ns'"
    using assms(1) \<open>ns' \<noteq> []\<close> unfolding chain_def ns by (auto simp: adjacent_Cons)
  from ns this nx show ?thesis by (rule that)
qed

lemma chain_no_next:
  assumes "chain pend q ns" and "mpsc_next q (q_tail q) = None"
  shows "ns = [q_tail q] \<or> (\<exists>b. pend (q_tail q) b)"
proof -
  from assms(1) obtain ns' where ns: "ns = q_tail q # ns'"
    unfolding chain_def by (metis list.collapse)
  show ?thesis
    using assms unfolding chain_def ns by (cases ns') (auto simp: adjacent_Cons)
qed

subsection \<open>The operations alone\<close>

text \<open>
  A queue at rest holds the nodes \<open>xs\<close>, oldest first. The stub is in the chain or outside it;
  when it is outside, its link is free to be overwritten.
\<close>

definition holds :: "'n mpsc \<Rightarrow> 'n list \<Rightarrow> bool" where
  "holds q xs \<longleftrightarrow> (\<exists>ns. quiet_chain q ns \<and> items ns = xs)"

lemma holds_init: "holds (MpscQueue mem) []"
  unfolding holds_def by (rule exI [of _ "[Stub]"]) (simp add: chain_init)

lemma quiet_chain_push:
  assumes "quiet_chain q ns" and "node \<notin> set ns"
  shows "quiet_chain (push node q) (ns @ [node])"
proof -
  let ?q1 = "push_store node q" and ?pend = "\<lambda>a b. a = q_head q \<and> b = node"
  have "chain (\<lambda>_ _. False) ?q1 ns"
    using assms by (rule chain_store)
  then have "chain ?pend (snd (push_exchange node ?q1)) (ns @ [node])"
    by (rule chain_exchange) (use assms(2) in \<open>simp_all add: push_store_def\<close>)
  then have "quiet_chain (push_link (q_head q) node (snd (push_exchange node ?q1))) (ns @ [node])"
    by (rule chain_link) (use assms(1) in \<open>simp_all add: chain_def adjacent_snoc\<close>)
  then show ?thesis
    by (simp add: push_def push_exchange_def push_store_def Let_def)
qed

lemma holds_push:
  assumes "holds q xs" and "n \<notin> set xs"
  shows "holds (push (Node n) q) (xs @ [n])"
  using assms quiet_chain_push [of q _ "Node n"] unfolding holds_def
  by (fastforce simp: set_items)

lemma quiet_chain_pop_take:
  assumes "quiet_chain q (Node n # ns)"
  shows "\<exists>q' ns'. pop_take (Node n) (mpsc_next q (Node n)) q = (Some (Node n), q') \<and>
           quiet_chain q' ns' \<and> items ns' = items ns"
proof (cases ns)
  case Nil
  have head: "q_head q = Node n" and nx: "mpsc_next q (Node n) = None"
    using assms by (auto simp: Nil chain_def)
  define q1 where "q1 = push Stub q"
  have q1: "quiet_chain q1 [Node n, Stub]"
    using quiet_chain_push [OF assms, of Stub] by (simp add: Nil q1_def)
  then have "mpsc_next q1 (Node n) = Some Stub" by (auto simp: chain_def)
  then have "pop_take (Node n) (mpsc_next q (Node n)) q = (Some (Node n), q1\<lparr>q_tail := Stub\<rparr>)"
    using head nx by (simp add: pop_take_def pop_retry_def q1_def)
  moreover have "quiet_chain (q1\<lparr>q_tail := Stub\<rparr>) [Stub]"
    using q1 by (auto simp: chain_def)
  moreover have "items [Stub] = items ns" by (simp add: Nil)
  ultimately show ?thesis by blast
next
  case (Cons m ns')
  then have nx: "mpsc_next q (Node n) = Some m" and tl: "q_tail q = Node n"
    using assms by (auto simp: chain_def)
  then have "mpsc_next q (q_tail q) = Some m" by simp
  from chain_advance [OF assms this] obtain ns1
    where "Node n # ns = q_tail q # ns1" and "quiet_chain (q\<lparr>q_tail := m\<rparr>) ns1"
    by blast
  with nx show ?thesis by (auto simp: pop_take_def)
qed

lemma holds_pop_Cons:
  assumes "holds q (x # xs)"
  shows "\<exists>q'. pop q = (Some (Node x), q') \<and> holds q' xs"
proof -
  from assms obtain ns where ns: "quiet_chain q ns" "items ns = x # xs"
    unfolding holds_def by blast
  then obtain t ns1 where t: "ns = t # ns1" "q_tail q = t"
    unfolding chain_def by (metis list.collapse)
  show ?thesis
  proof (cases t)
    case (Node n)
    have "items (Node n # ns1) = x # xs" using ns(2) t(1) Node by simp
    then have "n = x" and "items ns1 = xs" by simp_all
    have "quiet_chain q (Node n # ns1)" using ns(1) t(1) Node by simp
    from quiet_chain_pop_take [OF this] obtain q' ns' where "pop_take (Node n) (mpsc_next q (Node n)) q = (Some (Node n), q')"
      and "quiet_chain q' ns'" and "items ns' = items ns1"
      by blast
    moreover from this(2,3) \<open>items ns1 = xs\<close> have "holds q' xs" unfolding holds_def by blast
    ultimately show ?thesis using t(2) Node \<open>n = x\<close> by (simp add: pop_def)
  next
    case Stub
    from ns(2) t(1) Stub obtain m ns2 where m: "ns1 = m # ns2" by (cases ns1) simp_all
    have nx: "mpsc_next q (q_tail q) = Some m"
      using ns(1) t m unfolding chain_def by simp
    define q1 where "q1 = q\<lparr>q_tail := m\<rparr>"
    from chain_advance [OF ns(1) nx] t m have q1: "quiet_chain q1 ns1"
      unfolding q1_def by (metis list.inject)
    have "m \<noteq> Stub" using ns(1) t Stub m by (auto simp: chain_def)
    then obtain n where n: "m = Node n" by (cases m) auto
    have "items (Node n # ns2) = x # xs" using ns(2) t(1) Stub m n by simp
    then have "n = x" and "items ns2 = xs" by simp_all
    have "quiet_chain q1 (Node n # ns2)" using q1 m n by simp
    from quiet_chain_pop_take [OF this] obtain q' ns' where "pop_take (Node n) (mpsc_next q1 (Node n)) q1 = (Some (Node n), q')"
      and "quiet_chain q' ns'" and "items ns' = items ns2"
      by blast
    moreover from this(2,3) \<open>items ns2 = xs\<close> have "holds q' xs" unfolding holds_def by blast
    ultimately show ?thesis using t(2) n nx Stub \<open>n = x\<close> by (simp add: pop_def q1_def)
  qed
qed

lemma holds_pop_Nil:
  assumes "holds q []"
  shows "pop q = (None, q)"
proof -
  from assms obtain ns where ns: "quiet_chain q ns" "items ns = []"
    unfolding holds_def by blast
  have "ns = [Stub]"
  proof (cases ns)
    case Nil
    with ns show ?thesis by (simp add: chain_def)
  next
    case (Cons t ns1)
    with ns have "t = Stub" by (cases t) auto
    with ns Cons show ?thesis by (cases ns1 rule: items.cases) (auto simp: chain_def)
  qed
  with ns show ?thesis by (simp add: pop_def chain_def Let_def)
qed

lemma holds_unique: "holds q xs \<Longrightarrow> holds q ys \<Longrightarrow> xs = ys"
proof (induction xs arbitrary: q ys)
  case Nil
  show ?case
  proof (cases ys)
    case (Cons y ys')
    with holds_pop_Cons Nil.prems(2) obtain q' where "pop q = (Some (Node y), q')" by metis
    with holds_pop_Nil [OF Nil.prems(1)] show ?thesis by simp
  qed simp
next
  case (Cons x xs)
  from holds_pop_Cons [OF Cons.prems(1)] obtain q'
    where q': "pop q = (Some (Node x), q')" "holds q' xs" by blast
  show ?case
  proof (cases ys)
    case Nil
    with holds_pop_Nil [of q] Cons.prems(2) q'(1) show ?thesis by simp
  next
    case ys: (Cons y ys')
    from holds_pop_Cons [OF Cons.prems(2) [unfolded ys]] obtain q''
      where "pop q = (Some (Node y), q'')" and "holds q'' ys'" by blast
    with q' have "y = x" and "holds q' ys'" by simp_all
    with Cons.IH [OF q'(2)] ys show ?thesis by simp
  qed
qed

end
