(* ===== verification/Mpsc_Concurrent.thy ===== *)
theory Mpsc_Concurrent
  imports Mpsc_Queue
begin

text \<open>
  The queue of \<open>src/mpsc_queue.h\<close> under concurrency: any number of producers and one consumer,
  interleaved at every atomic access of \<open>push\<close> and \<open>pop\<close>.

  A producer moves through the three accesses of \<open>push\<close>. The consumer moves through \<open>pop\<close>; its
  re-insertion of the stub is again a \<open>push\<close> of three accesses. Two histories record what the
  theorems speak about: the nodes in the order of their head exchanges, and the nodes \<open>pop\<close>
  returned.
\<close>

subsection \<open>Threads\<close>

datatype 'n producer =
    PIdle
  | PStore 'n \<comment> \<open>before \<open>node->mpsc_next.store(nullptr)\<close>\<close>
  | PExchange 'n \<comment> \<open>before \<open>head_.exchange(node)\<close>\<close>
  | PLink "'n node" 'n \<comment> \<open>before \<open>prev->mpsc_next.store(node)\<close>\<close>

datatype 'n consumer =
    CIdle
  | CLoad "'n node" \<comment> \<open>stub skipped, before the second load of \<open>next\<close>\<close>
  | CHead "'n node" \<comment> \<open>before \<open>head_.load()\<close>\<close>
  | CStore "'n node" \<comment> \<open>\<open>push(&stub_)\<close>, before its store\<close>
  | CExchange "'n node" \<comment> \<open>\<open>push(&stub_)\<close>, before its exchange\<close>
  | CLink "'n node" "'n node" \<comment> \<open>\<open>push(&stub_)\<close>, before it links \<open>prev\<close>\<close>
  | CReload "'n node" \<comment> \<open>before the last load of \<open>next\<close>\<close>

record ('n, 't) mpsc_sys =
  queue :: "'n mpsc"
  producers :: "'t \<Rightarrow> 'n producer"
  consumer :: "'n consumer"
  pushed :: "'n list"
  popped :: "'n list"

fun owns :: "'n producer \<Rightarrow> 'n \<Rightarrow> bool" where
  "owns PIdle n \<longleftrightarrow> False"
| "owns (PStore m) n \<longleftrightarrow> m = n"
| "owns (PExchange m) n \<longleftrightarrow> m = n"
| "owns (PLink prev m) n \<longleftrightarrow> m = n"

text \<open>The nodes that were exchanged in and not returned yet.\<close>

definition in_queue :: "('n, 't) mpsc_sys \<Rightarrow> 'n list" where
  "in_queue s = drop (length (popped s)) (pushed s)"

subsection \<open>Steps\<close>

text \<open>
  The consumer takes \<open>tail\<close> when \<open>next\<close> is set and otherwise goes on to \<open>otherwise\<close>: the two
  places of \<open>pop\<close> that return a node.
\<close>

definition take_or :: "'n node \<Rightarrow> 'n consumer \<Rightarrow> ('n, 't) mpsc_sys \<Rightarrow> ('n, 't) mpsc_sys" where
  "take_or tail otherwise s =
     (case mpsc_next (queue s) tail of
        Some next \<Rightarrow>
          s\<lparr>queue := (queue s)\<lparr>q_tail := next\<rparr>, consumer := CIdle,
            popped := popped s @ items [tail]\<rparr>
      | None \<Rightarrow> s\<lparr>consumer := otherwise\<rparr>)"

text \<open>The start of \<open>pop\<close>: read \<open>tail_\<close>, load its link, skip the stub.\<close>

definition pop_start :: "('n, 't) mpsc_sys \<Rightarrow> ('n, 't) mpsc_sys" where
  "pop_start s =
     (let tail = q_tail (queue s)
      in if tail = Stub then
           (case mpsc_next (queue s) tail of
              None \<Rightarrow> s
            | Some next \<Rightarrow> s\<lparr>queue := (queue s)\<lparr>q_tail := next\<rparr>, consumer := CLoad next\<rparr>)
         else take_or tail (CHead tail) s)"

inductive mpsc_step :: "('n, 't) mpsc_sys \<Rightarrow> ('n, 't) mpsc_sys \<Rightarrow> bool" where
  p_begin: "producers s t = PIdle \<Longrightarrow> \<forall>u. \<not> owns (producers s u) n \<Longrightarrow> n \<notin> set (in_queue s) \<Longrightarrow>
    mpsc_step s (s\<lparr>producers := (producers s)(t := PStore n)\<rparr>)"
| p_store: "producers s t = PStore n \<Longrightarrow>
    mpsc_step s (s\<lparr>queue := push_store (Node n) (queue s), producers := (producers s)(t := PExchange n)\<rparr>)"
| p_exchange: "producers s t = PExchange n \<Longrightarrow> push_exchange (Node n) (queue s) = (prev, q) \<Longrightarrow>
    mpsc_step s (s\<lparr>queue := q, producers := (producers s)(t := PLink prev n), pushed := pushed s @ [n]\<rparr>)"
| p_link: "producers s t = PLink prev n \<Longrightarrow>
    mpsc_step s (s\<lparr>queue := push_link prev (Node n) (queue s), producers := (producers s)(t := PIdle)\<rparr>)"
| c_start: "consumer s = CIdle \<Longrightarrow> mpsc_step s (pop_start s)"
| c_load: "consumer s = CLoad tail \<Longrightarrow> mpsc_step s (take_or tail (CHead tail) s)"
| c_head_null: "consumer s = CHead tail \<Longrightarrow> tail \<noteq> q_head (queue s) \<Longrightarrow>
    mpsc_step s (s\<lparr>consumer := CIdle\<rparr>)"
| c_head_stub: "consumer s = CHead tail \<Longrightarrow> tail = q_head (queue s) \<Longrightarrow>
    mpsc_step s (s\<lparr>consumer := CStore tail\<rparr>)"
| c_store: "consumer s = CStore tail \<Longrightarrow>
    mpsc_step s (s\<lparr>queue := push_store Stub (queue s), consumer := CExchange tail\<rparr>)"
| c_exchange: "consumer s = CExchange tail \<Longrightarrow> push_exchange Stub (queue s) = (prev, q) \<Longrightarrow>
    mpsc_step s (s\<lparr>queue := q, consumer := CLink tail prev\<rparr>)"
| c_link: "consumer s = CLink tail prev \<Longrightarrow>
    mpsc_step s (s\<lparr>queue := push_link prev Stub (queue s), consumer := CReload tail\<rparr>)"
| c_reload: "consumer s = CReload tail \<Longrightarrow> mpsc_step s (take_or tail CIdle s)"

definition mpsc_init :: "('n, 't) mpsc_sys \<Rightarrow> bool" where
  "mpsc_init s \<longleftrightarrow>
     (\<exists>mem. queue s = MpscQueue mem) \<and> producers s = (\<lambda>_. PIdle) \<and> consumer s = CIdle \<and>
     pushed s = [] \<and> popped s = []"

subsection \<open>The invariant\<close>

text \<open>A push is between its exchange and its link: \<open>a\<close> is the previous head, \<open>b\<close> the new one.\<close>

definition pending_link :: "('n, 't) mpsc_sys \<Rightarrow> 'n node \<Rightarrow> 'n node \<Rightarrow> bool" where
  "pending_link s a b \<longleftrightarrow>
     (\<exists>t n. producers s t = PLink a n \<and> b = Node n) \<or> (\<exists>tail. consumer s = CLink tail a \<and> b = Stub)"

fun consumer_ok :: "'n consumer \<Rightarrow> 'n mpsc \<Rightarrow> 'n node list \<Rightarrow> bool" where
  "consumer_ok CIdle q ns \<longleftrightarrow> True"
| "consumer_ok (CLoad tail) q ns \<longleftrightarrow> tail = q_tail q \<and> tail \<noteq> Stub"
| "consumer_ok (CHead tail) q ns \<longleftrightarrow> tail = q_tail q \<and> tail \<noteq> Stub"
| "consumer_ok (CStore tail) q ns \<longleftrightarrow> tail = q_tail q \<and> tail \<noteq> Stub \<and> Stub \<notin> set ns"
| "consumer_ok (CExchange tail) q ns \<longleftrightarrow>
     tail = q_tail q \<and> tail \<noteq> Stub \<and> Stub \<notin> set ns \<and> mpsc_next q Stub = None"
| "consumer_ok (CLink tail prev) q ns \<longleftrightarrow> tail = q_tail q \<and> tail \<noteq> Stub"
| "consumer_ok (CReload tail) q ns \<longleftrightarrow> tail = q_tail q \<and> tail \<noteq> Stub"

definition producers_ok :: "('n, 't) mpsc_sys \<Rightarrow> 'n node list \<Rightarrow> bool" where
  "producers_ok s ns \<longleftrightarrow>
     (\<forall>t u n. owns (producers s t) n \<longrightarrow> owns (producers s u) n \<longrightarrow> t = u) \<and>
     (\<forall>t n. producers s t = PStore n \<or> producers s t = PExchange n \<longrightarrow> Node n \<notin> set ns) \<and>
     (\<forall>t n. producers s t = PExchange n \<longrightarrow> mpsc_next (queue s) (Node n) = None)"

text \<open>
  The chain from tail to head in exchange order; the pushes in flight are exactly the missing
  links; producers hold distinct nodes that are not in the chain before the exchange; and the
  nodes pushed are the nodes popped followed by the nodes in the chain.
\<close>

definition mpsc_inv_at :: "('n, 't) mpsc_sys \<Rightarrow> 'n node list \<Rightarrow> bool" where
  "mpsc_inv_at s ns \<longleftrightarrow>
     chain (pending_link s) (queue s) ns \<and>
     (\<forall>a b. pending_link s a b \<longrightarrow> adjacent a b ns \<and> mpsc_next (queue s) a = None) \<and>
     producers_ok s ns \<and> consumer_ok (consumer s) (queue s) ns \<and>
     pushed s = popped s @ items ns"

definition mpsc_inv :: "('n, 't) mpsc_sys \<Rightarrow> bool" where
  "mpsc_inv s \<longleftrightarrow> (\<exists>ns. mpsc_inv_at s ns)"

lemma in_queue_items: "mpsc_inv_at s ns \<Longrightarrow> in_queue s = items ns"
  by (simp add: mpsc_inv_at_def in_queue_def)

lemma mpsc_inv_init: "mpsc_init s \<Longrightarrow> mpsc_inv s"
  unfolding mpsc_inv_def mpsc_init_def
  by (rule exI [of _ "[Stub]"])
    (auto simp: mpsc_inv_at_def chain_init pending_link_def producers_ok_def)

text \<open>A producer that is not about to link, before and after its step, leaves the missing links.\<close>

lemma pending_link_producer:
  assumes "\<And>a n. producers s t \<noteq> PLink a n" and "\<And>a n. p \<noteq> PLink a n"
  shows "pending_link (s\<lparr>queue := q, producers := (producers s)(t := p)\<rparr>) = pending_link s"
  unfolding pending_link_def fun_eq_iff using assms by (simp, metis)

lemma pending_link_exchange:
  assumes "\<And>a n. producers s t \<noteq> PLink a n"
  shows "pending_link (s\<lparr>queue := q, producers := (producers s)(t := PLink prev m), pushed := xs\<rparr>) a b \<longleftrightarrow>
    pending_link s a b \<or> a = prev \<and> b = Node m"
  unfolding pending_link_def using assms by (simp, metis)

text \<open>Producers.\<close>

lemma inv_p_begin:
  assumes "mpsc_inv_at s ns" and "producers s t = PIdle" and "\<forall>u. \<not> owns (producers s u) n"
    and "n \<notin> set (in_queue s)"
  shows "mpsc_inv_at (s\<lparr>producers := (producers s)(t := PStore n)\<rparr>) ns"
proof -
  have pend: "pending_link (s\<lparr>producers := (producers s)(t := PStore n)\<rparr>) = pending_link s"
    using assms(2) pending_link_producer [of s t "PStore n" "queue s"] by simp
  show ?thesis
    using assms in_queue_items [OF assms(1)] unfolding mpsc_inv_at_def pend
    by (auto simp: producers_ok_def set_items)
qed

lemma inv_p_store:
  assumes "mpsc_inv_at s ns" and "producers s t = PStore n"
  shows "mpsc_inv_at (s\<lparr>queue := push_store (Node n) (queue s), producers := (producers s)(t := PExchange n)\<rparr>) ns"
    (is "mpsc_inv_at ?s ns")
proof -
  have n: "Node n \<notin> set ns"
    using assms by (auto simp: mpsc_inv_at_def producers_ok_def)
  have pend: "pending_link ?s = pending_link s"
    using assms(2) by (intro pending_link_producer) simp_all
  have "chain (pending_link s) (push_store (Node n) (queue s)) ns"
    using assms(1) n by (auto simp: mpsc_inv_at_def intro: chain_store)
  moreover have "\<forall>a b. pending_link s a b \<longrightarrow> adjacent a b ns \<and> mpsc_next (push_store (Node n) (queue s)) a = None"
    using assms(1) by (auto simp: mpsc_inv_at_def push_store_def)
  moreover have "producers_ok ?s ns"
    using assms unfolding mpsc_inv_at_def producers_ok_def
    by (auto simp: push_store_def split: if_splits)
  moreover have "consumer_ok (consumer s) (push_store (Node n) (queue s)) ns"
    using assms(1) by (cases "consumer s") (auto simp: mpsc_inv_at_def push_store_def)
  ultimately show ?thesis
    using assms(1) unfolding mpsc_inv_at_def pend by simp
qed

lemma inv_p_exchange:
  assumes inv: "mpsc_inv_at s ns" and p: "producers s t = PExchange n"
    and ex: "push_exchange (Node n) (queue s) = (prev, q)"
  shows "mpsc_inv_at (s\<lparr>queue := q, producers := (producers s)(t := PLink prev n), pushed := pushed s @ [n]\<rparr>)
           (ns @ [Node n])" (is "mpsc_inv_at ?s _")
proof -
  have prev: "prev = q_head (queue s)" and q: "q = (queue s)\<lparr>q_head := Node n\<rparr>"
    using ex by (simp_all add: push_exchange_def)
  have n: "Node n \<notin> set ns" and nx: "mpsc_next (queue s) (Node n) = None"
    using inv p by (auto simp: mpsc_inv_at_def producers_ok_def)
  have ch: "chain (pending_link s) (queue s) ns"
    using inv by (simp add: mpsc_inv_at_def)
  have pend: "pending_link ?s a b \<longleftrightarrow> pending_link s a b \<or> a = prev \<and> b = Node n" for a b
    using p by (intro pending_link_exchange) simp
  have "chain (pending_link ?s) (snd (push_exchange (Node n) (queue s))) (ns @ [Node n])"
    using ch n nx by (rule chain_exchange) (unfold pend, simp_all add: prev)
  moreover have "adjacent a b (ns @ [Node n]) \<and> mpsc_next q a = None" if "pending_link ?s a b" for a b
    using that inv ch unfolding pend by (auto simp: mpsc_inv_at_def adjacent_snoc chain_def q prev)
  moreover have "producers_ok ?s (ns @ [Node n])"
    using inv p unfolding mpsc_inv_at_def producers_ok_def
    by (auto simp: q split: if_splits)
  moreover have "consumer_ok (consumer s) q (ns @ [Node n])"
    using inv by (cases "consumer s") (auto simp: mpsc_inv_at_def q)
  ultimately show ?thesis
    using inv ex unfolding mpsc_inv_at_def by simp
qed

lemma inv_p_link:
  assumes inv: "mpsc_inv_at s ns" and p: "producers s t = PLink prev n"
  shows "mpsc_inv_at (s\<lparr>queue := push_link prev (Node n) (queue s), producers := (producers s)(t := PIdle)\<rparr>) ns"
    (is "mpsc_inv_at ?s ns")
proof -
  have "pending_link s prev (Node n)" using p by (auto simp: pending_link_def)
  then have adj: "adjacent prev (Node n) ns" and nx: "mpsc_next (queue s) prev = None"
    using inv by (auto simp: mpsc_inv_at_def)
  have ch: "chain (pending_link s) (queue s) ns" using inv by (simp add: mpsc_inv_at_def)
  then have dist: "distinct ns" by (simp add: chain_def)
  have adj': "pending_link s a b \<Longrightarrow> adjacent a b ns" for a b
    using inv by (simp add: mpsc_inv_at_def)
  have own: "producers s u = PLink prev m \<Longrightarrow> u = t" for u m
  proof -
    assume u: "producers s u = PLink prev m"
    then have "adjacent prev (Node m) ns" by (intro adj') (auto simp: pending_link_def)
    with adj dist have "m = n" by (auto dest: adjacent_right_unique)
    with inv u p show "u = t" by (auto simp: mpsc_inv_at_def producers_ok_def)
  qed
  have noc: "consumer s \<noteq> CLink tail prev" for tail
  proof
    assume "consumer s = CLink tail prev"
    then have "adjacent prev Stub ns" by (intro adj') (simp add: pending_link_def)
    from adjacent_right_unique [OF dist this adj] show False by simp
  qed
  have pend: "pending_link ?s a b \<longleftrightarrow> pending_link s a b \<and> a \<noteq> prev" for a b
  proof
    assume "pending_link ?s a b"
    then consider u m where "u \<noteq> t" "producers s u = PLink a m" "b = Node m"
      | tail where "consumer s = CLink tail a" "b = Stub"
      unfolding pending_link_def by (auto split: if_splits)
    then show "pending_link s a b \<and> a \<noteq> prev"
      using own noc by cases (auto simp: pending_link_def)
  next
    assume "pending_link s a b \<and> a \<noteq> prev"
    then consider u m where "u \<noteq> t" "producers s u = PLink a m" "b = Node m"
      | tail where "consumer s = CLink tail a" "b = Stub"
      using p unfolding pending_link_def by (metis producer.inject(3))
    then show "pending_link ?s a b"
      by cases (auto simp: pending_link_def)
  qed
  have "chain (pending_link ?s) (push_link prev (Node n) (queue s)) ns"
    using ch adj by (rule chain_link) (simp add: pend)
  moreover have "adjacent a b ns \<and> mpsc_next (push_link prev (Node n) (queue s)) a = None"
    if "pending_link ?s a b" for a b
    using that inv unfolding pend by (auto simp: mpsc_inv_at_def push_link_def)
  moreover have "producers_ok ?s ns"
    using inv adj unfolding mpsc_inv_at_def producers_ok_def
    by (auto simp: push_link_def dest: adjacent_set)
  moreover have "consumer_ok (consumer s) (push_link prev (Node n) (queue s)) ns"
    using inv adj by (cases "consumer s") (auto simp: mpsc_inv_at_def push_link_def dest: adjacent_set)
  ultimately show ?thesis
    using inv unfolding mpsc_inv_at_def by simp
qed

text \<open>The consumer.\<close>

fun linking :: "'n consumer \<Rightarrow> bool" where
  "linking (CLink tail prev) \<longleftrightarrow> True"
| "linking _ \<longleftrightarrow> False"

lemma pending_link_consumer:
  assumes "\<not> linking (consumer s)" and "\<not> linking c"
  shows "pending_link (s\<lparr>queue := q, consumer := c, popped := xs\<rparr>) = pending_link s"
  using assms by (cases "consumer s"; cases c) (auto simp: pending_link_def fun_eq_iff)

lemma inv_consumer:
  assumes "mpsc_inv_at s ns" and "\<not> linking (consumer s)" and "\<not> linking c" and "consumer_ok c (queue s) ns"
  shows "mpsc_inv_at (s\<lparr>consumer := c\<rparr>) ns"
  using assms pending_link_consumer [where s = s and c = c and q = "queue s" and xs = "popped s"]
  by (simp add: mpsc_inv_at_def producers_ok_def)

text \<open>Moving the tail forward, over the stub or over a node that is returned.\<close>

lemma inv_advance:
  assumes inv: "mpsc_inv_at s ns" and nl: "\<not> linking (consumer s)" "\<not> linking c"
    and nx: "mpsc_next (queue s) (q_tail (queue s)) = Some next"
    and c: "\<And>ns'. ns = q_tail (queue s) # ns' \<Longrightarrow> hd ns' = next \<Longrightarrow> ns' \<noteq> [] \<Longrightarrow>
      consumer_ok c ((queue s)\<lparr>q_tail := next\<rparr>) ns'"
  shows "mpsc_inv (s\<lparr>queue := (queue s)\<lparr>q_tail := next\<rparr>, consumer := c,
           popped := popped s @ items [q_tail (queue s)]\<rparr>)" (is "mpsc_inv ?s")
proof -
  have ch: "chain (pending_link s) (queue s) ns" using inv by (simp add: mpsc_inv_at_def)
  from chain_advance [OF ch nx] obtain ns' where ns: "ns = q_tail (queue s) # ns'"
    and ch': "chain (pending_link s) ((queue s)\<lparr>q_tail := next\<rparr>) ns'" and hd: "hd ns' = next" by blast
  have pend: "pending_link ?s = pending_link s" using nl by (rule pending_link_consumer)
  have "adjacent a b ns'" if "pending_link s a b" for a b
    using that inv nx unfolding mpsc_inv_at_def ns adjacent_Cons by (metis option.distinct(1))
  moreover have "producers_ok ?s ns'"
    using inv unfolding mpsc_inv_at_def producers_ok_def ns by auto
  moreover have "consumer_ok c ((queue s)\<lparr>q_tail := next\<rparr>) ns'"
    using ch' by (intro c ns hd) (simp add: chain_def)
  moreover have "pushed s = (popped s @ items [q_tail (queue s)]) @ items ns'"
    using inv items_append [of "[q_tail (queue s)]" ns'] by (simp add: mpsc_inv_at_def ns)
  ultimately show ?thesis
    using inv ch' unfolding mpsc_inv_def mpsc_inv_at_def pend by (intro exI [of _ ns']) simp
qed

lemma inv_take_or:
  assumes inv: "mpsc_inv_at s ns" and nl: "\<not> linking (consumer s)" "\<not> linking c"
    and tail: "tail = q_tail (queue s)" and c: "consumer_ok c (queue s) ns"
  shows "mpsc_inv (take_or tail c s)"
proof (cases "mpsc_next (queue s) tail")
  case None
  with inv_consumer [OF inv nl c] show ?thesis by (auto simp: take_or_def mpsc_inv_def)
next
  case (Some nx)
  with inv_advance [OF inv nl(1), of CIdle nx] tail show ?thesis by (simp add: take_or_def)
qed

lemma inv_pop_start:
  assumes inv: "mpsc_inv_at s ns" and idle: "consumer s = CIdle"
  shows "mpsc_inv (pop_start s)"
proof (cases "q_tail (queue s) = Stub")
  case False
  with inv_take_or [OF inv, of "CHead (q_tail (queue s))"] idle show ?thesis
    by (simp add: pop_start_def Let_def)
next
  case True
  show ?thesis
  proof (cases "mpsc_next (queue s) Stub")
    case None
    with True inv show ?thesis by (auto simp: pop_start_def mpsc_inv_def)
  next
    case (Some nx)
    have "distinct ns" using inv by (simp add: mpsc_inv_at_def chain_def)
    then have "mpsc_inv (s\<lparr>queue := (queue s)\<lparr>q_tail := nx\<rparr>, consumer := CLoad nx,
        popped := popped s @ items [q_tail (queue s)]\<rparr>)"
      using Some True idle by (intro inv_advance [OF inv]) (auto simp: neq_Nil_conv)
    with Some True show ?thesis by (simp add: pop_start_def)
  qed
qed

lemma inv_c_head_stub:
  assumes inv: "mpsc_inv_at s ns" and c: "consumer s = CHead tail" and "tail = q_head (queue s)"
  shows "mpsc_inv_at (s\<lparr>consumer := CStore tail\<rparr>) ns"
proof -
  have "tail \<noteq> Stub" and "hd ns = tail" and "last ns = tail" and "distinct ns" and "ns \<noteq> []"
    using assms by (auto simp: mpsc_inv_at_def chain_def)
  then have "ns = [tail]" by (cases ns) (auto split: if_splits)
  with \<open>tail \<noteq> Stub\<close> show ?thesis
    using assms by (intro inv_consumer) (auto simp: mpsc_inv_at_def)
qed

lemma inv_c_store:
  assumes inv: "mpsc_inv_at s ns" and c: "consumer s = CStore tail"
  shows "mpsc_inv_at (s\<lparr>queue := push_store Stub (queue s), consumer := CExchange tail\<rparr>) ns"
    (is "mpsc_inv_at ?s ns")
proof -
  have stub: "Stub \<notin> set ns" using assms by (auto simp: mpsc_inv_at_def)
  have pend: "pending_link ?s = pending_link s"
    using pending_link_consumer [where s = s and c = "CExchange tail" and xs = "popped s"] c by simp
  have "chain (pending_link s) (push_store Stub (queue s)) ns"
    using inv stub by (auto simp: mpsc_inv_at_def intro: chain_store)
  then show ?thesis
    using assms stub unfolding mpsc_inv_at_def pend
    by (auto simp: push_store_def producers_ok_def dest: adjacent_set)
qed

lemma inv_c_exchange:
  assumes inv: "mpsc_inv_at s ns" and c: "consumer s = CExchange tail"
    and ex: "push_exchange Stub (queue s) = (prev, q)"
  shows "mpsc_inv_at (s\<lparr>queue := q, consumer := CLink tail prev\<rparr>) (ns @ [Stub])"
    (is "mpsc_inv_at ?s _")
proof -
  have prev: "prev = q_head (queue s)" and q: "q = (queue s)\<lparr>q_head := Stub\<rparr>"
    using ex by (simp_all add: push_exchange_def)
  have stub: "Stub \<notin> set ns" and nx: "mpsc_next (queue s) Stub = None"
    using inv c by (auto simp: mpsc_inv_at_def)
  have ch: "chain (pending_link s) (queue s) ns" using inv by (simp add: mpsc_inv_at_def)
  have pend: "pending_link ?s a b \<longleftrightarrow> pending_link s a b \<or> a = prev \<and> b = Stub" for a b
    using c by (auto simp: pending_link_def)
  have "chain (pending_link ?s) (snd (push_exchange Stub (queue s))) (ns @ [Stub])"
    using ch stub nx by (rule chain_exchange) (unfold pend, simp_all add: prev)
  moreover have "adjacent a b (ns @ [Stub]) \<and> mpsc_next q a = None" if "pending_link ?s a b" for a b
    using that inv ch unfolding pend by (auto simp: mpsc_inv_at_def adjacent_snoc chain_def q prev)
  ultimately show ?thesis
    using inv c ex unfolding mpsc_inv_at_def by (clarsimp simp: q producers_ok_def)
qed

lemma inv_c_link:
  assumes inv: "mpsc_inv_at s ns" and c: "consumer s = CLink tail prev"
  shows "mpsc_inv_at (s\<lparr>queue := push_link prev Stub (queue s), consumer := CReload tail\<rparr>) ns"
    (is "mpsc_inv_at ?s ns")
proof -
  have "pending_link s prev Stub" using c by (auto simp: pending_link_def)
  then have adj: "adjacent prev Stub ns" using inv by (auto simp: mpsc_inv_at_def)
  have ch: "chain (pending_link s) (queue s) ns" using inv by (simp add: mpsc_inv_at_def)
  then have dist: "distinct ns" by (simp add: chain_def)
  have nop: "producers s u \<noteq> PLink prev m" for u m
  proof
    assume "producers s u = PLink prev m"
    then have "pending_link s prev (Node m)" by (auto simp: pending_link_def)
    then have "adjacent prev (Node m) ns" using inv by (simp add: mpsc_inv_at_def)
    from adjacent_right_unique [OF dist this adj] show False by simp
  qed
  have pend: "pending_link ?s a b \<longleftrightarrow> pending_link s a b \<and> a \<noteq> prev" for a b
    using c nop by (auto simp: pending_link_def)
  have "chain (pending_link ?s) (push_link prev Stub (queue s)) ns"
    using ch adj by (rule chain_link) (simp add: pend)
  moreover have "adjacent a b ns \<and> mpsc_next (push_link prev Stub (queue s)) a = None"
    if "pending_link ?s a b" for a b
    using that inv unfolding pend by (auto simp: mpsc_inv_at_def push_link_def)
  moreover have "producers_ok ?s ns"
    using inv adj unfolding mpsc_inv_at_def producers_ok_def
    by (auto simp: push_link_def dest: adjacent_set)
  ultimately show ?thesis
    using inv c unfolding mpsc_inv_at_def by (clarsimp simp: push_link_def)
qed

lemma mpsc_inv_step: "mpsc_step s s' \<Longrightarrow> mpsc_inv s \<Longrightarrow> mpsc_inv s'"
proof (induction rule: mpsc_step.induct)
  case (c_load s tail)
  then obtain ns where ns: "mpsc_inv_at s ns" by (auto simp: mpsc_inv_def)
  then have "consumer_ok (consumer s) (queue s) ns" by (simp add: mpsc_inv_at_def)
  with c_load(1) show ?case by (intro inv_take_or [OF ns]) auto
next
  case (c_head_null s tail)
  then obtain ns where ns: "mpsc_inv_at s ns" by (auto simp: mpsc_inv_def)
  with c_head_null(1) have "mpsc_inv_at (s\<lparr>consumer := CIdle\<rparr>) ns" by (intro inv_consumer) simp_all
  then show ?case by (auto simp: mpsc_inv_def)
next
  case (c_reload s tail)
  then obtain ns where ns: "mpsc_inv_at s ns" by (auto simp: mpsc_inv_def)
  then have "consumer_ok (consumer s) (queue s) ns" by (simp add: mpsc_inv_at_def)
  with c_reload(1) show ?case by (intro inv_take_or [OF ns]) auto
next
  case (c_start s)
  then show ?case by (auto simp: mpsc_inv_def [of s] intro: inv_pop_start)
qed (unfold mpsc_inv_def, (blast intro: inv_p_begin inv_p_store inv_p_exchange inv_p_link
      inv_c_head_stub inv_c_store inv_c_exchange inv_c_link)+)

interpretation mq: inductive_invariant mpsc_init mpsc_step mpsc_inv
  by unfold_locales (auto intro: mpsc_inv_init mpsc_inv_step)

subsection \<open>The operations alone are runs of the steps\<close>

text \<open>
  Run without interference, the consumer's steps compute \<open>pop\<close>, and a producer's steps compute
  \<open>push\<close>: the micro-steps are the code of the first part, cut at its atomic accesses.
\<close>

fun returned :: "'n node option \<Rightarrow> 'n list" where
  "returned None = []"
| "returned (Some x) = items [x]"

definition popped_by :: "'n node option \<times> 'n mpsc \<Rightarrow> ('n, 't) mpsc_sys \<Rightarrow> ('n, 't) mpsc_sys" where
  "popped_by r s = s\<lparr>queue := snd r, consumer := CIdle, popped := popped s @ returned (fst r)\<rparr>"

lemma take_or_CIdle: "take_or tail CIdle s = popped_by (pop_retry tail (queue s)) s"
  by (simp add: take_or_def pop_retry_def popped_by_def split: option.split)

lemma run_stub:
  assumes c: "consumer s = CStore tail"
  shows "mpsc_step\<^sup>*\<^sup>* s (popped_by (pop_retry tail (push Stub (queue s))) s)"
proof -
  define q1 where "q1 = push_store Stub (queue s)"
  define s1 where "s1 = s\<lparr>queue := q1, consumer := CExchange tail\<rparr>"
  define s2 where "s2 = s\<lparr>queue := q1\<lparr>q_head := Stub\<rparr>, consumer := CLink tail (q_head q1)\<rparr>"
  define s3 where "s3 = s\<lparr>queue := push Stub (queue s), consumer := CReload tail\<rparr>"
  have 1: "mpsc_step s s1"
    unfolding s1_def q1_def using c by (rule mpsc_step.c_store)
  have 2: "mpsc_step s1 s2"
    using mpsc_step.c_exchange [of s1 tail "q_head q1" "q1\<lparr>q_head := Stub\<rparr>"]
    by (simp add: s1_def s2_def push_exchange_def)
  have 3: "mpsc_step s2 s3"
    using mpsc_step.c_link [of s2 tail "q_head q1"]
    by (simp add: s2_def s3_def push_def push_exchange_def q1_def Let_def)
  have "mpsc_step s3 (take_or tail CIdle s3)"
    by (rule mpsc_step.c_reload) (simp add: s3_def)
  then have 4: "mpsc_step s3 (popped_by (pop_retry tail (push Stub (queue s))) s)"
    by (simp add: take_or_CIdle) (simp add: s3_def popped_by_def)
  from 1 2 3 4 show ?thesis by (meson converse_rtranclp_into_rtranclp r_into_rtranclp)
qed

lemma run_take:
  assumes step: "mpsc_step s (take_or tail (CHead tail) s)"
  shows "mpsc_step\<^sup>*\<^sup>* s (popped_by (pop_take tail (mpsc_next (queue s) tail) (queue s)) s)"
proof (cases "mpsc_next (queue s) tail")
  case None
  define s1 where "s1 = s\<lparr>consumer := CHead tail\<rparr>"
  have 1: "mpsc_step s s1" using step None by (simp add: take_or_def s1_def)
  show ?thesis
  proof (cases "tail = q_head (queue s)")
    case True
    have 2: "mpsc_step s1 (s\<lparr>consumer := CStore tail\<rparr>)"
      using mpsc_step.c_head_stub [of s1 tail] True by (simp add: s1_def)
    have "mpsc_step\<^sup>*\<^sup>* (s\<lparr>consumer := CStore tail\<rparr>) (popped_by (pop_retry tail (push Stub (queue s))) s)"
      using run_stub [of "s\<lparr>consumer := CStore tail\<rparr>" tail] by (simp add: popped_by_def)
    with 1 2 True None show ?thesis
      by (auto simp: pop_take_def intro: converse_rtranclp_into_rtranclp)
  next
    case False
    have 2: "mpsc_step s1 (popped_by (None, queue s) s)"
      using mpsc_step.c_head_null [of s1 tail] False by (simp add: s1_def popped_by_def)
    with 1 False None show ?thesis
      by (auto simp: pop_take_def intro: converse_rtranclp_into_rtranclp)
  qed
next
  case (Some nx)
  then show ?thesis
    using step by (auto simp: take_or_def pop_take_def popped_by_def)
qed

lemma consumer_run:
  assumes c: "consumer s = CIdle"
  shows "mpsc_step\<^sup>*\<^sup>* s (popped_by (pop (queue s)) s)"
proof -
  have 1: "mpsc_step s (pop_start s)" using c by (rule mpsc_step.c_start)
  show ?thesis
  proof (cases "q_tail (queue s) = Stub")
    case False
    then show ?thesis using run_take [of s "q_tail (queue s)"] 1 by (simp add: pop_start_def pop_def Let_def)
  next
    case True
    show ?thesis
    proof (cases "mpsc_next (queue s) Stub")
      case None
      then have "popped_by (pop (queue s)) s = s" using True c by (simp add: pop_def popped_by_def)
      then show ?thesis by simp
    next
      case (Some nx)
      define s1 where "s1 = s\<lparr>queue := (queue s)\<lparr>q_tail := nx\<rparr>, consumer := CLoad nx\<rparr>"
      have "mpsc_step s s1" using 1 Some True by (simp add: pop_start_def s1_def)
      moreover have "mpsc_step s1 (take_or nx (CHead nx) s1)"
        by (rule mpsc_step.c_load) (simp add: s1_def)
      from run_take [OF this] have "mpsc_step\<^sup>*\<^sup>* s1 (popped_by (pop (queue s)) s)"
        using Some True by (simp add: s1_def pop_def popped_by_def)
      ultimately show ?thesis by (rule converse_rtranclp_into_rtranclp)
    qed
  qed
qed

lemma producer_run:
  assumes "producers s t = PIdle" and "\<forall>u. \<not> owns (producers s u) n" and "n \<notin> set (in_queue s)"
  shows "mpsc_step\<^sup>*\<^sup>* s (s\<lparr>queue := push (Node n) (queue s), pushed := pushed s @ [n]\<rparr>)"
proof -
  define q1 where "q1 = push_store (Node n) (queue s)"
  define s1 where "s1 = s\<lparr>producers := (producers s)(t := PStore n)\<rparr>"
  define s2 where "s2 = s\<lparr>queue := q1, producers := (producers s)(t := PExchange n)\<rparr>"
  define s3 where "s3 = s\<lparr>queue := q1\<lparr>q_head := Node n\<rparr>,
    producers := (producers s)(t := PLink (q_head q1) n), pushed := pushed s @ [n]\<rparr>"
  have 1: "mpsc_step s s1" unfolding s1_def using assms by (rule mpsc_step.p_begin)
  have 2: "mpsc_step s1 s2"
    using mpsc_step.p_store [of s1 t n] by (simp add: s1_def s2_def q1_def)
  have 3: "mpsc_step s2 s3"
    using mpsc_step.p_exchange [of s2 t n "q_head q1" "q1\<lparr>q_head := Node n\<rparr>"]
    by (simp add: s2_def s3_def push_exchange_def)
  have idle: "(producers s)(t := PIdle) = producers s" using assms(1) by auto
  have "s3\<lparr>queue := push_link (q_head q1) (Node n) (queue s3), producers := (producers s3)(t := PIdle)\<rparr> =
    s\<lparr>queue := push (Node n) (queue s), pushed := pushed s @ [n]\<rparr>"
    using idle by (cases s) (simp add: s3_def push_def push_exchange_def q1_def Let_def)
  then have 4: "mpsc_step s3 (s\<lparr>queue := push (Node n) (queue s), pushed := pushed s @ [n]\<rparr>)"
    using mpsc_step.p_link [of s3 t "q_head q1" n] by (simp add: s3_def)
  from 1 2 3 4 show ?thesis by (meson converse_rtranclp_into_rtranclp r_into_rtranclp)
qed

subsection \<open>What the queue promises\<close>

lemma quiescent_holds:
  assumes inv: "mpsc_inv_at s ns" and idle: "consumer s = CIdle"
    and no_link: "\<And>t prev n. producers s t \<noteq> PLink prev n"
  shows "holds (queue s) (in_queue s)"
proof -
  have "pending_link s = (\<lambda>_ _. False)"
    using idle no_link by (auto simp: pending_link_def fun_eq_iff)
  then have "quiet_chain (queue s) ns" using inv by (simp add: mpsc_inv_at_def)
  then show ?thesis unfolding holds_def using in_queue_items [OF inv] by (intro exI [of _ ns]) simp
qed

lemma distinct_items: "distinct ns \<Longrightarrow> distinct (items ns)"
  by (induction ns rule: items.induct) (auto simp: set_items)

text \<open>
  C4. In every interleaving of the producers with the consumer, the nodes \<open>pop\<close> returned are a
  prefix of the nodes in the order in which their pushes exchanged the head: nothing is lost,
  duplicated or reordered, and no node is twice in the queue.
\<close>

theorem mpsc_fifo:
  assumes "reachable mpsc_init mpsc_step s"
  shows "pushed s = popped s @ in_queue s \<and> distinct (in_queue s)"
proof -
  obtain ns where ns: "mpsc_inv_at s ns"
    using mq.invar_reachable [OF assms] by (auto simp: mpsc_inv_def)
  then have "distinct ns" by (simp add: mpsc_inv_at_def chain_def)
  with ns show ?thesis using in_queue_items [OF ns] by (simp add: mpsc_inv_at_def distinct_items)
qed

text \<open>
  A concrete run: two pushes and a pop.
\<close>

definition demo_start :: "(nat, nat) mpsc_sys" where
  "demo_start = \<lparr>queue = MpscQueue (\<lambda>_. None), producers = \<lambda>_. PIdle, consumer = CIdle,
     pushed = [], popped = []\<rparr>"

lemma demo_init: "mpsc_init demo_start"
  by (auto simp: mpsc_init_def demo_start_def)

definition demo_one :: "(nat, nat) mpsc_sys" where
  "demo_one = demo_start\<lparr>queue := push (Node 7) (queue demo_start), pushed := [7]\<rparr>"

definition demo_two :: "(nat, nat) mpsc_sys" where
  "demo_two = demo_one\<lparr>queue := push (Node 8) (queue demo_one), pushed := [7, 8]\<rparr>"

definition demo_popped :: "(nat, nat) mpsc_sys" where
  "demo_popped = popped_by (pop (queue demo_two)) demo_two"

lemma demo_reachable:
  "reachable mpsc_init mpsc_step demo_two" "reachable mpsc_init mpsc_step demo_popped"
proof -
  have 0: "reachable mpsc_init mpsc_step demo_start" by (rule reachable.start) (rule demo_init)
  have "mpsc_step\<^sup>*\<^sup>* demo_start demo_one"
    using producer_run [of demo_start 0 7] by (simp add: demo_start_def demo_one_def in_queue_def)
  from reachable_star [OF this 0] have 1: "reachable mpsc_init mpsc_step demo_one" .
  have "mpsc_step\<^sup>*\<^sup>* demo_one demo_two"
    using producer_run [of demo_one 0 8]
    by (simp add: demo_start_def demo_one_def demo_two_def in_queue_def)
  from reachable_star [OF this 1] show 2: "reachable mpsc_init mpsc_step demo_two" .
  have "mpsc_step\<^sup>*\<^sup>* demo_two demo_popped"
    unfolding demo_popped_def
    by (rule consumer_run) (simp add: demo_two_def demo_one_def demo_start_def)
  from reachable_star [OF this 2] show "reachable mpsc_init mpsc_step demo_popped" .
qed

lemmas demo_defs = demo_popped_def demo_two_def demo_one_def demo_start_def popped_by_def
  pop_def pop_take_def pop_retry_def push_def push_store_def push_exchange_def push_link_def MpscQueue_def

theorem mpsc_fifo_witness:
  "reachable mpsc_init mpsc_step demo_popped \<and> pushed demo_popped = [7, 8] \<and> popped demo_popped = [7] \<and>
   in_queue demo_popped = [8]"
  using mpsc_fifo [OF demo_reachable(2)] demo_reachable(2)
  by (simp add: demo_defs Let_def)

text \<open>
  Whenever no producer is between its exchange and its link and the consumer is not inside
  \<open>pop\<close>, a call of \<open>pop\<close> returns the oldest node of the queue, and null only if it is empty. The
  null that the code calls transiently inconsistent needs a push in flight.
\<close>

theorem mpsc_quiescent_pop:
  assumes "reachable mpsc_init mpsc_step s" and "consumer s = CIdle"
    and "\<forall>t prev n. producers s t \<noteq> PLink prev n"
  shows "fst (pop (queue s)) = (case in_queue s of [] \<Rightarrow> None | x # _ \<Rightarrow> Some (Node x))"
proof -
  obtain ns where "mpsc_inv_at s ns"
    using mq.invar_reachable [OF assms(1)] by (auto simp: mpsc_inv_def)
  then have "holds (queue s) (in_queue s)" using assms(2,3) by (intro quiescent_holds) auto
  then show ?thesis
    by (cases "in_queue s") (auto dest: holds_pop_Nil holds_pop_Cons)
qed

theorem mpsc_quiescent_pop_witness:
  "reachable mpsc_init mpsc_step demo_two \<and> consumer demo_two = CIdle \<and>
   (\<forall>t. producers demo_two t = PIdle) \<and> in_queue demo_two = [7, 8] \<and>
   fst (pop (queue demo_two)) = Some (Node 7)"
proof -
  have 1: "consumer demo_two = CIdle" "\<forall>t. producers demo_two t = PIdle" "in_queue demo_two = [7, 8]"
    by (simp_all add: demo_two_def demo_one_def demo_start_def in_queue_def)
  from 1(2) have "\<forall>t prev n. producers demo_two t \<noteq> PLink prev n" by simp
  from mpsc_quiescent_pop [OF demo_reachable(1) 1(1) this] 1 demo_reachable(1)
  show ?thesis by simp
qed

text \<open>
  Without interference the atomic accesses of the consumer add up to the sequential
  operation: from every state with an idle consumer its steps reach the state after \<open>pop\<close>.
\<close>

theorem mpsc_steps_pop:
  assumes "consumer s = CIdle"
  shows "mpsc_step\<^sup>*\<^sup>* s (s\<lparr>queue := snd (pop (queue s)),
           popped := popped s @ (case fst (pop (queue s)) of None \<Rightarrow> [] | Some x \<Rightarrow> items [x])\<rparr>)"
proof -
  have "returned r = (case r of None \<Rightarrow> [] | Some x \<Rightarrow> items [x])" for r :: "'a node option"
    by (cases r) simp_all
  moreover have "s\<lparr>consumer := CIdle\<rparr> = s" using assms by simp
  then have "popped_by r s = s\<lparr>queue := snd r, popped := popped s @ returned (fst r)\<rparr>" for r
    by (cases s) (simp add: popped_by_def)
  ultimately show ?thesis using consumer_run [OF assms] by simp
qed

theorem mpsc_steps_pop_witness:
  "consumer demo_two = CIdle \<and> mpsc_step\<^sup>*\<^sup>* demo_two demo_popped"
proof -
  have 1: "consumer demo_two = CIdle" by (simp add: demo_two_def demo_one_def demo_start_def)
  from mpsc_steps_pop [OF 1] 1 show ?thesis
    unfolding demo_popped_def popped_by_def by (simp add: demo_defs Let_def)
qed

end
