(* ===== verification/Status.thy ===== *)
theory Status
  imports Prelude
begin

text \<open>
  \<open>include/protocomm/status.h\<close>: status codes and the status object every operation of the
  library returns.

  \<open>StatusCode\<close> is an \<open>enum class\<close> with the fixed underlying type \<open>int\<close>. Such an enumeration
  has every \<open>int\<close> as a value, not only the named ones, and the code relies on it: the channel
  casts the 16-bit status field of a frame it received from the peer to \<open>StatusCode\<close> without
  a range check. The model keeps the underlying value and names the enumerators.
\<close>

subsection \<open>Status codes\<close>

datatype StatusCode = StatusCode (code_value: u32)

definition OK :: StatusCode where "OK = StatusCode 0"
definition CANCELLED :: StatusCode where "CANCELLED = StatusCode 1"
definition UNKNOWN :: StatusCode where "UNKNOWN = StatusCode 2"
definition INVALID_ARGUMENT :: StatusCode where "INVALID_ARGUMENT = StatusCode 3"
definition DEADLINE_EXCEEDED :: StatusCode where "DEADLINE_EXCEEDED = StatusCode 4"
definition NOT_FOUND :: StatusCode where "NOT_FOUND = StatusCode 5"
definition ALREADY_EXISTS :: StatusCode where "ALREADY_EXISTS = StatusCode 6"
definition PERMISSION_DENIED :: StatusCode where "PERMISSION_DENIED = StatusCode 7"
definition RESOURCE_EXHAUSTED :: StatusCode where "RESOURCE_EXHAUSTED = StatusCode 8"
definition FAILED_PRECONDITION :: StatusCode where "FAILED_PRECONDITION = StatusCode 9"
definition ABORTED :: StatusCode where "ABORTED = StatusCode 10"
definition OUT_OF_RANGE :: StatusCode where "OUT_OF_RANGE = StatusCode 11"
definition UNIMPLEMENTED :: StatusCode where "UNIMPLEMENTED = StatusCode 12"
definition INTERNAL :: StatusCode where "INTERNAL = StatusCode 13"
definition UNAVAILABLE :: StatusCode where "UNAVAILABLE = StatusCode 14"
definition DATA_LOSS :: StatusCode where "DATA_LOSS = StatusCode 15"
definition UNAUTHENTICATED :: StatusCode where "UNAUTHENTICATED = StatusCode 16"

lemmas status_code_defs =
  OK_def CANCELLED_def UNKNOWN_def INVALID_ARGUMENT_def DEADLINE_EXCEEDED_def NOT_FOUND_def
  ALREADY_EXISTS_def PERMISSION_DENIED_def RESOURCE_EXHAUSTED_def FAILED_PRECONDITION_def
  ABORTED_def OUT_OF_RANGE_def UNIMPLEMENTED_def INTERNAL_def UNAVAILABLE_def DATA_LOSS_def
  UNAUTHENTICATED_def

definition named_codes :: "StatusCode list" where
  "named_codes =
     [OK, CANCELLED, UNKNOWN, INVALID_ARGUMENT, DEADLINE_EXCEEDED, NOT_FOUND, ALREADY_EXISTS,
      PERMISSION_DENIED, RESOURCE_EXHAUSTED, FAILED_PRECONDITION, ABORTED, OUT_OF_RANGE,
      UNIMPLEMENTED, INTERNAL, UNAVAILABLE, DATA_LOSS, UNAUTHENTICATED]"

text \<open>The codes are ordered by their underlying value, as C++ orders enumerators.\<close>

instantiation StatusCode :: linorder
begin

definition less_eq_StatusCode :: "StatusCode \<Rightarrow> StatusCode \<Rightarrow> bool" where
  "less_eq_StatusCode a b \<longleftrightarrow> sint (code_value a) \<le> sint (code_value b)"

definition less_StatusCode :: "StatusCode \<Rightarrow> StatusCode \<Rightarrow> bool" where
  "less_StatusCode a b \<longleftrightarrow> sint (code_value a) < sint (code_value b)"

instance
  by intro_classes
    (auto simp: less_eq_StatusCode_def less_StatusCode_def word_eq_iff_signed [where ?'a = int]
      intro!: StatusCode.expand)

end

subsection \<open>Status objects\<close>

record Status =
  st_code :: StatusCode
  st_message :: string

definition Status_default :: Status where
  "Status_default = \<lparr>st_code = OK, st_message = ''''\<rparr>"

definition Status_make :: "StatusCode \<Rightarrow> string \<Rightarrow> Status" where
  "Status_make code message = \<lparr>st_code = code, st_message = message\<rparr>"

definition error_code :: "Status \<Rightarrow> StatusCode" where
  "error_code s = st_code s"

definition error_message :: "Status \<Rightarrow> string" where
  "error_message s = st_message s"

definition ok :: "Status \<Rightarrow> bool" where
  "ok s \<longleftrightarrow> st_code s = OK"

definition OK_status :: Status where
  "OK_status = Status_default"

lemma ok_default [simp]: "ok Status_default"
  by (simp add: ok_def Status_default_def)

lemma ok_make [simp]: "ok (Status_make c m) \<longleftrightarrow> c = OK"
  by (simp add: ok_def Status_make_def)

lemma error_code_make [simp]: "error_code (Status_make c m) = c"
  by (simp add: error_code_def Status_make_def)

lemma error_message_make [simp]: "error_message (Status_make c m) = m"
  by (simp add: error_message_def Status_make_def)

lemma error_code_default [simp]: "error_code Status_default = OK"
  by (simp add: error_code_def Status_default_def)

lemma ok_iff_code: "ok s \<longleftrightarrow> error_code s = OK"
  by (simp add: ok_def error_code_def)

lemma not_ok_codes [simp]:
  "CANCELLED \<noteq> OK" "INVALID_ARGUMENT \<noteq> OK" "FAILED_PRECONDITION \<noteq> OK"
  "UNIMPLEMENTED \<noteq> OK" "INTERNAL \<noteq> OK" "UNAVAILABLE \<noteq> OK"
  by (simp_all add: status_code_defs)

subsection \<open>Status codes on the wire\<close>

text \<open>
  A response frame carries the code in a 16-bit field: the server narrows the enumerator
  (\<open>session.cc:142\<close>) and the client widens the field back (\<open>channel.cc:269\<close>).
\<close>

definition code_to_wire :: "StatusCode \<Rightarrow> u16" where
  "code_to_wire c = ucast (code_value c)"

definition code_of_wire :: "u16 \<Rightarrow> StatusCode" where
  "code_of_wire w = StatusCode (ucast w)"

lemma code_to_wire_of_wire [simp]: "code_to_wire (code_of_wire w) = w"
  by (rule bit_word_eqI) (simp add: code_to_wire_def code_of_wire_def bit_simps)

lemma code_of_wire_to_wire:
  "uint (code_value c) < 2 ^ 16 \<Longrightarrow> code_of_wire (code_to_wire c) = c"
  by (cases c)
    (simp add: code_to_wire_def code_of_wire_def word_uint_eq_iff unsigned_ucast_eq unsigned_take_bit_eq
      take_bit_int_eq_self)

text \<open>A code beyond 16 bits can arrive as \<open>OK\<close>.\<close>

lemma code_wire_wraps: "StatusCode 65536 \<noteq> OK \<and> code_of_wire (code_to_wire (StatusCode 65536)) = OK"
  by (simp add: OK_def code_to_wire_def code_of_wire_def)

end
