(* ===== verification/Completion_Queue.thy ===== *)
theory Completion_Queue
  imports Mpsc_Queue Status
begin

text \<open>
  The \<open>Completion\<close> objects of \<open>src/channel.cc\<close> and the queue \<open>cb_queue\<close> they wait in under manual
  dispatch. A completion is allocated with \<open>new\<close>, pushed through the intrusive queue of
  \<open>Mpsc_Queue\<close>, popped by the owner and deleted. The interface \<open>fifo_queue\<close> says what the channel
  relies on; the intrusive queue over the heap of completions interprets it.
\<close>

subsection \<open>Completions\<close>

text \<open>
  A \<open>std::function\<close> is opaque: an identity, or empty (\<open>None\<close>). A callback is the user's or the
  one that fulfils a promise of the library. A deferred thunk calls a connect callback with a
  status or the push handler with a message.
\<close>

datatype callback = User nat | Promise nat

datatype thunk =
    CallConnect callback Status
  | CallPush u32 bytes

datatype completion_kind = Response | Deferred

record Completion =
  kind :: completion_kind
  resp_cb :: "callback option"
  status :: Status
  payload :: bytes
  thunk :: "thunk option"

definition Completion_default :: Completion where
  "Completion_default =
     \<lparr>kind = Deferred, resp_cb = None, status = Status_default, payload = [], thunk = None\<rparr>"

subsection \<open>The interface of a queue\<close>

text \<open>
  What a client of the queue relies on: \<open>items\<close> is the abstract contents, \<open>push\<close> appends and
  \<open>pop\<close> takes the first item.
\<close>

locale fifo_queue =
  fixes wf :: "'q \<Rightarrow> bool"
    and items :: "'q \<Rightarrow> 'a list"
    and empty :: 'q
    and push :: "'a \<Rightarrow> 'q \<Rightarrow> 'q"
    and pop :: "'q \<Rightarrow> 'a option \<times> 'q"
  assumes wf_empty: "wf empty"
    and items_empty: "items empty = []"
    and wf_push: "wf q \<Longrightarrow> wf (push x q)"
    and items_push: "wf q \<Longrightarrow> items (push x q) = items q @ [x]"
    and wf_pop: "wf q \<Longrightarrow> wf (snd (pop q))"
    and fst_pop: "wf q \<Longrightarrow> fst (pop q) = (case items q of [] \<Rightarrow> None | x # _ \<Rightarrow> Some x)"
    and items_pop: "wf q \<Longrightarrow> items (snd (pop q)) = tl (items q)"
begin

lemma wf_fold_push: "wf q \<Longrightarrow> wf (fold push xs q)"
  by (induction xs arbitrary: q) (auto intro: wf_push)

lemma items_fold_push: "wf q \<Longrightarrow> items (fold push xs q) = items q @ xs"
  by (induction xs arbitrary: q) (simp_all add: items_push wf_push)

lemma pop_None: "wf q \<Longrightarrow> pop q = (None, q') \<Longrightarrow> items q = [] \<and> items q' = []"
  using fst_pop [of q] items_pop [of q] by (auto split: list.splits)

lemma pop_Some: "wf q \<Longrightarrow> pop q = (Some x, q') \<Longrightarrow> wf q' \<and> items q = x # items q'"
  using fst_pop [of q] items_pop [of q] wf_pop [of q] by (auto split: list.splits)

lemma pop_push_empty: "wf q \<Longrightarrow> items q = [] \<Longrightarrow> fst (pop (push x q)) = Some x"
  by (simp add: fst_pop wf_push items_push)

end

subsection \<open>The queue of completions\<close>

record comp_queue =
  mpsc_q :: "nat mpsc"
  heap :: "nat \<Rightarrow> Completion option"
  next_addr :: nat

definition cq_new :: comp_queue where
  "cq_new = \<lparr>mpsc_q = MpscQueue (\<lambda>_. None), heap = (\<lambda>_. None), next_addr = 0\<rparr>"

text \<open>\<open>auto* c = new Completion(); ... cb_queue.push(c)\<close>\<close>

definition cq_push :: "Completion \<Rightarrow> comp_queue \<Rightarrow> comp_queue" where
  "cq_push c q =
     (let a = next_addr q
      in q\<lparr>mpsc_q := push (Node a) (mpsc_q q), heap := (heap q)(a \<mapsto> c), next_addr := Suc a\<rparr>)"

text \<open>\<open>Completion* c = cb_queue.pop(); ... delete c\<close>: the completion that was read, and the heap
  without it.\<close>

definition cq_pop :: "comp_queue \<Rightarrow> Completion option \<times> comp_queue" where
  "cq_pop q =
     (case pop (mpsc_q q) of
        (Some (Node a), mq) \<Rightarrow> (heap q a, q\<lparr>mpsc_q := mq, heap := (heap q)(a := None)\<rparr>)
      | (_, mq) \<Rightarrow> (None, q\<lparr>mpsc_q := mq\<rparr>))"

text \<open>\<open>while (Completion* c = cb_queue.pop()) delete c;\<close>: the deleted completions in order.\<close>

partial_function (option) cq_drain :: "comp_queue \<Rightarrow> (Completion list \<times> comp_queue) option" where
  "cq_drain q =
     (case cq_pop q of
        (None, q') \<Rightarrow> Some ([], q')
      | (Some c, q') \<Rightarrow>
          Option.bind (cq_drain q') (\<lambda>(cs, q''). Some (c # cs, q'')))"

text \<open>The queue holds the completions \<open>cs\<close>: the addresses in the queue hold them, in order.\<close>

definition cq_rep :: "comp_queue \<Rightarrow> Completion list \<Rightarrow> bool" where
  "cq_rep q cs \<longleftrightarrow>
     (\<exists>as. holds (mpsc_q q) as \<and> distinct as \<and> map (heap q) as = map Some cs \<and>
           (\<forall>a \<in> set as. a < next_addr q))"

definition cq_wf :: "comp_queue \<Rightarrow> bool" where
  "cq_wf q \<longleftrightarrow> (\<exists>cs. cq_rep q cs)"

definition cq_items :: "comp_queue \<Rightarrow> Completion list" where
  "cq_items q = (case cq_drain q of Some (cs, _) \<Rightarrow> cs | None \<Rightarrow> [])"

lemma cq_rep_new: "cq_rep cq_new []"
  by (auto simp: cq_rep_def cq_new_def holds_init)

lemma cq_rep_push: "cq_rep q cs \<Longrightarrow> cq_rep (cq_push c q) (cs @ [c])"
proof -
  assume "cq_rep q cs"
  then obtain as where as: "holds (mpsc_q q) as" "distinct as" "map (heap q) as = map Some cs"
    "\<forall>a \<in> set as. a < next_addr q"
    by (auto simp: cq_rep_def)
  then have fresh: "next_addr q \<notin> set as" by auto
  have "map ((heap q)(next_addr q \<mapsto> c)) as = map (heap q) as"
    using fresh by (intro map_cong) auto
  with as fresh show ?thesis
    unfolding cq_rep_def
    by (intro exI [of _ "as @ [next_addr q]"]) (auto simp: cq_push_def Let_def holds_push less_Suc_eq)
qed

lemma cq_rep_pop_Cons:
  assumes "cq_rep q (c # cs)"
  shows "\<exists>q'. cq_pop q = (Some c, q') \<and> cq_rep q' cs"
proof -
  from assms obtain a as where as: "holds (mpsc_q q) (a # as)" "distinct (a # as)" "heap q a = Some c"
    "map (heap q) as = map Some cs" "\<forall>b \<in> set (a # as). b < next_addr q"
    by (auto simp: cq_rep_def Cons_eq_map_conv map_eq_Cons_conv)
  then obtain mq where mq: "pop (mpsc_q q) = (Some (Node a), mq)" "holds mq as"
    using holds_pop_Cons [OF as(1)] by blast
  have "map ((heap q)(a := None)) as = map (heap q) as"
    using as by (intro map_cong) auto
  with as mq show ?thesis by (auto simp: cq_pop_def cq_rep_def)
qed

lemma cq_rep_pop_Nil: "cq_rep q [] \<Longrightarrow> cq_pop q = (None, q)"
  by (auto simp: cq_rep_def cq_pop_def dest: holds_pop_Nil)

text \<open>The drain loop ends and deletes every queued completion, oldest first.\<close>

lemma cq_drain_rep: "cq_rep q cs \<Longrightarrow> \<exists>q'. cq_drain q = Some (cs, q') \<and> cq_rep q' []"
proof (induction cs arbitrary: q)
  case Nil
  then show ?case by (subst cq_drain.simps) (simp add: cq_rep_pop_Nil)
next
  case (Cons c cs)
  then obtain q' where q': "cq_pop q = (Some c, q')" "cq_rep q' cs"
    using cq_rep_pop_Cons [OF Cons.prems] by blast
  from Cons.IH [OF q'(2)] obtain q'' where "cq_drain q' = Some (cs, q'')" "cq_rep q'' []" by blast
  with q' show ?case by (subst cq_drain.simps) simp
qed

lemma cq_items_rep: "cq_rep q cs \<Longrightarrow> cq_items q = cs"
  by (auto simp: cq_items_def dest: cq_drain_rep)

lemma cq_wf_rep: "cq_wf q \<Longrightarrow> cq_rep q (cq_items q)"
  using cq_items_rep [of q] unfolding cq_wf_def by blast

lemma cq_drain_wf:
  assumes "cq_wf q"
  shows "\<exists>q'. cq_drain q = Some (cq_items q, q') \<and> cq_wf q' \<and> cq_items q' = []"
proof -
  from cq_drain_rep [OF cq_wf_rep [OF assms]] obtain q'
    where "cq_drain q = Some (cq_items q, q')" and q': "cq_rep q' []" by blast
  then show ?thesis using cq_items_rep [OF q'] unfolding cq_wf_def by blast
qed

lemma cq_pop_wf:
  assumes "cq_wf q"
  shows "\<exists>q'. cq_pop q = (case cq_items q of [] \<Rightarrow> None | x # _ \<Rightarrow> Some x, q') \<and> cq_rep q' (tl (cq_items q))"
proof (cases "cq_items q")
  case Nil
  with cq_wf_rep [OF assms] have "cq_rep q []" by simp
  with Nil cq_rep_pop_Nil [of q] show ?thesis by simp
next
  case (Cons x xs)
  with cq_wf_rep [OF assms] have "cq_rep q (x # xs)" by simp
  from cq_rep_pop_Cons [OF this] Cons show ?thesis by simp
qed

interpretation cq: fifo_queue cq_wf cq_items cq_new cq_push cq_pop
proof unfold_locales
  show "cq_wf cq_new" "cq_items cq_new = []"
    using cq_rep_new by (auto simp: cq_wf_def dest: cq_items_rep)
next
  fix q x assume "cq_wf q"
  from cq_rep_push [OF cq_wf_rep [OF this]]
  show "cq_wf (cq_push x q)" "cq_items (cq_push x q) = cq_items q @ [x]"
    by (auto simp: cq_wf_def dest: cq_items_rep)
next
  fix q assume "cq_wf q"
  from cq_pop_wf [OF this] obtain q' where
    "cq_pop q = (case cq_items q of [] \<Rightarrow> None | x # _ \<Rightarrow> Some x, q')" and q': "cq_rep q' (tl (cq_items q))"
    by blast
  then show "cq_wf (snd (cq_pop q))"
    "fst (cq_pop q) = (case cq_items q of [] \<Rightarrow> None | x # _ \<Rightarrow> Some x)"
    "cq_items (snd (cq_pop q)) = tl (cq_items q)"
    using cq_items_rep [OF q'] by (auto simp: cq_wf_def)
qed

text \<open>
  The queue of completions is first in, first out: pushing any list of completions on a
  well-formed queue and draining it deletes the old contents followed by the list, in order, and
  leaves the queue empty.
\<close>

theorem cq_push_drain:
  assumes "cq_wf q"
  shows "\<exists>q'. cq_drain (fold cq_push cs q) = Some (cq_items q @ cs, q') \<and> fst (cq_pop q') = None"
proof -
  have "cq_wf (fold cq_push cs q)" using assms by (rule cq.wf_fold_push)
  from cq_drain_wf [OF this] show ?thesis
    using assms by (auto simp: cq.items_fold_push cq.fst_pop)
qed

theorem cq_push_drain_witness:
  "cq_wf cq_new \<and>
   (\<exists>q'. cq_drain (fold cq_push [Completion_default, Completion_default\<lparr>kind := Response\<rparr>] cq_new) =
      Some ([Completion_default, Completion_default\<lparr>kind := Response\<rparr>], q'))"
  using cq_push_drain [OF cq.wf_empty, of "[Completion_default, Completion_default\<lparr>kind := Response\<rparr>]"]
  by (auto simp: cq.wf_empty cq.items_empty)

end
