(* ===== verification/Frame.thy ===== *)
theory Frame
  imports Status
begin

text \<open>
  \<open>src/frame.h\<close>: the 16-byte frame header and its big-endian encoding.

  The C++ code writes into and reads from a caller's buffer; the model passes the buffer as
  a byte list and updates it by index. \<open>FrameType\<close> is an \<open>enum class : uint8_t\<close>: every byte is
  a value of it, and \<open>Deserialize\<close> casts the first byte of the buffer without a check, so the
  model keeps the byte.
\<close>

subsection \<open>Data\<close>

datatype FrameType = FrameType (type_byte: byte)

definition kRequest :: FrameType where "kRequest = FrameType 1"
definition kResponse :: FrameType where "kResponse = FrameType 2"
definition kPush :: FrameType where "kPush = FrameType 3"

lemma frame_types_distinct [simp]:
  "kRequest \<noteq> kResponse" "kResponse \<noteq> kRequest" "kRequest \<noteq> kPush" "kPush \<noteq> kRequest"
  "kResponse \<noteq> kPush" "kPush \<noteq> kResponse"
  by (simp_all add: kRequest_def kResponse_def kPush_def)

definition kSize :: nat where "kSize = 16"

record FrameHeader =
  frame_type :: FrameType
  status_code :: u16
  call_id :: u32
  method_id :: u32
  payload_size :: u32

text \<open>A default-constructed header: the member initialisers of the struct.\<close>

definition FrameHeader_default :: FrameHeader where
  "FrameHeader_default =
     \<lparr>frame_type = kRequest, status_code = 0, call_id = 0, method_id = 0, payload_size = 0\<rparr>"

subsection \<open>Encoding\<close>

text \<open>\<open>WriteBE32(out + off, v)\<close>.\<close>

definition WriteBE32 :: "bytes \<Rightarrow> nat \<Rightarrow> u32 \<Rightarrow> bytes" where
  "WriteBE32 out off v =
     out[off := ucast (drop_bit 24 v AND 0xFF),
         off + 1 := ucast (drop_bit 16 v AND 0xFF),
         off + 2 := ucast (drop_bit 8 v AND 0xFF),
         off + 3 := ucast (v AND 0xFF)]"

text \<open>\<open>ReadBE32(in + off)\<close>.\<close>

definition ReadBE32 :: "bytes \<Rightarrow> nat \<Rightarrow> u32" where
  "ReadBE32 inp off =
     push_bit 24 (ucast (inp ! off)) OR
     push_bit 16 (ucast (inp ! (off + 1))) OR
     push_bit 8 (ucast (inp ! (off + 2))) OR
     ucast (inp ! (off + 3))"

definition Serialize :: "FrameHeader \<Rightarrow> bytes \<Rightarrow> bytes" where
  "Serialize h out =
     (let out = out[0 := type_byte (frame_type h)];
          out = out[1 := 0];
          out = out[2 := ucast (drop_bit 8 (status_code h) AND 0xFF)];
          out = out[3 := ucast (status_code h AND 0xFF)];
          out = WriteBE32 out 4 (call_id h);
          out = WriteBE32 out 8 (method_id h)
      in WriteBE32 out 12 (payload_size h))"

text \<open>
  \<open>in[2] << 8\<close> is computed in \<open>int\<close> after the usual promotion; the cast to \<open>uint16_t\<close> keeps
  the low 16 bits.
\<close>

definition Deserialize :: "bytes \<Rightarrow> FrameHeader" where
  "Deserialize inp =
     FrameHeader_default
       \<lparr>frame_type := FrameType (inp ! 0),
        status_code := ucast (push_bit 8 (ucast (inp ! 2)) OR (ucast (inp ! 3) :: u32)),
        call_id := ReadBE32 inp 4,
        method_id := ReadBE32 inp 8,
        payload_size := ReadBE32 inp 12\<rparr>"

subsection \<open>The byte layout\<close>

lemma length_WriteBE32 [simp]: "length (WriteBE32 out off v) = length out"
  by (simp add: WriteBE32_def)

lemma length_Serialize [simp]: "length (Serialize h out) = length out"
  by (simp add: Serialize_def)

lemma Read_Write_BE32:
  "off + 3 < length out \<Longrightarrow> ReadBE32 (WriteBE32 out off v) off = v"
  by (simp add: ReadBE32_def WriteBE32_def be32_join_split)

lemma WriteBE32_frame:
  "i < off \<or> off + 3 < i \<Longrightarrow> WriteBE32 out off v ! i = out ! i"
  by (auto simp: WriteBE32_def)

lemma ReadBE32_byte:
  "ucast (drop_bit 24 (ReadBE32 inp off) AND 0xFF) = inp ! off"
  "ucast (drop_bit 16 (ReadBE32 inp off) AND 0xFF) = inp ! (off + 1)"
  "ucast (drop_bit 8 (ReadBE32 inp off) AND 0xFF) = inp ! (off + 2)"
  "ucast (ReadBE32 inp off AND 0xFF) = inp ! (off + 3)"
  unfolding ReadBE32_def by (rule be32_split_join)+

lemma Write_Read_BE32: "WriteBE32 inp off (ReadBE32 inp off) = inp"
  by (simp only: WriteBE32_def ReadBE32_byte list_update_id)

lemma ReadBE32_cong:
  "(\<And>i. off \<le> i \<Longrightarrow> i \<le> off + 3 \<Longrightarrow> a ! i = b ! i) \<Longrightarrow> ReadBE32 a off = ReadBE32 b off"
  by (simp add: ReadBE32_def)

text \<open>The sixteen bytes, whatever the buffer held before.\<close>

lemma Serialize_layout:
  assumes "length out = kSize"
  shows "Serialize h out =
    [type_byte (frame_type h), 0,
     ucast (drop_bit 8 (status_code h) AND 0xFF), ucast (status_code h AND 0xFF),
     ucast (drop_bit 24 (call_id h) AND 0xFF), ucast (drop_bit 16 (call_id h) AND 0xFF),
     ucast (drop_bit 8 (call_id h) AND 0xFF), ucast (call_id h AND 0xFF),
     ucast (drop_bit 24 (method_id h) AND 0xFF), ucast (drop_bit 16 (method_id h) AND 0xFF),
     ucast (drop_bit 8 (method_id h) AND 0xFF), ucast (method_id h AND 0xFF),
     ucast (drop_bit 24 (payload_size h) AND 0xFF), ucast (drop_bit 16 (payload_size h) AND 0xFF),
     ucast (drop_bit 8 (payload_size h) AND 0xFF), ucast (payload_size h AND 0xFF)]"
  using assms
  by (subst list_eq_nth_16 [of "Serialize h out"])
    (simp_all add: kSize_def Serialize_def WriteBE32_def Let_def)

text \<open>The wire image of a header: what any 16-byte buffer holds after \<open>Serialize\<close>.\<close>

definition header_bytes :: "FrameHeader \<Rightarrow> bytes" where
  "header_bytes h = Serialize h (replicate kSize 0)"

lemma length_header_bytes [simp]: "length (header_bytes h) = kSize"
  by (simp add: header_bytes_def)

lemma Serialize_header_bytes: "length out = kSize \<Longrightarrow> Serialize h out = header_bytes h"
  by (simp add: header_bytes_def Serialize_layout)

lemma Deserialize_header_bytes [simp]: "Deserialize (header_bytes h) = h"
  by (simp add: header_bytes_def Serialize_layout Deserialize_def ReadBE32_def
      be32_join_split be16_join_split FrameHeader_default_def)

lemma header_bytes_inject [simp]: "header_bytes g = header_bytes h \<longleftrightarrow> g = h"
  by (metis Deserialize_header_bytes)

lemma header_bytes_Deserialize:
  assumes "length inp = kSize"
  shows "header_bytes (Deserialize inp) = inp[1 := 0]"
proof -
  have "inp[1 := 0] = [inp ! 0, 0, inp ! 2, inp ! 3, inp ! 4, inp ! 5, inp ! 6, inp ! 7,
      inp ! 8, inp ! 9, inp ! 10, inp ! 11, inp ! 12, inp ! 13, inp ! 14, inp ! 15]"
    using assms by (subst list_eq_nth_16 [of "inp[1 := 0]"]) (simp_all add: kSize_def)
  then show ?thesis
    by (simp add: header_bytes_def Serialize_layout Deserialize_def ReadBE32_byte
        be16_split_join FrameHeader_default_def del: One_nat_def)
qed

subsection \<open>The codec contract\<close>

text \<open>
  What the transport relies on: headers have a fixed width, and decoding inverts encoding.
  From it, a stream of length-prefixed frames has at most one reading.
\<close>

locale header_codec =
  fixes enc :: "'h \<Rightarrow> bytes"
    and dec :: "bytes \<Rightarrow> 'h"
    and width :: nat
    and size_of :: "'h \<Rightarrow> nat"
  assumes enc_width: "length (enc h) = width"
    and dec_enc: "dec (enc h) = h"
begin

lemma enc_inject: "enc g = enc h \<longleftrightarrow> g = h"
  by (metis dec_enc)

lemma dec_stream: "dec (take width (enc h @ rest)) = h"
  by (simp add: enc_width dec_enc)

lemma frame_stream_unique:
  assumes "enc g @ p @ xs = enc h @ q @ ys"
    and "length p = size_of g" and "length q = size_of h"
  shows "g = h \<and> p = q \<and> xs = ys"
proof -
  have "enc g = enc h" and rest: "p @ xs = q @ ys"
    using assms(1) by (simp_all add: enc_width)
  then have "g = h" by (simp add: enc_inject)
  with rest assms(2,3) show ?thesis by simp
qed

lemma frames_stream_unique:
  assumes "concat (map (\<lambda>(h, p). enc h @ p) fs) = concat (map (\<lambda>(h, p). enc h @ p) gs)"
    and "\<forall>(h, p) \<in> set fs. length p = size_of h"
    and "\<forall>(h, p) \<in> set gs. length p = size_of h"
    and "width > 0"
  shows "fs = gs"
  using assms(1-3)
proof (induction fs arbitrary: gs)
  case Nil
  then show ?case using \<open>width > 0\<close> enc_width
    by (cases gs) (auto, metis length_0_conv less_irrefl)
next
  case (Cons f fs)
  obtain h p where f: "f = (h, p)" by (cases f)
  show ?case
  proof (cases gs)
    case Nil
    with Cons.prems(1) f have "enc h = []" by simp
    with \<open>width > 0\<close> enc_width [of h] show ?thesis by simp
  next
    case (Cons g gs')
    obtain k q where g: "g = (k, q)" by (cases g)
    have "h = k \<and> p = q \<and> concat (map (\<lambda>(h, p). enc h @ p) fs) = concat (map (\<lambda>(h, p). enc h @ p) gs')"
      using Cons.prems f g \<open>gs = g # gs'\<close> by (intro frame_stream_unique) auto
    moreover from this have "fs = gs'"
      using Cons.prems(2,3) \<open>gs = g # gs'\<close> by (intro Cons.IH) auto
    ultimately show ?thesis using f g \<open>gs = g # gs'\<close> by simp
  qed
qed

end

interpretation fh: header_codec header_bytes Deserialize kSize "\<lambda>h. unat (payload_size h)"
  by unfold_locales simp_all

subsection \<open>Properties\<close>

text \<open>
  C19. Decoding a header that \<open>Serialize\<close> wrote into a 16-byte buffer gives the header back,
  all five fields and for every type byte, whatever the buffer held before.
\<close>

theorem Deserialize_Serialize:
  "length out = kSize \<Longrightarrow> Deserialize (Serialize h out) = h"
  by (simp add: Serialize_header_bytes)

theorem Deserialize_Serialize_witness:
  "Deserialize (Serialize
      \<lparr>frame_type = kResponse, status_code = 0x0102, call_id = 7, method_id = 0xDEADBEEF,
       payload_size = 5\<rparr> (replicate 16 0xAA)) =
    \<lparr>frame_type = kResponse, status_code = 0x0102, call_id = 7, method_id = 0xDEADBEEF,
     payload_size = 5\<rparr>"
  by (rule Deserialize_Serialize) (simp add: kSize_def)

end
