(* ===== verification/Transport.thy ===== *)
theory Transport
  imports Frame
begin

text \<open>
  \<open>src/transport.cc\<close>: handshakes and frames over a TCP socket, once with blocking calls that
  report an \<open>error_code\<close> (\<open>SyncTransport\<close>) and once as coroutines that catch \<open>system_error\<close>
  (\<open>AsyncTransport\<close>).

  The socket belongs to Boost.Asio. It is a parameter of every definition: a record of the
  operations the code calls, over a socket state of any type. A read fills a caller's buffer
  and may fail with part of the buffer overwritten; a write sends a sequence of buffers and
  may fail part-way. A coroutine is modelled by the state change at its completion: between
  suspension and completion it holds only the reading (or only the writing) half of the
  socket.
\<close>

subsection \<open>The socket interface\<close>

text \<open>An error of Boost.System: \<open>error_code::message()\<close> and \<open>system_error::what()\<close>.\<close>

record asio_error =
  ec_message :: string
  ec_what :: string

record 's asio =
  asio_read :: "'s \<Rightarrow> bytes \<Rightarrow> asio_error option \<times> bytes \<times> 's"
  asio_write :: "'s \<Rightarrow> bytes list \<Rightarrow> asio_error option \<times> 's"
  asio_close :: "'s \<Rightarrow> 's"

text \<open>\<open>std::string::resize(n)\<close>: truncate, or append zero bytes.\<close>

definition string_resize :: "nat \<Rightarrow> bytes \<Rightarrow> bytes" where
  "string_resize n b = take n b @ replicate (n - length b) 0"

lemma length_string_resize [simp]: "length (string_resize n b) = n"
  by (simp add: string_resize_def)

subsection \<open>SyncTransport\<close>

definition Sync_WriteHandshake :: "'s asio \<Rightarrow> 's \<Rightarrow> bytes \<Rightarrow> Status \<times> 's" where
  "Sync_WriteHandshake A sock header =
     (if header = [] then (Status_default, sock)
      else case asio_write A sock [header] of
        (Some ec, sock') \<Rightarrow> (Status_make UNAVAILABLE (''handshake write: '' @ ec_message ec), sock')
      | (None, sock') \<Rightarrow> (Status_default, sock'))"

definition Sync_ReadAndVerifyHandshake :: "'s asio \<Rightarrow> 's \<Rightarrow> bytes \<Rightarrow> Status \<times> 's" where
  "Sync_ReadAndVerifyHandshake A sock expected =
     (if expected = [] then (Status_default, sock)
      else case asio_read A sock (replicate (length expected) 0) of
        (Some ec, buf, sock') \<Rightarrow> (Status_make UNAVAILABLE (''handshake read: '' @ ec_message ec), sock')
      | (None, buf, sock') \<Rightarrow>
          if buf \<noteq> expected then (Status_make FAILED_PRECONDITION ''handshake mismatch'', sock')
          else (Status_default, sock'))"

definition Sync_WriteFrame :: "'s asio \<Rightarrow> 's \<Rightarrow> FrameHeader \<Rightarrow> bytes \<Rightarrow> Status \<times> 's" where
  "Sync_WriteFrame A sock header payload =
     (let buf = Serialize header (replicate kSize 0)
      in case asio_write A sock [buf, payload] of
           (Some ec, sock') \<Rightarrow> (Status_make UNAVAILABLE (''write frame: '' @ ec_message ec), sock')
         | (None, sock') \<Rightarrow> (Status_default, sock'))"

text \<open>The out-parameters \<open>header\<close> and \<open>payload\<close> go in with the caller's values.\<close>

definition Sync_ReadFrame ::
  "'s asio \<Rightarrow> 's \<Rightarrow> FrameHeader \<Rightarrow> bytes \<Rightarrow> Status \<times> FrameHeader \<times> bytes \<times> 's" where
  "Sync_ReadFrame A sock header payload =
     (case asio_read A sock (replicate kSize 0) of
        (Some ec, buf, sock1) \<Rightarrow>
          (Status_make UNAVAILABLE (''read header: '' @ ec_message ec), header, payload, sock1)
      | (None, buf, sock1) \<Rightarrow>
          (let header = Deserialize buf
           in if payload_size header > 0 then
                (let payload = string_resize (unat (payload_size header)) payload
                 in case asio_read A sock1 payload of
                      (Some ec, payload, sock2) \<Rightarrow>
                        (Status_make UNAVAILABLE (''read payload: '' @ ec_message ec), header, payload, sock2)
                    | (None, payload, sock2) \<Rightarrow> (Status_default, header, payload, sock2))
              else (Status_default, header, [], sock1)))"

subsection \<open>AsyncTransport\<close>

definition Async_ReadHandshake :: "'s asio \<Rightarrow> 's \<Rightarrow> bytes \<Rightarrow> Status \<times> 's" where
  "Async_ReadHandshake A sock expected =
     (if expected = [] then (Status_default, sock)
      else case asio_read A sock (replicate (length expected) 0) of
        (Some e, buf, sock') \<Rightarrow> (Status_make UNAVAILABLE (''handshake read: '' @ ec_what e), sock')
      | (None, buf, sock') \<Rightarrow>
          if buf \<noteq> expected then (Status_make FAILED_PRECONDITION ''handshake mismatch'', sock')
          else (Status_default, sock'))"

definition Async_ReadHandshakeRaw ::
  "'s asio \<Rightarrow> 's \<Rightarrow> nat \<Rightarrow> bytes \<Rightarrow> Status \<times> bytes \<times> 's" where
  "Async_ReadHandshakeRaw A sock len out =
     (case asio_read A sock (string_resize len out) of
        (Some e, out, sock') \<Rightarrow> (Status_make UNAVAILABLE (''handshake read: '' @ ec_what e), out, sock')
      | (None, out, sock') \<Rightarrow> (Status_default, out, sock'))"

definition Async_WriteHandshake :: "'s asio \<Rightarrow> 's \<Rightarrow> bytes \<Rightarrow> Status \<times> 's" where
  "Async_WriteHandshake A sock header =
     (if header = [] then (Status_default, sock)
      else case asio_write A sock [header] of
        (Some e, sock') \<Rightarrow> (Status_make UNAVAILABLE (''handshake write: '' @ ec_what e), sock')
      | (None, sock') \<Rightarrow> (Status_default, sock'))"

definition Async_WriteFrame :: "'s asio \<Rightarrow> 's \<Rightarrow> FrameHeader \<Rightarrow> bytes \<Rightarrow> Status \<times> 's" where
  "Async_WriteFrame A sock header payload =
     (let hdr_buf = Serialize header (replicate kSize 0)
      in case asio_write A sock [hdr_buf, payload] of
           (Some e, sock') \<Rightarrow> (Status_make UNAVAILABLE (''write frame: '' @ ec_what e), sock')
         | (None, sock') \<Rightarrow> (Status_default, sock'))"

definition Async_ReadFrame ::
  "'s asio \<Rightarrow> 's \<Rightarrow> FrameHeader \<Rightarrow> bytes \<Rightarrow> Status \<times> FrameHeader \<times> bytes \<times> 's" where
  "Async_ReadFrame A sock header payload =
     (case asio_read A sock (replicate kSize 0) of
        (Some e, buf, sock1) \<Rightarrow>
          (Status_make UNAVAILABLE (''read frame: '' @ ec_what e), header, payload, sock1)
      | (None, buf, sock1) \<Rightarrow>
          (let header = Deserialize buf
           in if payload_size header > 0 then
                (let payload = string_resize (unat (payload_size header)) payload
                 in case asio_read A sock1 payload of
                      (Some e, payload, sock2) \<Rightarrow>
                        (Status_make UNAVAILABLE (''read frame: '' @ ec_what e), header, payload, sock2)
                    | (None, payload, sock2) \<Rightarrow> (Status_default, header, payload, sock2))
              else (Status_default, header, [], sock1)))"

subsection \<open>What the code relies on of a socket\<close>

text \<open>
  The documented behaviour of \<open>asio::read\<close> and \<open>asio::write\<close> on a stream socket, over two
  views of the socket: \<open>rx\<close>, the bytes that will still arrive before the connection ends, and
  \<open>tx\<close>, the bytes handed to the network so far. A read completes when its buffer is full and
  leaves the rest of the stream for the next read, or fails when the stream ends first. A
  write sends its buffers one after the other, or fails after a prefix of them. The two
  directions do not disturb each other.
\<close>

definition stream_socket :: "'s asio \<Rightarrow> ('s \<Rightarrow> bytes) \<Rightarrow> ('s \<Rightarrow> bytes) \<Rightarrow> bool" where
  "stream_socket A rx tx \<longleftrightarrow>
     (\<forall>s buf. length buf \<le> length (rx s) \<longrightarrow>
        (\<exists>s'. asio_read A s buf = (None, take (length buf) (rx s), s') \<and>
              rx s' = drop (length buf) (rx s) \<and> tx s' = tx s)) \<and>
     (\<forall>s buf. length (rx s) < length buf \<longrightarrow>
        (\<exists>e buf' s'. asio_read A s buf = (Some e, buf', s') \<and> length buf' = length buf \<and>
              rx s' = [] \<and> tx s' = tx s)) \<and>
     (\<forall>s bs s'. asio_write A s bs = (None, s') \<longrightarrow>
        tx s' = tx s @ concat bs \<and> rx s' = rx s) \<and>
     (\<forall>s bs e s'. asio_write A s bs = (Some e, s') \<longrightarrow>
        (\<exists>n \<le> length (concat bs). tx s' = tx s @ take n (concat bs)) \<and> rx s' = rx s)"

text \<open>A socket whose peer accepts everything that is written.\<close>

definition writable :: "'s asio \<Rightarrow> bool" where
  "writable A \<longleftrightarrow> (\<forall>s bs. fst (asio_write A s bs) = None)"

lemma stream_read_full:
  assumes "stream_socket A rx tx" and "rx s = b @ rest" and "length buf = length b"
  obtains s' where "asio_read A s buf = (None, b, s')" and "rx s' = rest" and "tx s' = tx s"
  using assms unfolding stream_socket_def by (metis append_eq_conv_conj length_append le_add1)

lemma stream_read_short:
  assumes "stream_socket A rx tx" and "length (rx s) < length buf"
  obtains e buf' s' where "asio_read A s buf = (Some e, buf', s')" and "length buf' = length buf"
    and "rx s' = []" and "tx s' = tx s"
  using assms unfolding stream_socket_def by metis

lemma stream_write_ok:
  assumes "stream_socket A rx tx" and "asio_write A s bs = (None, s')"
  shows "tx s' = tx s @ concat bs" and "rx s' = rx s"
  using assms unfolding stream_socket_def by blast+

lemma stream_write_fail:
  assumes "stream_socket A rx tx" and "asio_write A s bs = (Some e, s')"
  shows "\<exists>n \<le> length (concat bs). tx s' = tx s @ take n (concat bs)" and "rx s' = rx s"
  using assms unfolding stream_socket_def by blast+

text \<open>
  A socket on which the statements are evaluated: the bytes that will arrive, the bytes
  sent, and how many more bytes the peer accepts.
\<close>

record pipe =
  p_rx :: bytes
  p_tx :: bytes
  p_room :: nat

definition pipe_asio :: "pipe asio" where
  "pipe_asio =
     \<lparr>asio_read = (\<lambda>s buf. if length buf \<le> length (p_rx s)
         then (None, take (length buf) (p_rx s), s\<lparr>p_rx := drop (length buf) (p_rx s)\<rparr>)
         else (Some \<lparr>ec_message = ''End of file'', ec_what = ''End of file''\<rparr>,
               p_rx s @ drop (length (p_rx s)) buf, s\<lparr>p_rx := []\<rparr>)),
      asio_write = (\<lambda>s bs. if length (concat bs) \<le> p_room s
         then (None, s\<lparr>p_tx := p_tx s @ concat bs, p_room := p_room s - length (concat bs)\<rparr>)
         else (Some \<lparr>ec_message = ''Broken pipe'', ec_what = ''Broken pipe''\<rparr>,
               s\<lparr>p_tx := p_tx s @ take (p_room s) (concat bs), p_room := 0\<rparr>)),
      asio_close = (\<lambda>s. s\<lparr>p_rx := [], p_room := 0\<rparr>)\<rparr>"

lemma pipe_write_prefix: "\<not> m \<le> n \<Longrightarrow> \<exists>k \<le> m. take n xs = take k xs" for m n :: nat
  by (rule exI [of _ n]) simp

lemma pipe_stream_socket: "stream_socket pipe_asio p_rx p_tx"
  unfolding stream_socket_def pipe_asio_def by (auto split: if_splits intro: pipe_write_prefix)

subsection \<open>Frames on the wire\<close>

text \<open>
  The abstract view of a frame stream: the bytes of a frame, and the frame at the front of a
  byte stream together with what follows it. A frame is well formed when the size its header
  announces is the size of its payload.
\<close>

type_synonym frame = "FrameHeader \<times> bytes"

definition wf_frame :: "frame \<Rightarrow> bool" where
  "wf_frame f \<longleftrightarrow> unat (payload_size (fst f)) = length (snd f)"

definition frame_bytes :: "frame \<Rightarrow> bytes" where
  "frame_bytes f = header_bytes (fst f) @ snd f"

definition next_frame :: "bytes \<Rightarrow> (frame \<times> bytes) option" where
  "next_frame bs =
     (if length bs < kSize then None
      else let h = Deserialize (take kSize bs); n = unat (payload_size h); body = drop kSize bs
           in if length body < n then None else Some ((h, take n body), drop n body))"

lemma next_frame_bytes [simp]:
  "wf_frame f \<Longrightarrow> next_frame (frame_bytes f @ rest) = Some (f, rest)"
  by (cases f) (simp add: next_frame_def frame_bytes_def wf_frame_def)

lemma next_frame_Nil [simp]: "next_frame [] = None"
  by (simp add: next_frame_def kSize_def)

lemma next_frame_shorter: "next_frame bs = Some (f, rest) \<Longrightarrow> length rest < length bs"
  by (auto simp: next_frame_def kSize_def Let_def split: if_splits)

lemma next_frame_wf: "next_frame bs = Some (f, rest) \<Longrightarrow> wf_frame f"
  by (auto simp: next_frame_def wf_frame_def Let_def split: if_splits)

text \<open>All the complete frames of a stream, in order.\<close>

function all_frames :: "bytes \<Rightarrow> frame list" where
  "all_frames bs = (case next_frame bs of None \<Rightarrow> [] | Some (f, rest) \<Rightarrow> f # all_frames rest)"
  by pat_completeness auto
termination
  by (relation "measure length") (auto dest: next_frame_shorter)

declare all_frames.simps [simp del]

lemma all_frames_Nil [simp]: "all_frames [] = []"
  by (simp add: all_frames.simps)

lemma all_frames_Cons [simp]:
  "wf_frame f \<Longrightarrow> all_frames (frame_bytes f @ rest) = f # all_frames rest"
  by (simp add: all_frames.simps [of "frame_bytes f @ rest"])

lemma all_frames_concat:
  "\<forall>f \<in> set fs. wf_frame f \<Longrightarrow> all_frames (concat (map frame_bytes fs)) = fs"
  by (induction fs) auto

subsection \<open>The transport contract\<close>

text \<open>
  What the channel and the session rely on: writing a frame appends its bytes to the stream,
  a failed write reports \<open>UNAVAILABLE\<close>, and reading a frame is taking the next frame off the
  stream. Both transports of \<open>transport.cc\<close> keep it.
\<close>

locale frame_transport =
  fixes write_frame :: "'s asio \<Rightarrow> 's \<Rightarrow> FrameHeader \<Rightarrow> bytes \<Rightarrow> Status \<times> 's"
    and read_frame :: "'s asio \<Rightarrow> 's \<Rightarrow> FrameHeader \<Rightarrow> bytes \<Rightarrow> Status \<times> FrameHeader \<times> bytes \<times> 's"
  assumes write_ok:
      "stream_socket A rx tx \<Longrightarrow> write_frame A s h p = (st, s') \<Longrightarrow> ok st \<Longrightarrow>
       tx s' = tx s @ frame_bytes (h, p) \<and> rx s' = rx s"
    and write_fail:
      "write_frame A s h p = (st, s') \<Longrightarrow> \<not> ok st \<Longrightarrow> error_code st = UNAVAILABLE"
    and write_writable:
      "writable A \<Longrightarrow> ok (fst (write_frame A s h p))"
    and read_some:
      "stream_socket A rx tx \<Longrightarrow> next_frame (rx s) = Some ((h, p), rest) \<Longrightarrow>
       \<exists>s'. read_frame A s h0 p0 = (Status_default, h, p, s') \<and> rx s' = rest \<and> tx s' = tx s"
    and read_none:
      "stream_socket A rx tx \<Longrightarrow> next_frame (rx s) = None \<Longrightarrow>
       \<exists>st h p s'. read_frame A s h0 p0 = (st, h, p, s') \<and> error_code st = UNAVAILABLE \<and>
         rx s' = [] \<and> tx s' = tx s"
begin

lemma read_ok_iff:
  assumes "stream_socket A rx tx" and "read_frame A s h0 p0 = (st, h, p, s')"
  shows "ok st \<longleftrightarrow> next_frame (rx s) = Some ((h, p), rx s')"
proof (cases "next_frame (rx s)")
  case None
  with read_none [OF assms(1) None, of h0 p0] assms(2) show ?thesis
    by (auto simp: ok_iff_code)
next
  case (Some r)
  obtain g q rest where r: "r = ((g, q), rest)" by (metis surj_pair)
  with read_some [OF assms(1), of s g q rest h0 p0] Some assms(2) show ?thesis by auto
qed

lemma read_shrinks:
  assumes "stream_socket A rx tx" and "read_frame A s h0 p0 = (st, h, p, s')" and "ok st"
  shows "length (rx s') < length (rx s)"
  using read_ok_iff [OF assms(1,2)] assms(3) next_frame_shorter by blast

lemma read_tx:
  assumes "stream_socket A rx tx" and "read_frame A s h0 p0 = (st, h, p, s')"
  shows "tx s' = tx s"
proof (cases "next_frame (rx s)")
  case None
  from read_none [OF assms(1) this, of h0 p0] assms(2) show ?thesis by auto
next
  case (Some r)
  obtain g q rest where r: "r = ((g, q), rest)" by (metis surj_pair)
  with read_some [OF assms(1), of s g q rest h0 p0] Some assms(2) show ?thesis by auto
qed

lemma write_then_read:
  assumes "stream_socket A rx tx" and "stream_socket B rx' tx'"
    and "write_frame A s h p = (st, s')" and "ok st" and "tx s = []" and "rx' r = tx s'"
    and "wf_frame (h, p)"
  shows "\<exists>r'. read_frame B r h0 p0 = (Status_default, h, p, r') \<and> rx' r' = []"
proof -
  have "rx' r = frame_bytes (h, p) @ []"
    using write_ok [OF assms(1,3,4)] assms(5,6) by simp
  then have "next_frame (rx' r) = Some ((h, p), [])"
    using next_frame_bytes [OF assms(7), of "[]"] by simp
  from read_some [OF assms(2) this] show ?thesis by blast
qed

end

lemma next_frame_SomeE:
  assumes "next_frame bs = Some ((h, p), rest)"
  obtains hb where "bs = hb @ p @ rest" and "length hb = kSize" and "Deserialize hb = h"
    and "length p = unat (payload_size h)"
proof
  show "bs = take kSize bs @ p @ rest" and "length (take kSize bs) = kSize"
    and "Deserialize (take kSize bs) = h" and "length p = unat (payload_size h)"
    using assms by (auto simp: next_frame_def Let_def simp flip: drop_drop split: if_splits)
qed

lemma Async_ReadFrame_some:
  assumes A: "stream_socket A rx tx" and "next_frame (rx s) = Some ((h, p), rest)"
  shows "\<exists>s'. Async_ReadFrame A s h0 p0 = (Status_default, h, p, s') \<and> rx s' = rest \<and> tx s' = tx s"
proof -
  from assms(2) obtain hb where rx: "rx s = hb @ p @ rest" and hb: "length hb = kSize" "Deserialize hb = h"
    and p: "length p = unat (payload_size h)" by (rule next_frame_SomeE)
  obtain s1 where s1: "asio_read A s (replicate kSize 0) = (None, hb, s1)"
    and r1: "rx s1 = p @ rest" and t1: "tx s1 = tx s"
    by (rule stream_read_full [OF A rx, of "replicate kSize 0"]) (simp_all add: hb)
  show ?thesis
  proof (cases "payload_size h > 0")
    case True
    obtain s2 where "asio_read A s1 (string_resize (unat (payload_size h)) p0) = (None, p, s2)"
      and "rx s2 = rest" and "tx s2 = tx s1"
      by (rule stream_read_full [OF A r1, of "string_resize (unat (payload_size h)) p0"]) (simp_all add: p)
    with True s1 hb t1 show ?thesis by (simp add: Async_ReadFrame_def Let_def)
  next
    case False
    then have "payload_size h = 0" by (metis word_neq_0_conv)
    with p s1 r1 t1 hb show ?thesis by (simp add: Async_ReadFrame_def Let_def)
  qed
qed

lemma Async_ReadFrame_none:
  assumes A: "stream_socket A rx tx" and "next_frame (rx s) = None"
  shows "\<exists>st h p s'. Async_ReadFrame A s h0 p0 = (st, h, p, s') \<and> error_code st = UNAVAILABLE \<and>
           rx s' = [] \<and> tx s' = tx s"
proof (cases "length (rx s) < kSize")
  case True
  obtain e buf' s' where "asio_read A s (replicate kSize 0) = (Some e, buf', s')"
    and "rx s' = []" and "tx s' = tx s"
    by (rule stream_read_short [OF A, of s "replicate kSize 0"]) (simp_all add: True)
  then show ?thesis by (simp add: Async_ReadFrame_def)
next
  case False
  define hb where "hb = take kSize (rx s)"
  define h where "h = Deserialize hb"
  define n where "n = unat (payload_size h)"
  have rx: "rx s = hb @ drop kSize (rx s)" and hb: "length hb = kSize"
    using False by (simp_all add: hb_def)
  have short: "length (drop kSize (rx s)) < n"
    using assms(2) False by (simp add: next_frame_def Let_def hb_def h_def n_def split: if_splits)
  obtain s1 where s1: "asio_read A s (replicate kSize 0) = (None, hb, s1)"
    and r1: "rx s1 = drop kSize (rx s)" and t1: "tx s1 = tx s"
    by (rule stream_read_full [OF A rx, of "replicate kSize 0"]) (simp_all add: hb)
  obtain e buf' s2 where "asio_read A s1 (string_resize n p0) = (Some e, buf', s2)"
    and "rx s2 = []" and "tx s2 = tx s1"
    by (rule stream_read_short [OF A, of s1 "string_resize n p0"]) (use short in \<open>simp_all add: r1\<close>)
  moreover have "payload_size h > 0"
    using short unfolding n_def by (metis not_less_zero unat_0 word_neq_0_conv)
  ultimately show ?thesis
    using s1 t1 by (simp add: Async_ReadFrame_def Let_def n_def h_def)
qed

lemma Async_WriteFrame_ok:
  assumes "stream_socket A rx tx" and "Async_WriteFrame A s h p = (st, s')" and "ok st"
  shows "tx s' = tx s @ frame_bytes (h, p) \<and> rx s' = rx s"
  using assms stream_write_ok [OF assms(1), of s "[header_bytes h, p]"]
  by (auto simp: Async_WriteFrame_def frame_bytes_def Let_def header_bytes_def
      split: prod.splits option.splits)

text \<open>
  The two transports do the same reads and writes and differ only in the text of the error
  message.
\<close>

definition same_but_message :: "Status \<Rightarrow> Status \<Rightarrow> bool" where
  "same_but_message a b \<longleftrightarrow> error_code a = error_code b \<and> (ok a \<longrightarrow> a = b)"

lemma same_but_message_refl [simp]: "same_but_message a a"
  by (simp add: same_but_message_def)

lemma same_but_message_make [simp]: "c \<noteq> OK \<Longrightarrow> same_but_message (Status_make c m) (Status_make c m')"
  by (simp add: same_but_message_def)

lemma Sync_Async_ReadFrame:
  "rel_prod same_but_message (=) (Sync_ReadFrame A s h p) (Async_ReadFrame A s h p)"
  by (auto simp: Sync_ReadFrame_def Async_ReadFrame_def Let_def split: prod.splits option.splits)

lemma Sync_Async_WriteFrame:
  "rel_prod same_but_message (=) (Sync_WriteFrame A s h p) (Async_WriteFrame A s h p)"
  by (auto simp: Sync_WriteFrame_def Async_WriteFrame_def Let_def split: prod.splits option.splits)

interpretation at: frame_transport Async_WriteFrame Async_ReadFrame
proof (unfold_locales, goal_cases)
  case (1 A rx tx s h p st s')
  then show ?case by (rule Async_WriteFrame_ok)
next
  case (2 A s h p st s')
  then show ?case by (auto simp: Async_WriteFrame_def Let_def split: prod.splits option.splits)
next
  case (3 A s h p)
  then show ?case
    by (simp add: Async_WriteFrame_def Let_def writable_def split: prod.split option.split)
       (metis fst_conv option.distinct(1))
next
  case (4 A rx tx s h p rest h0 p0)
  then show ?case by (rule Async_ReadFrame_some)
next
  case (5 A rx tx s h0 p0)
  then show ?case by (rule Async_ReadFrame_none)
qed

lemma rel_prod_sameE:
  assumes "rel_prod same_but_message (=) x (st, r)"
  obtains st' where "x = (st', r)" and "error_code st' = error_code st" and "ok st \<Longrightarrow> st' = st"
proof (cases x)
  case (Pair st' r')
  with assms have "same_but_message st' st" and "r' = r" by simp_all
  with Pair show ?thesis
    by (intro that [of st']) (auto simp: same_but_message_def ok_iff_code)
qed

interpretation sy: frame_transport Sync_WriteFrame Sync_ReadFrame
proof (unfold_locales, goal_cases)
  case (1 A rx tx s h p st s')
  obtain st' where "Async_WriteFrame A s h p = (st', s')" and "error_code st' = error_code st"
    using Sync_Async_WriteFrame [of A s h p] 1(2)
    by (cases "Async_WriteFrame A s h p") (auto simp: same_but_message_def)
  with 1 show ?case using at.write_ok [of A rx tx s h p st' s'] by (simp add: ok_iff_code)
next
  case (2 A s h p st s')
  then show ?case by (auto simp: Sync_WriteFrame_def Let_def split: prod.splits option.splits)
next
  case (3 A s h p)
  obtain st s' where a: "Async_WriteFrame A s h p = (st, s')" by (meson surj_pair)
  with at.write_writable [OF 3, of s h p] have st: "ok st" by simp
  show ?case
    by (rule rel_prod_sameE [OF Sync_Async_WriteFrame [of A s h p, unfolded a]]) (simp add: st)
next
  case (4 A rx tx s h p rest h0 p0)
  obtain s' where s': "Async_ReadFrame A s h0 p0 = (Status_default, h, p, s')"
    and "rx s' = rest" and "tx s' = tx s"
    using at.read_some [OF 4, of h0 p0] by blast
  moreover have "Sync_ReadFrame A s h0 p0 = (Status_default, h, p, s')"
    by (rule rel_prod_sameE [OF Sync_Async_ReadFrame [of A s h0 p0, unfolded s']]) simp
  ultimately show ?case by blast
next
  case (5 A rx tx s h0 p0)
  obtain st h p s' where s': "Async_ReadFrame A s h0 p0 = (st, h, p, s')"
    and st: "error_code st = UNAVAILABLE" and rest: "rx s' = []" "tx s' = tx s"
    using at.read_none [OF 5, of h0 p0] by blast
  obtain st' where "Sync_ReadFrame A s h0 p0 = (st', h, p, s')"
    and "error_code st' = UNAVAILABLE"
    by (rule rel_prod_sameE [OF Sync_Async_ReadFrame [of A s h0 p0, unfolded s'], unfolded st])
  with rest show ?case by blast
qed

subsection \<open>Handshakes\<close>

lemma Async_ReadHandshake_match:
  assumes "stream_socket A rx tx" and "rx s = expected @ rest"
  shows "\<exists>s'. Async_ReadHandshake A s expected = (Status_default, s') \<and> rx s' = rest \<and> tx s' = tx s"
proof (cases "expected = []")
  case False
  obtain s' where "asio_read A s (replicate (length expected) 0) = (None, expected, s')"
    and "rx s' = rest" and "tx s' = tx s"
    by (rule stream_read_full [OF assms, of "replicate (length expected) 0"]) simp_all
  with False show ?thesis by (simp add: Async_ReadHandshake_def)
qed (use assms(2) in \<open>simp add: Async_ReadHandshake_def\<close>)

lemma Async_ReadHandshake_mismatch:
  assumes "stream_socket A rx tx" and "rx s = other @ rest" and "length other = length expected"
    and "other \<noteq> expected"
  shows "\<exists>s'. Async_ReadHandshake A s expected =
           (Status_make FAILED_PRECONDITION ''handshake mismatch'', s') \<and> rx s' = rest \<and> tx s' = tx s"
proof -
  obtain s' where "asio_read A s (replicate (length expected) 0) = (None, other, s')"
    and "rx s' = rest" and "tx s' = tx s"
    by (rule stream_read_full [OF assms(1,2), of "replicate (length expected) 0"]) (simp_all add: assms(3))
  moreover have "expected \<noteq> []" using assms(3,4) by auto
  ultimately show ?thesis using assms(4) by (simp add: Async_ReadHandshake_def)
qed

lemma Async_ReadHandshake_short:
  assumes "stream_socket A rx tx" and "length (rx s) < length expected"
  shows "\<exists>m s'. Async_ReadHandshake A s expected = (Status_make UNAVAILABLE m, s') \<and> tx s' = tx s"
proof -
  obtain e buf' s' where "asio_read A s (replicate (length expected) 0) = (Some e, buf', s')"
    and "tx s' = tx s"
    by (rule stream_read_short [OF assms(1), of s "replicate (length expected) 0"]) (simp_all add: assms(2))
  then show ?thesis using assms(2) by (auto simp: Async_ReadHandshake_def)
qed

lemma Async_ReadHandshakeRaw_full:
  assumes "stream_socket A rx tx" and "rx s = b @ rest"
  shows "\<exists>s'. Async_ReadHandshakeRaw A s (length b) out = (Status_default, b, s') \<and>
           rx s' = rest \<and> tx s' = tx s"
proof -
  obtain s' where "asio_read A s (string_resize (length b) out) = (None, b, s')"
    and "rx s' = rest" and "tx s' = tx s"
    by (rule stream_read_full [OF assms, of "string_resize (length b) out"]) simp_all
  then show ?thesis by (simp add: Async_ReadHandshakeRaw_def)
qed

lemma Async_ReadHandshakeRaw_short:
  assumes "stream_socket A rx tx" and "length (rx s) < n"
  shows "\<exists>m buf s'. Async_ReadHandshakeRaw A s n out = (Status_make UNAVAILABLE m, buf, s') \<and>
           rx s' = [] \<and> tx s' = tx s"
proof -
  obtain e buf' s' where "asio_read A s (string_resize n out) = (Some e, buf', s')"
    and "rx s' = []" and "tx s' = tx s"
    by (rule stream_read_short [OF assms(1), of s "string_resize n out"]) (simp_all add: assms(2))
  then show ?thesis by (auto simp: Async_ReadHandshakeRaw_def)
qed

lemma Async_WriteHandshake_ok:
  assumes "stream_socket A rx tx" and "Async_WriteHandshake A s h = (st, s')" and "ok st"
  shows "tx s' = tx s @ h \<and> rx s' = rx s"
  using assms stream_write_ok [OF assms(1), of s "[h]"]
  by (auto simp: Async_WriteHandshake_def split: prod.splits option.splits if_splits)

lemma Async_WriteHandshake_rx:
  assumes "stream_socket A rx tx" and "Async_WriteHandshake A s h = (st, s')"
  shows "rx s' = rx s"
  using assms stream_write_ok [OF assms(1), of s "[h]"] stream_write_fail [OF assms(1), of s "[h]"]
  by (auto simp: Async_WriteHandshake_def split: prod.splits option.splits if_splits)

lemma Async_WriteHandshake_writable:
  "writable A \<Longrightarrow> ok (fst (Async_WriteHandshake A s h))"
  by (simp add: Async_WriteHandshake_def writable_def split: prod.split option.split)
    (metis fst_conv option.distinct(1))

subsection \<open>Properties\<close>

text \<open>
  C18. Reading a frame from a stream socket is taking the next frame off the byte stream: if
  the stream still holds a whole frame, the read succeeds with exactly its header and its
  payload and leaves the rest; if it ends before, the read fails with \<open>UNAVAILABLE\<close>. What has
  been written is not touched, and the caller's old header and payload play no role.
\<close>

theorem Async_ReadFrame_refines:
  assumes "stream_socket A rx tx"
  shows "case next_frame (rx s) of
      Some ((h, p), rest) \<Rightarrow>
        (\<exists>s'. Async_ReadFrame A s h0 p0 = (Status_default, h, p, s') \<and> rx s' = rest \<and> tx s' = tx s)
    | None \<Rightarrow>
        (\<exists>st h p s'. Async_ReadFrame A s h0 p0 = (st, h, p, s') \<and> error_code st = UNAVAILABLE \<and>
           rx s' = [] \<and> tx s' = tx s)"
  using at.read_some [OF assms, of s] at.read_none [OF assms, of s]
  by (auto split: option.split)

text \<open>A push frame with two payload bytes, followed by three bytes of the next frame.\<close>

theorem Async_ReadFrame_refines_witness:
  "\<exists>s'. Async_ReadFrame pipe_asio
       \<lparr>p_rx = [3, 0, 0, 0, 0, 0, 0, 0, 0, 0, 1, 2, 0, 0, 0, 2, 0xAB, 0xCD, 1, 0, 0],
        p_tx = [9], p_room = 0\<rparr> FrameHeader_default [] =
      (Status_default,
       \<lparr>frame_type = kPush, status_code = 0, call_id = 0, method_id = 0x102, payload_size = 2\<rparr>,
       [0xAB, 0xCD], s') \<and> p_rx s' = [1, 0, 0] \<and> p_tx s' = [9]"
proof -
  let ?b = "[3, 0, 0, 0, 0, 0, 0, 0, 0, 0, 1, 2, 0, 0, 0, 2, 0xAB, 0xCD, 1, 0, 0] :: bytes"
  have "next_frame ?b =
      Some ((\<lparr>frame_type = kPush, status_code = 0, call_id = 0, method_id = 0x102, payload_size = 2\<rparr>,
             [0xAB, 0xCD]), [1, 0, 0])"
    by (simp add: next_frame_def Deserialize_def ReadBE32_def kSize_def kPush_def
        FrameHeader_default_def Let_def)
  with Async_ReadFrame_refines [OF pipe_stream_socket, of "\<lparr>p_rx = ?b, p_tx = [9], p_room = 0\<rparr>" FrameHeader_default "[]"]
  show ?thesis by simp
qed

text \<open>
  The blocking transport and the coroutine transport agree: on every socket, whatever its
  behaviour, the frame and handshake operations of the two leave the same socket, return the
  same header and payload, and the same status up to the text of an error message.
\<close>

theorem Sync_Async_agree:
  "rel_prod same_but_message (=) (Sync_ReadFrame A s h p) (Async_ReadFrame A s h p) \<and>
   rel_prod same_but_message (=) (Sync_WriteFrame A s h p) (Async_WriteFrame A s h p) \<and>
   rel_prod same_but_message (=) (Sync_WriteHandshake A s b) (Async_WriteHandshake A s b) \<and>
   rel_prod same_but_message (=) (Sync_ReadAndVerifyHandshake A s b) (Async_ReadHandshake A s b)"
  by (intro conjI Sync_Async_ReadFrame Sync_Async_WriteFrame)
    (auto simp: Sync_WriteHandshake_def Async_WriteHandshake_def Sync_ReadAndVerifyHandshake_def
      Async_ReadHandshake_def split: prod.splits option.splits)

subsection \<open>Closed sockets\<close>

text \<open>
  The documented behaviour of a socket after \<open>close\<close>: it stays closed, and a read into a buffer that is
  not empty fails.
\<close>

definition closed_socket :: "'s asio \<Rightarrow> ('s \<Rightarrow> bool) \<Rightarrow> bool" where
  "closed_socket A closed \<longleftrightarrow>
     (\<forall>s. closed (asio_close A s)) \<and>
     (\<forall>s buf. closed s \<and> buf \<noteq> [] \<longrightarrow> fst (asio_read A s buf) \<noteq> None) \<and>
     (\<forall>s buf. closed s \<longrightarrow> closed (snd (snd (asio_read A s buf)))) \<and>
     (\<forall>s bs. closed s \<longrightarrow> closed (snd (asio_write A s bs)))"

lemma pipe_closed_socket: "closed_socket pipe_asio (\<lambda>s. p_rx s = [])"
  by (simp add: closed_socket_def pipe_asio_def)

lemma closed_socketD:
  assumes "closed_socket A closed" and "closed sock"
  shows "closed (snd (asio_write A sock bs))" and "closed (snd (snd (asio_read A sock buf)))"
    and "buf \<noteq> [] \<Longrightarrow> fst (asio_read A sock buf) \<noteq> None"
  using assms by (simp_all add: closed_socket_def)

lemma closed_ReadFrame:
  assumes "closed_socket A closed" and "closed sock"
  shows "\<not> ok (fst (Async_ReadFrame A sock h p))"
    and "closed (snd (snd (snd (Async_ReadFrame A sock h p))))"
  using closed_socketD(2,3) [OF assms, of "replicate kSize 0"]
  by (auto simp: Async_ReadFrame_def kSize_def split: prod.splits option.splits)

lemma closed_ReadHandshakeRaw:
  assumes "closed_socket A closed" and "closed sock" and "n > 0"
  shows "\<not> ok (fst (Async_ReadHandshakeRaw A sock n b))"
    and "closed (snd (snd (Async_ReadHandshakeRaw A sock n b)))"
proof -
  have "string_resize n b \<noteq> []" using assms(3) by (metis length_string_resize less_nat_zero_code list.size(3))
  with closed_socketD(2,3) [OF assms(1,2), of "string_resize n b"]
  show "\<not> ok (fst (Async_ReadHandshakeRaw A sock n b))"
    and "closed (snd (snd (Async_ReadHandshakeRaw A sock n b)))"
    by (auto simp: Async_ReadHandshakeRaw_def split: prod.splits option.splits)
qed

lemma closed_writes:
  assumes "closed_socket A closed" and "closed sock"
  shows "closed (snd (Async_WriteFrame A sock h p))" and "closed (snd (Async_WriteHandshake A sock b))"
    and "closed (snd (Async_ReadHandshake A sock b))"
  using closed_socketD(1) [OF assms, of "[Serialize h (replicate kSize 0), p]"]
    closed_socketD(1) [OF assms, of "[b]"] closed_socketD(2) [OF assms, of "replicate (length b) 0"] assms(2)
  by (auto simp: Async_WriteFrame_def Async_WriteHandshake_def Async_ReadHandshake_def Let_def
      split: prod.splits option.splits)

end
