(* ===== verification/Write_Pump.thy ===== *)
theory Write_Pump
  imports Transport "HOL-Library.Sublist"
begin

text \<open>
  The write pump, which \<open>src/channel.cc\<close> and \<open>src/session.cc\<close> both have: frames wait in a queue,
  a coroutine spawned on demand writes them one at a time, and a flag says whether it runs. The
  interface lists what the two pumps do to the queue, the flag, the coroutine and the history of
  queued and written frames; the discipline they keep is proved here once.
\<close>

text \<open>Where the coroutine is: not running, spawned, or suspended in \<open>WriteFrame\<close>.\<close>

datatype pump_pc =
    PumpNone
  | PumpStart
  | PumpWriting FrameHeader bytes

fun in_pump :: "pump_pc \<Rightarrow> frame list" where
  "in_pump (PumpWriting h p) = [(h, p)]"
| "in_pump _ = []"

text \<open>
  The flag is set exactly while the coroutine exists, no frame waits without a coroutine, and
  what was written, is being written and waits to be written is, in this order, a subsequence of
  what was queued: frames are dropped by a failed write only, never reordered or repeated.
\<close>

definition pump_ok :: "frame list \<Rightarrow> bool \<Rightarrow> pump_pc \<Rightarrow> frame list \<Rightarrow> frame list \<Rightarrow> bool" where
  "pump_ok wq active pump queued written \<longleftrightarrow>
     (active \<longleftrightarrow> pump \<noteq> PumpNone) \<and> (wq \<noteq> [] \<longrightarrow> active) \<and>
     subseq (written @ in_pump pump @ wq) queued"

lemma subseq_snoc: "subseq xs ys \<Longrightarrow> subseq (xs @ [x]) (ys @ [x])"
  by (rule list_emb_append_mono) simp_all

lemma subseq_prefixD: "subseq (xs @ zs) ys \<Longrightarrow> subseq xs ys"
  by (rule subseq_order.trans [of xs "xs @ zs"]) (auto intro: prefix_imp_subseq)

lemma pump_ok_init: "pump_ok [] False PumpNone [] []"
  by (simp add: pump_ok_def)

locale write_pump =
  fixes wq :: "'c \<Rightarrow> frame list"
    and active :: "'c \<Rightarrow> bool"
    and pump :: "'c \<Rightarrow> pump_pc"
    and queued :: "'c \<Rightarrow> frame list"
    and written :: "'c \<Rightarrow> frame list"
    and enqueue :: "FrameHeader \<Rightarrow> bytes \<Rightarrow> 'c \<Rightarrow> 'c"
    and pump_loop :: "'c \<Rightarrow> 'c"
    and wrote :: "FrameHeader \<Rightarrow> bytes \<Rightarrow> 'c \<Rightarrow> 'c"
  assumes enqueue: "wq (enqueue h p s) = wq s @ [(h, p)]" "queued (enqueue h p s) = queued s @ [(h, p)]"
      "written (enqueue h p s) = written s" "active (enqueue h p s)"
      "pump (enqueue h p s) = (if active s then pump s else PumpStart)"
    and loop_log: "queued (pump_loop s) = queued s" "written (pump_loop s) = written s"
    and loop_empty: "wq s = [] \<Longrightarrow> wq (pump_loop s) = [] \<and> \<not> active (pump_loop s) \<and> pump (pump_loop s) = PumpNone"
    and loop_next: "wq s = (h, p) # q \<Longrightarrow>
      wq (pump_loop s) = q \<and> active (pump_loop s) = active s \<and> pump (pump_loop s) = PumpWriting h p"
    and wrote: "(\<exists>u. wrote h p s = pump_loop u \<and> wq u = wq s \<and> active u = active s \<and>
         queued u = queued s \<and> written u = written s @ [(h, p)]) \<or>
       (wq (wrote h p s) = [] \<and> \<not> active (wrote h p s) \<and> pump (wrote h p s) = PumpNone \<and>
         queued (wrote h p s) = queued s \<and> written (wrote h p s) = written s)"
begin

abbreviation ok_at :: "'c \<Rightarrow> bool" where
  "ok_at s \<equiv> pump_ok (wq s) (active s) (pump s) (queued s) (written s)"

lemma ok_enqueue: "ok_at s \<Longrightarrow> ok_at (enqueue h p s)"
  using subseq_snoc [of "written s @ in_pump (pump s) @ wq s" "queued s" "(h, p)"]
  by (cases "active s") (auto simp: pump_ok_def enqueue)

lemma ok_loop:
  assumes "active s" and "subseq (written s @ wq s) (queued s)"
  shows "ok_at (pump_loop s)"
proof (cases "wq s")
  case Nil
  then show ?thesis using assms loop_empty [of s] by (simp add: pump_ok_def loop_log)
next
  case (Cons f q)
  obtain h p where "f = (h, p)" by (cases f)
  then show ?thesis using assms Cons loop_next [of s h p q] by (simp add: pump_ok_def loop_log)
qed

lemma ok_start: "ok_at s \<Longrightarrow> pump s = PumpStart \<Longrightarrow> ok_at (pump_loop s)"
  by (rule ok_loop) (auto simp: pump_ok_def)

lemma ok_wrote:
  assumes "ok_at s" and "pump s = PumpWriting h p"
  shows "ok_at (wrote h p s)"
  using wrote [of h p s]
proof
  assume "\<exists>u. wrote h p s = pump_loop u \<and> wq u = wq s \<and> active u = active s \<and>
         queued u = queued s \<and> written u = written s @ [(h, p)]"
  then obtain u where u: "wrote h p s = pump_loop u" "wq u = wq s" "active u = active s"
    "queued u = queued s" "written u = written s @ [(h, p)]" by blast
  have "ok_at (pump_loop u)"
    by (rule ok_loop) (use assms u in \<open>auto simp: pump_ok_def\<close>)
  with u show ?thesis by simp
next
  assume "wq (wrote h p s) = [] \<and> \<not> active (wrote h p s) \<and> pump (wrote h p s) = PumpNone \<and>
         queued (wrote h p s) = queued s \<and> written (wrote h p s) = written s"
  moreover have "subseq (written s) (queued s)"
    using assms by (auto simp: pump_ok_def dest: subseq_prefixD)
  ultimately show ?thesis by (simp add: pump_ok_def)
qed

end

end
