(* ===== verification/Channel.thy ===== *)
theory Channel
  imports Completion_Queue Write_Pump
begin

text \<open>
  \<open>src/channel.cc\<close> and \<open>include/protocomm/channel.h\<close>: the client side of a connection.

  The record \<open>chan\<close> is \<open>Channel::Impl\<close> followed by the parts of the runtime the code drives: the
  tasks posted on its strand, the suspended coroutines, the threads blocked in
  \<open>EnsureConnected\<close> and the state of the io thread. A coroutine is cut at its \<open>co_await\<close>s: one
  definition per stretch of code between two suspensions, which the strand runs without
  interruption. User callbacks are opaque; calling one, or destroying it without a call, is an
  event of the log. A callback that calls the channel again does so through the same
  operations with \<open>on_strand\<close> set; they only post to the strand, so such a call is a step of
  its own. Callbacks do not throw.
\<close>

subsection \<open>Configuration and state\<close>

datatype Dispatch = Inline | Manual

text \<open>Of \<open>on_push\<close> the code only asks whether it is set.\<close>

record ChannelConfig =
  handshake_header :: bytes
  dispatch :: Dispatch
  on_push :: bool

definition ChannelConfig_default :: ChannelConfig where
  "ChannelConfig_default =
     \<lparr>handshake_header = bytes_of_string ''pc1'', dispatch = Inline, on_push = False\<rparr>"

datatype ConnState = Idle | Connecting | Connected | Closed

text \<open>What the lambdas posted on the strand do.\<close>

datatype task =
    T_Connect "callback option"
  | T_Call u32 bytes "callback option"
  | T_Shutdown

text \<open>Where \<open>ConnectCoro\<close> is suspended.\<close>

datatype connect_pc =
    AwaitResolve string string
  | AwaitConnect
  | AwaitWriteHandshake
  | AwaitReadHandshake

text \<open>What a thread goes on to do when \<open>EnsureConnected\<close> returns.\<close>

datatype await =
    AwConnect
  | AwCall u32 bytes "callback option"

datatype phase = Running | Joining | Stopped

datatype event =
    Submitted callback \<comment> \<open>a call was handed to \<open>AsyncUnaryCall\<close>\<close>
  | ConnectRequested callback
  | Responded callback Status bytes \<comment> \<open>a \<open>ResponseCallback\<close> was called\<close>
  | ConnectResult callback Status \<comment> \<open>a \<open>ConnectCallback\<close> was called\<close>
  | ResponseDropped callback \<comment> \<open>destroyed without a call\<close>
  | ConnectDropped callback
  | Pushed u32 bytes \<comment> \<open>\<open>on_push\<close> was called\<close>
  | Traced string string string Status
  | Queued FrameHeader bytes \<comment> \<open>a frame entered \<open>write_queue\<close>\<close>
  | Written FrameHeader bytes \<comment> \<open>\<open>WriteFrame\<close> succeeded on it\<close>

record 's chan =
  host :: string
  port :: u16
  config :: ChannelConfig
  interceptor :: bool
  socket :: 's
  io_thread_started :: bool
  connected :: bool
  stopped :: bool
  next_call_id :: u32
  pending :: "(u32 \<times> callback option) list"
  write_queue :: "(FrameHeader \<times> bytes) list"
  write_pump_active :: bool
  conn_state :: ConnState
  connect_waiters :: "callback option list"
  cb_queue :: comp_queue
  strand :: "task list"
  connect_coro :: "connect_pc option"
  reader :: bool
  pump :: pump_pc
  waiting :: "(nat \<times> await) list"
  next_promise :: nat
  io_running :: bool
  work_guard :: bool
  phase :: phase
  events :: "event list"

text \<open>\<open>Channel::Channel\<close> over a socket that is not yet connected.\<close>

definition Channel_new :: "'s \<Rightarrow> string \<Rightarrow> u16 \<Rightarrow> ChannelConfig \<Rightarrow> 's chan" where
  "Channel_new sock h p cfg =
     \<lparr>host = h, port = p, config = cfg, interceptor = False, socket = sock,
      io_thread_started = False, connected = False, stopped = False, next_call_id = 1,
      pending = [], write_queue = [], write_pump_active = False, conn_state = Idle,
      connect_waiters = [], cb_queue = cq_new, strand = [], connect_coro = None, reader = False,
      pump = PumpNone, waiting = [], next_promise = 0, io_running = False, work_guard = True,
      phase = Running, events = []\<rparr>"

definition CreateChannel :: "'s \<Rightarrow> string \<Rightarrow> u16 \<Rightarrow> ChannelConfig \<Rightarrow> 's chan" where
  "CreateChannel sock h p cfg = Channel_new sock h p cfg"

definition log_event :: "event \<Rightarrow> 's chan \<Rightarrow> 's chan" where
  "log_event e s = s\<lparr>events := events s @ [e]\<rparr>"

definition post_strand :: "task \<Rightarrow> 's chan \<Rightarrow> 's chan" where
  "post_strand t s = s\<lparr>strand := strand s @ [t]\<rparr>"

subsection \<open>Completing callbacks\<close>

definition channel_stopped :: Status where
  "channel_stopped = Status_make UNAVAILABLE ''channel stopped''"

definition channel_shutdown :: Status where
  "channel_shutdown = Status_make CANCELLED ''channel shutdown''"

text \<open>\<open>if (cb) cb(st)\<close> for a connect callback.\<close>

definition call_connect :: "callback option \<Rightarrow> Status \<Rightarrow> 's chan \<Rightarrow> 's chan" where
  "call_connect cb st s = (case cb of None \<Rightarrow> s | Some c \<Rightarrow> log_event (ConnectResult c st) s)"

text \<open>\<open>if (cb) cb(st, payload)\<close> for a response callback.\<close>

definition call_response :: "callback option \<Rightarrow> Status \<Rightarrow> bytes \<Rightarrow> 's chan \<Rightarrow> 's chan" where
  "call_response cb st pl s =
     (case cb of None \<Rightarrow> s | Some c \<Rightarrow> log_event (Responded c st pl) s)"

fun run_thunk :: "thunk \<Rightarrow> 's chan \<Rightarrow> 's chan" where
  "run_thunk (CallConnect c st) s = call_connect (Some c) st s"
| "run_thunk (CallPush mid pl) s = log_event (Pushed mid pl) s"

definition post_response :: "callback option \<Rightarrow> Status \<Rightarrow> bytes \<Rightarrow> 's chan \<Rightarrow> 's chan" where
  "post_response cb st pl s =
     (if cb = None then s
      else if dispatch (config s) = Inline then call_response cb st pl s
      else let c = Completion_default\<lparr>kind := Response, resp_cb := cb, status := st, payload := pl\<rparr>
           in s\<lparr>cb_queue := cq_push c (cb_queue s)\<rparr>)"

definition post_deferred :: "thunk \<Rightarrow> 's chan \<Rightarrow> 's chan" where
  "post_deferred fn s =
     (if dispatch (config s) = Inline then run_thunk fn s
      else let c = Completion_default\<lparr>kind := Deferred, thunk := Some fn\<rparr>
           in s\<lparr>cb_queue := cq_push c (cb_queue s)\<rparr>)"

definition FailAllPending :: "Status \<Rightarrow> bool \<Rightarrow> 's chan \<Rightarrow> 's chan" where
  "FailAllPending st defer s =
     (let snapshot = pending s; s = s\<lparr>pending := []\<rparr>
      in fold (\<lambda>(cid, cb) s.
           if cb = None then s
           else if defer then post_response cb st [] s
           else call_response cb st [] s) snapshot s)"

subsection \<open>Connecting\<close>

definition EnsureIoThread :: "'s chan \<Rightarrow> 's chan" where
  "EnsureIoThread s =
     (if io_thread_started s then s
      else if stopped s then s
      else s\<lparr>io_running := True, io_thread_started := True\<rparr>)"

definition RequestConnect :: "callback option \<Rightarrow> 's chan \<Rightarrow> 's chan" where
  "RequestConnect cb s =
     (let s = (case cb of None \<Rightarrow> s | Some c \<Rightarrow> log_event (ConnectRequested c) s)
      in if stopped s then call_connect cb channel_stopped s
         else let s = EnsureIoThread s
              in if \<not> io_thread_started s then call_connect cb channel_stopped s
                 else post_strand (T_Connect cb) s)"

text \<open>The lambda \<open>RequestConnect\<close> posts.\<close>

definition RequestConnect_task :: "callback option \<Rightarrow> 's chan \<Rightarrow> 's chan" where
  "RequestConnect_task cb s =
     (if conn_state s = Closed \<or> stopped s then call_connect cb channel_stopped s
      else if conn_state s = Connected then call_connect cb Status_default s
      else let s = (if cb = None then s else s\<lparr>connect_waiters := connect_waiters s @ [cb]\<rparr>)
           in if conn_state s = Idle then
                s\<lparr>conn_state := Connecting,
                  connect_coro := Some (AwaitResolve (host s) (to_string (unat (port s))))\<rparr>
              else s)"

definition finish :: "Status \<Rightarrow> 's chan \<Rightarrow> 's chan" where
  "finish st s =
     (let s = (if \<not> ok st \<and> conn_state s \<noteq> Closed then s\<lparr>conn_state := Idle\<rparr> else s);
          waiters = connect_waiters s;
          s = s\<lparr>connect_waiters := []\<rparr>
      in fold (\<lambda>cb s. case cb of None \<Rightarrow> s | Some c \<Rightarrow> post_deferred (CallConnect c st) s) waiters s)"

definition StartReader :: "'s chan \<Rightarrow> 's chan" where
  "StartReader s = s\<lparr>reader := True\<rparr>"

text \<open>\<open>ConnectCoro\<close> returns through \<open>finish\<close>.\<close>

definition ConnectCoro_return :: "Status \<Rightarrow> 's chan \<Rightarrow> 's chan" where
  "ConnectCoro_return st s = finish st (s\<lparr>connect_coro := None\<rparr>)"

text \<open>After the \<open>try\<close> block.\<close>

definition ConnectCoro_established :: "'s chan \<Rightarrow> 's chan" where
  "ConnectCoro_established s =
     (if conn_state s = Closed \<or> stopped s then ConnectCoro_return channel_shutdown s
      else ConnectCoro_return Status_default
        ((StartReader (s\<lparr>conn_state := Connected\<rparr>))\<lparr>connected := True\<rparr>))"

definition connect_error :: "string \<Rightarrow> Status" where
  "connect_error msg = Status_make UNAVAILABLE (''connect: '' @ msg)"

text \<open>
  The completions of \<open>async_resolve\<close> and \<open>async_connect\<close> belong to Boost.Asio: an error message,
  or success, with the connected socket.
\<close>

definition ConnectCoro_resolved :: "string option \<Rightarrow> 's chan \<Rightarrow> 's chan" where
  "ConnectCoro_resolved err s =
     (case err of
        Some msg \<Rightarrow> ConnectCoro_return (connect_error msg) s
      | None \<Rightarrow> s\<lparr>connect_coro := Some AwaitConnect\<rparr>)"

definition ConnectCoro_connected :: "string + 's \<Rightarrow> 's chan \<Rightarrow> 's chan" where
  "ConnectCoro_connected r s =
     (case r of
        Inl msg \<Rightarrow> ConnectCoro_return (connect_error msg) s
      | Inr sock \<Rightarrow>
          (let s = s\<lparr>socket := sock\<rparr>
           in if handshake_header (config s) \<noteq> [] then s\<lparr>connect_coro := Some AwaitWriteHandshake\<rparr>
              else ConnectCoro_established s))"

definition ConnectCoro_wrote :: "'s asio \<Rightarrow> 's chan \<Rightarrow> 's chan" where
  "ConnectCoro_wrote A s =
     (let (hs, sock) = Async_WriteHandshake A (socket s) (handshake_header (config s));
          s = s\<lparr>socket := sock\<rparr>
      in if \<not> ok hs then ConnectCoro_return hs s
         else s\<lparr>connect_coro := Some AwaitReadHandshake\<rparr>)"

definition ConnectCoro_read :: "'s asio \<Rightarrow> 's chan \<Rightarrow> 's chan" where
  "ConnectCoro_read A s =
     (let (hs, sock) = Async_ReadHandshake A (socket s) (handshake_header (config s));
          s = s\<lparr>socket := sock\<rparr>
      in if \<not> ok hs then ConnectCoro_return hs s else ConnectCoro_established s)"

text \<open>
  \<open>EnsureConnected\<close> returns a status at once, or blocks on the future of a promise. The future
  is ready once the promise's callback was called. It is never broken: the local \<open>shared_ptr\<close>
  keeps the promise alive while the thread blocks, so the handler of \<open>future_error\<close> cannot run.
\<close>

definition EnsureConnected :: "bool \<Rightarrow> 's chan \<Rightarrow> (Status + nat) \<times> 's chan" where
  "EnsureConnected on_strand s =
     (if connected s then (Inl Status_default, s)
      else if on_strand then
        (Inl (Status_make FAILED_PRECONDITION
           ''synchronous connect attempted from io thread; channel not yet connected''), s)
      else if stopped s then (Inl channel_stopped, s)
      else let p = next_promise s
           in (Inr p, RequestConnect (Some (Promise p)) (s\<lparr>next_promise := Suc p\<rparr>)))"

fun connect_future :: "nat \<Rightarrow> event list \<Rightarrow> Status option" where
  "connect_future p [] = None"
| "connect_future p (ConnectResult c st # es) = (if c = Promise p then Some st else connect_future p es)"
| "connect_future p (_ # es) = connect_future p es"

definition EnsureConnected_get :: "nat \<Rightarrow> 's chan \<Rightarrow> Status option" where
  "EnsureConnected_get p s = connect_future p (events s)"

text \<open>\<open>Channel::Connect\<close>, up to its return or its suspension, and \<open>Channel::ConnectAsync\<close>.\<close>

definition Connect :: "bool \<Rightarrow> 's chan \<Rightarrow> Status option \<times> 's chan" where
  "Connect on_strand s =
     (case EnsureConnected on_strand s of
        (Inl st, s) \<Rightarrow> (Some st, s)
      | (Inr p, s) \<Rightarrow> (None, s\<lparr>waiting := waiting s @ [(p, AwConnect)]\<rparr>))"

definition ConnectAsync :: "callback option \<Rightarrow> 's chan \<Rightarrow> 's chan" where
  "ConnectAsync cb s = RequestConnect cb s"

subsection \<open>Calls\<close>

text \<open>\<open>AsyncUnaryCall\<close> after \<open>EnsureConnected\<close>.\<close>

definition AsyncUnaryCall_resume ::
  "u32 \<Rightarrow> bytes \<Rightarrow> callback option \<Rightarrow> Status \<Rightarrow> 's chan \<Rightarrow> 's chan" where
  "AsyncUnaryCall_resume mid req cb cs s =
     (if \<not> ok cs then post_response cb cs [] s else post_strand (T_Call mid req cb) s)"

definition AsyncUnaryCall :: "bool \<Rightarrow> u32 \<Rightarrow> bytes \<Rightarrow> callback option \<Rightarrow> 's chan \<Rightarrow> 's chan" where
  "AsyncUnaryCall on_strand mid req cb s =
     (let s = (case cb of None \<Rightarrow> s | Some c \<Rightarrow> log_event (Submitted c) s)
      in case EnsureConnected on_strand s of
           (Inl cs, s) \<Rightarrow> AsyncUnaryCall_resume mid req cb cs s
         | (Inr p, s) \<Rightarrow> s\<lparr>waiting := waiting s @ [(p, AwCall mid req cb)]\<rparr>)"

text \<open>A blocked thread goes on when its future is ready.\<close>

definition resume_waiting :: "nat \<times> await \<Rightarrow> Status \<Rightarrow> 's chan \<Rightarrow> 's chan" where
  "resume_waiting w st s =
     (let s = s\<lparr>waiting := remove1 w (waiting s)\<rparr>
      in case snd w of
           AwConnect \<Rightarrow> s
         | AwCall mid req cb \<Rightarrow> AsyncUnaryCall_resume mid req cb st s)"

text \<open>\<open>pending.emplace\<close> keeps the old entry of an id that is in use and destroys the new one.\<close>

definition pending_emplace :: "u32 \<Rightarrow> callback option \<Rightarrow> 's chan \<Rightarrow> 's chan" where
  "pending_emplace cid cb s =
     (if map_of (pending s) cid = None then s\<lparr>pending := pending s @ [(cid, cb)]\<rparr>
      else case cb of None \<Rightarrow> s | Some c \<Rightarrow> log_event (ResponseDropped c) s)"

text \<open>A frame enters the queue, and the pump is spawned if it does not run.\<close>

definition enqueue_frame :: "FrameHeader \<Rightarrow> bytes \<Rightarrow> 's chan \<Rightarrow> 's chan" where
  "enqueue_frame hdr pl s =
     (let s = log_event (Queued hdr pl) (s\<lparr>write_queue := write_queue s @ [(hdr, pl)]\<rparr>)
      in if \<not> write_pump_active s then s\<lparr>write_pump_active := True, pump := PumpStart\<rparr> else s)"

text \<open>The lambda \<open>AsyncUnaryCall\<close> posts.\<close>

definition AsyncUnaryCall_task :: "u32 \<Rightarrow> bytes \<Rightarrow> callback option \<Rightarrow> 's chan \<Rightarrow> 's chan" where
  "AsyncUnaryCall_task mid req cb s =
     (if stopped s then post_response cb channel_shutdown [] s
      else
        let cid = next_call_id s;
            s = s\<lparr>next_call_id := next_call_id s + 1\<rparr>;
            s = pending_emplace cid cb s;
            hdr = FrameHeader_default\<lparr>frame_type := kRequest, call_id := cid, method_id := mid,
                    payload_size := of_nat (length req)\<rparr>
        in enqueue_frame hdr req s)"

text \<open>The overload that returns a future, and \<open>UnaryCall\<close>, which waits for it.\<close>

definition AsyncUnaryCall_future :: "bool \<Rightarrow> u32 \<Rightarrow> bytes \<Rightarrow> 's chan \<Rightarrow> nat \<times> 's chan" where
  "AsyncUnaryCall_future on_strand mid req s =
     (let p = next_promise s
      in (p, AsyncUnaryCall on_strand mid req (Some (Promise p)) (s\<lparr>next_promise := Suc p\<rparr>)))"

datatype 'a future = NotReady | Broken | Ready 'a

fun response_future :: "nat \<Rightarrow> event list \<Rightarrow> (Status \<times> bytes) future" where
  "response_future p [] = NotReady"
| "response_future p (Responded c st pl # es) =
     (if c = Promise p then Ready (st, pl) else response_future p es)"
| "response_future p (ResponseDropped c # es) =
     (if c = Promise p then Broken else response_future p es)"
| "response_future p (_ # es) = response_future p es"

text \<open>
  \<open>UnaryCall\<close> after its call: blocked, an uncaught \<open>future_error\<close>, or the status with the new
  value of \<open>*response\<close>.
\<close>

definition UnaryCall_get :: "nat \<Rightarrow> bytes \<Rightarrow> 's chan \<Rightarrow> (Status \<times> bytes) future" where
  "UnaryCall_get p response s =
     (case response_future p (events s) of
        Ready (st, pl) \<Rightarrow> if \<not> ok st then Ready (st, response) else Ready (Status_default, pl)
      | r \<Rightarrow> r)"

subsection \<open>Reader and writer\<close>

text \<open>One turn of \<open>ReadLoop\<close>, at the completion of its \<open>ReadFrame\<close>.\<close>

definition ReadLoop_response :: "FrameHeader \<Rightarrow> bytes \<Rightarrow> 's chan \<Rightarrow> 's chan" where
  "ReadLoop_response hdr pl s =
     (let (cb, s) =
        (case map_of (pending s) (call_id hdr) of
           Some cb \<Rightarrow> (cb, s\<lparr>pending := filter (\<lambda>(k, _). k \<noteq> call_id hdr) (pending s)\<rparr>)
         | None \<Rightarrow> (None, s))
      in if cb = None then s
         else let code = code_of_wire (status_code hdr)
              in if code \<noteq> OK then post_response cb (Status_make code ''remote error'') [] s
                 else post_response cb Status_default pl s)"

definition ReadLoop_frame :: "FrameHeader \<Rightarrow> bytes \<Rightarrow> 's chan \<Rightarrow> 's chan" where
  "ReadLoop_frame hdr pl s =
     (if frame_type hdr = kPush then
        (if on_push (config s) then post_deferred (CallPush (method_id hdr) pl) s else s)
      else if frame_type hdr \<noteq> kResponse then
        FailAllPending (Status_make INTERNAL ''unexpected frame type'') True (s\<lparr>reader := False\<rparr>)
      else ReadLoop_response hdr pl s)"

definition ReadLoop_turn :: "'s asio \<Rightarrow> 's chan \<Rightarrow> 's chan" where
  "ReadLoop_turn A s =
     (let (rs, hdr, pl, sock) = Async_ReadFrame A (socket s) FrameHeader_default [];
          s = s\<lparr>socket := sock\<rparr>
      in if \<not> ok rs then FailAllPending rs True (s\<lparr>reader := False\<rparr>) else ReadLoop_frame hdr pl s)"

text \<open>\<open>WritePump\<close> from the loop condition to its next suspension or its end.\<close>

definition WritePump_loop :: "'s chan \<Rightarrow> 's chan" where
  "WritePump_loop s =
     (case write_queue s of
        [] \<Rightarrow> s\<lparr>write_pump_active := False, pump := PumpNone\<rparr>
      | (hdr, pl) # q \<Rightarrow> s\<lparr>write_queue := q, pump := PumpWriting hdr pl\<rparr>)"

definition WritePump_wrote :: "'s asio \<Rightarrow> FrameHeader \<Rightarrow> bytes \<Rightarrow> 's chan \<Rightarrow> 's chan" where
  "WritePump_wrote A hdr pl s =
     (let (ws, sock) = Async_WriteFrame A (socket s) hdr pl;
          s = s\<lparr>socket := sock\<rparr>
      in if \<not> ok ws then
           (FailAllPending ws True (s\<lparr>write_queue := []\<rparr>))\<lparr>write_pump_active := False, pump := PumpNone\<rparr>
         else WritePump_loop (log_event (Written hdr pl) s))"

subsection \<open>Shutdown\<close>

text \<open>The lambda \<open>Shutdown\<close> posts.\<close>

definition Shutdown_task :: "'s asio \<Rightarrow> 's chan \<Rightarrow> 's chan" where
  "Shutdown_task A s =
     (let s = s\<lparr>conn_state := Closed, socket := asio_close A (socket s)\<rparr>;
          s = FailAllPending channel_shutdown False s;
          waiters = connect_waiters s;
          s = s\<lparr>connect_waiters := []\<rparr>
      in fold (\<lambda>cb s. call_connect cb channel_shutdown s) waiters s)"

text \<open>Deleting a completion destroys the callbacks it holds.\<close>

definition deleted :: "Completion \<Rightarrow> event list" where
  "deleted c =
     (case resp_cb c of None \<Rightarrow> [] | Some cb \<Rightarrow> [ResponseDropped cb]) @
     (case thunk c of Some (CallConnect cb _) \<Rightarrow> [ConnectDropped cb] | _ \<Rightarrow> [])"

text \<open>The loop at the end of \<open>Shutdown\<close>.\<close>

definition Shutdown_end :: "'s chan \<Rightarrow> 's chan option" where
  "Shutdown_end s =
     (case cq_drain (cb_queue s) of
        None \<Rightarrow> None
      | Some (cs, q) \<Rightarrow>
          Some (s\<lparr>cb_queue := q, phase := Stopped, events := events s @ concat (map deleted cs)\<rparr>))"

text \<open>\<open>Shutdown\<close> up to \<open>io_thread.join()\<close>, or to its end if there is no io thread.\<close>

definition Shutdown :: "'s chan \<Rightarrow> 's chan option" where
  "Shutdown s =
     (if stopped s then Some s
      else
        let s = s\<lparr>stopped := True\<rparr>
        in if io_thread_started s then
             Some ((post_strand T_Shutdown s)\<lparr>work_guard := False, phase := Joining\<rparr>)
           else
             let s = FailAllPending channel_shutdown False (s\<lparr>conn_state := Closed\<rparr>);
                 lost = [ConnectDropped c. Some c \<leftarrow> connect_waiters s]
             in Shutdown_end (s\<lparr>connect_waiters := [], events := events s @ lost\<rparr>))"

subsection \<open>Manual dispatch and tracing\<close>

definition run_completion :: "Completion \<Rightarrow> 's chan \<Rightarrow> 's chan" where
  "run_completion c s =
     (if kind c = Response then call_response (resp_cb c) (status c) (payload c) s
      else case thunk c of Some fn \<Rightarrow> run_thunk fn s | None \<Rightarrow> s)"

text \<open>\<open>RunCallbacks\<close> with \<open>max - ran\<close> turns left; it returns the number of completions it ran.\<close>

fun RunCallbacks_loop :: "nat \<Rightarrow> nat \<Rightarrow> 's chan \<Rightarrow> nat \<times> 's chan" where
  "RunCallbacks_loop 0 n s = (n, s)"
| "RunCallbacks_loop (Suc left) n s =
     (case cq_pop (cb_queue s) of
        (None, q) \<Rightarrow> (n, s\<lparr>cb_queue := q\<rparr>)
      | (Some c, q) \<Rightarrow> RunCallbacks_loop left (Suc n) (run_completion c (s\<lparr>cb_queue := q\<rparr>)))"

definition RunCallbacks :: "u64 \<Rightarrow> 's chan \<Rightarrow> nat \<times> 's chan" where
  "RunCallbacks mx s = RunCallbacks_loop (unat mx) 0 s"

definition SetInterceptor :: "bool \<Rightarrow> 's chan \<Rightarrow> 's chan" where
  "SetInterceptor cb s = s\<lparr>interceptor := cb\<rparr>"

definition Tracing :: "'s chan \<Rightarrow> bool" where
  "Tracing s = interceptor s"

definition OnTrace :: "string \<Rightarrow> string \<Rightarrow> string \<Rightarrow> Status \<Rightarrow> 's chan \<Rightarrow> 's chan" where
  "OnTrace mname request_text response_text st s =
     (if interceptor s then log_event (Traced mname request_text response_text st) s else s)"

subsection \<open>Steps\<close>

fun run_task :: "'s asio \<Rightarrow> task \<Rightarrow> 's chan \<Rightarrow> 's chan" where
  "run_task A (T_Connect cb) s = RequestConnect_task cb s"
| "run_task A (T_Call mid req cb) s = AsyncUnaryCall_task mid req cb s"
| "run_task A T_Shutdown s = Shutdown_task A s"

text \<open>No work is left for the io thread.\<close>

definition io_idle :: "'s chan \<Rightarrow> bool" where
  "io_idle s \<longleftrightarrow> strand s = [] \<and> connect_coro s = None \<and> \<not> reader s \<and> pump s = PumpNone"

text \<open>
  A thread of the application may call the channel until \<open>Shutdown\<close>, which the destructor runs,
  has returned; a callback on the strand may while the io thread runs.
\<close>

definition may_call :: "bool \<Rightarrow> 's chan \<Rightarrow> bool" where
  "may_call on_strand s \<longleftrightarrow> phase s \<noteq> Stopped \<and> (on_strand \<longrightarrow> io_running s)"

text \<open>
  The interleavings: calls of the application, turns of the strand in posting order,
  completions of the suspended coroutines, the end of the io thread, and the network, which may
  change the socket in any way at any time.
\<close>

inductive chan_step :: "'s asio \<Rightarrow> 's chan \<Rightarrow> 's chan \<Rightarrow> bool" for A where
  call: "may_call b s \<Longrightarrow> chan_step A s (AsyncUnaryCall b mid req cb s)"
| call_future: "may_call b s \<Longrightarrow> chan_step A s (snd (AsyncUnaryCall_future b mid req s))"
| connect: "may_call b s \<Longrightarrow> chan_step A s (snd (Connect b s))"
| connect_async: "may_call b s \<Longrightarrow> chan_step A s (ConnectAsync cb s)"
| resume: "phase s \<noteq> Stopped \<Longrightarrow> w \<in> set (waiting s) \<Longrightarrow> EnsureConnected_get (fst w) s = Some st \<Longrightarrow>
    chan_step A s (resume_waiting w st s)"
| run_callbacks: "may_call False s \<Longrightarrow> chan_step A s (snd (RunCallbacks mx s))"
| set_interceptor: "may_call b s \<Longrightarrow> chan_step A s (SetInterceptor f s)"
| trace: "may_call b s \<Longrightarrow> chan_step A s (OnTrace m rq rs st s)"
| shutdown: "may_call False s \<Longrightarrow> Shutdown s = Some s' \<Longrightarrow> chan_step A s s'"
| task: "io_running s \<Longrightarrow> strand s = t # ts \<Longrightarrow> chan_step A s (run_task A t (s\<lparr>strand := ts\<rparr>))"
| resolved: "io_running s \<Longrightarrow> connect_coro s = Some (AwaitResolve h p) \<Longrightarrow>
    chan_step A s (ConnectCoro_resolved err s)"
| connected: "io_running s \<Longrightarrow> connect_coro s = Some AwaitConnect \<Longrightarrow>
    chan_step A s (ConnectCoro_connected r s)"
| wrote_handshake: "io_running s \<Longrightarrow> connect_coro s = Some AwaitWriteHandshake \<Longrightarrow>
    chan_step A s (ConnectCoro_wrote A s)"
| read_handshake: "io_running s \<Longrightarrow> connect_coro s = Some AwaitReadHandshake \<Longrightarrow>
    chan_step A s (ConnectCoro_read A s)"
| read: "io_running s \<Longrightarrow> reader s \<Longrightarrow> chan_step A s (ReadLoop_turn A s)"
| pump_start: "io_running s \<Longrightarrow> pump s = PumpStart \<Longrightarrow> chan_step A s (WritePump_loop s)"
| pump_wrote: "io_running s \<Longrightarrow> pump s = PumpWriting hdr pl \<Longrightarrow>
    chan_step A s (WritePump_wrote A hdr pl s)"
| io_exit: "io_running s \<Longrightarrow> \<not> work_guard s \<Longrightarrow> io_idle s \<Longrightarrow> chan_step A s (s\<lparr>io_running := False\<rparr>)"
| join: "phase s = Joining \<Longrightarrow> \<not> io_running s \<Longrightarrow> Shutdown_end s = Some s' \<Longrightarrow> chan_step A s s'"
| network: "chan_step A s (s\<lparr>socket := sock\<rparr>)"

definition chan_init :: "'s chan \<Rightarrow> bool" where
  "chan_init s \<longleftrightarrow> (\<exists>sock h p cfg. s = CreateChannel sock h p cfg)"

end
