(* ===== verification/Channel_Inv.thy ===== *)
theory Channel_Inv
  imports Channel
begin

text \<open>
  Invariants of the channel, for every interleaving and every behaviour of the network: the
  connection state machine, the life of the io thread, and the single write pump with its
  first-in first-out order of frames.
\<close>

subsection \<open>Frame lemmas\<close>

text \<open>
  Completing callbacks changes only the completion queue and the log; the loops over callbacks
  inherit that.
\<close>

lemma fold_field: "(\<And>x s. F (f x s) = F s) \<Longrightarrow> F (fold f xs s) = F s"
  by (induction xs arbitrary: s) simp_all

lemmas completing_defs = post_response_def post_deferred_def call_response_def call_connect_def
  log_event_def Let_def

lemma run_thunk_eq: "run_thunk fn s =
  (case fn of CallConnect c st \<Rightarrow> log_event (ConnectResult c st) s | CallPush mid pl \<Rightarrow> log_event (Pushed mid pl) s)"
  by (cases fn) (simp_all add: call_connect_def)

text \<open>An event that neither moves a frame nor drops a callback.\<close>

fun quiet :: "event \<Rightarrow> bool" where
  "quiet (Queued h p) = False"
| "quiet (Written h p) = False"
| "quiet (ResponseDropped c) = False"
| "quiet (ConnectDropped c) = False"
| "quiet _ = True"

definition same_core :: "'s chan \<Rightarrow> 's chan \<Rightarrow> bool" where
  "same_core s t \<longleftrightarrow>
     (\<exists>q es. t = s\<lparr>cb_queue := q, events := events s @ es\<rparr> \<and> list_all quiet es)"

lemma same_core_refl [simp]: "same_core s s"
  unfolding same_core_def by (intro exI [of _ "cb_queue s"] exI [of _ "[]"]) simp

lemma same_core_trans: "same_core s t \<Longrightarrow> same_core t u \<Longrightarrow> same_core s u"
  unfolding same_core_def by fastforce

lemma same_core_log: "quiet e \<Longrightarrow> same_core s (log_event e s)"
  unfolding same_core_def
  by (intro exI [of _ "cb_queue s"] exI [of _ "[e]"]) (simp add: log_event_def)

lemma same_core_queue: "same_core s (s\<lparr>cb_queue := q\<rparr>)"
  unfolding same_core_def by (intro exI [of _ q] exI [of _ "[]"]) simp

lemma same_core_call_connect: "same_core s (call_connect cb st s)"
  by (auto simp: call_connect_def same_core_log split: option.split)

lemma same_core_call_response: "same_core s (call_response cb st pl s)"
  by (auto simp: call_response_def same_core_log split: option.split)

lemma same_core_run_thunk: "same_core s (run_thunk fn s)"
  by (cases fn) (auto simp: same_core_call_connect same_core_log)

lemma same_core_post_response: "same_core s (post_response cb st pl s)"
  by (auto simp: post_response_def Let_def same_core_call_response same_core_queue)

lemma same_core_post_deferred: "same_core s (post_deferred fn s)"
  by (auto simp: post_deferred_def Let_def same_core_run_thunk same_core_queue)

lemma same_core_fold: "(\<And>x s. same_core s (f x s)) \<Longrightarrow> same_core s (fold f xs s)"
  by (induction xs arbitrary: s) (auto intro: same_core_trans)

lemma same_core_run_completion: "same_core s (run_completion c s)"
  by (auto simp: run_completion_def same_core_call_response same_core_run_thunk split: option.split)

lemma same_core_RunCallbacks_loop: "same_core s (snd (RunCallbacks_loop k n s))"
proof (induction k n s rule: RunCallbacks_loop.induct)
  case (2 k n s)
  have *: "same_core s (run_completion c (s\<lparr>cb_queue := q\<rparr>))" for c q
    by (rule same_core_trans [OF same_core_queue same_core_run_completion])
  from 2 show ?case
    by (auto intro: same_core_trans [OF *] same_core_queue split: prod.split option.split)
qed simp

lemma same_core_FailAllPending: "same_core (s\<lparr>pending := []\<rparr>) (FailAllPending st defer s)"
  unfolding FailAllPending_def Let_def
  by (rule same_core_fold)
    (auto simp: same_core_post_response same_core_call_response split: prod.split)

lemma same_core_finish_loop:
  "same_core s (fold (\<lambda>cb s. case cb of None \<Rightarrow> s | Some c \<Rightarrow> post_deferred (CallConnect c st) s) ws s)"
  by (rule same_core_fold) (auto simp: same_core_post_deferred split: option.split)

text \<open>What \<open>same_core\<close> gives, field by field.\<close>

lemma same_core_fields:
  assumes "same_core s t"
  shows "host t = host s" "port t = port s" "config t = config s" "interceptor t = interceptor s"
    "socket t = socket s" "io_thread_started t = io_thread_started s" "connected t = connected s"
    "stopped t = stopped s" "next_call_id t = next_call_id s" "pending t = pending s"
    "write_queue t = write_queue s" "write_pump_active t = write_pump_active s"
    "conn_state t = conn_state s" "connect_waiters t = connect_waiters s" "strand t = strand s"
    "connect_coro t = connect_coro s" "reader t = reader s" "pump t = pump s" "waiting t = waiting s"
    "next_promise t = next_promise s" "io_running t = io_running s" "work_guard t = work_guard s"
    "phase t = phase s"
  using assms by (auto simp: same_core_def)

lemmas core_fields [simp] =
  same_core_fields [OF same_core_call_connect] same_core_fields [OF same_core_call_response]
  same_core_fields [OF same_core_run_thunk] same_core_fields [OF same_core_post_response]
  same_core_fields [OF same_core_post_deferred] same_core_fields [OF same_core_run_completion]
  same_core_fields [OF same_core_finish_loop]
  same_core_fields [OF same_core_RunCallbacks_loop]

lemma FailAllPending_fields [simp]:
  "pending (FailAllPending st defer s) = []" "config (FailAllPending st defer s) = config s"
  "interceptor (FailAllPending st defer s) = interceptor s" "socket (FailAllPending st defer s) = socket s"
  "io_thread_started (FailAllPending st defer s) = io_thread_started s"
  "connected (FailAllPending st defer s) = connected s" "stopped (FailAllPending st defer s) = stopped s"
  "next_call_id (FailAllPending st defer s) = next_call_id s"
  "write_queue (FailAllPending st defer s) = write_queue s"
  "write_pump_active (FailAllPending st defer s) = write_pump_active s"
  "conn_state (FailAllPending st defer s) = conn_state s"
  "connect_waiters (FailAllPending st defer s) = connect_waiters s"
  "strand (FailAllPending st defer s) = strand s" "connect_coro (FailAllPending st defer s) = connect_coro s"
  "reader (FailAllPending st defer s) = reader s" "pump (FailAllPending st defer s) = pump s"
  "waiting (FailAllPending st defer s) = waiting s" "io_running (FailAllPending st defer s) = io_running s"
  "work_guard (FailAllPending st defer s) = work_guard s" "phase (FailAllPending st defer s) = phase s"
  using same_core_fields [OF same_core_FailAllPending [of s st "defer"]] by simp_all

subsection \<open>The connection state machine\<close>

definition coro_inv :: "'s chan \<Rightarrow> bool" where
  "coro_inv s \<longleftrightarrow>
     (connect_coro s \<noteq> None \<longrightarrow> conn_state s = Connecting \<or> conn_state s = Closed) \<and>
     (conn_state s = Connecting \<longrightarrow> connect_coro s \<noteq> None) \<and>
     (connect_waiters s \<noteq> [] \<longrightarrow> conn_state s = Connecting) \<and>
     (connected s \<longrightarrow> conn_state s = Connected \<or> conn_state s = Closed) \<and>
     (conn_state s = Connected \<longrightarrow> connected s) \<and>
     (reader s \<longrightarrow> connected s) \<and>
     (conn_state s = Closed \<longrightarrow> stopped s \<and> pending s = [])"

definition io_inv :: "'s chan \<Rightarrow> bool" where
  "io_inv s \<longleftrightarrow>
     (\<not> io_thread_started s \<longrightarrow> strand s = [] \<and> pending s = [] \<and> waiting s = [] \<and>
        \<not> connected s \<and> conn_state s \<noteq> Connecting) \<and>
     (io_running s \<longrightarrow> io_thread_started s) \<and>
     (\<not> io_running s \<longrightarrow> connect_coro s = None \<and> \<not> reader s \<and> pump s = PumpNone) \<and>
     (work_guard s \<longrightarrow> io_running s = io_thread_started s)"

definition phase_inv :: "'s chan \<Rightarrow> bool" where
  "phase_inv s \<longleftrightarrow>
     (stopped s \<longleftrightarrow> phase s \<noteq> Running) \<and>
     (\<not> stopped s \<longrightarrow> work_guard s) \<and>
     (T_Shutdown \<in> set (strand s) \<longrightarrow> stopped s) \<and>
     (phase s = Joining \<longrightarrow> io_thread_started s \<and>
        (conn_state s = Closed \<or> T_Shutdown \<in> set (strand s) \<and> io_running s)) \<and>
     (phase s = Stopped \<longrightarrow> conn_state s = Closed)"

lemma not_ok_statuses [simp]:
  "\<not> ok channel_stopped" "\<not> ok channel_shutdown" "\<not> ok (connect_error msg)"
  by (simp_all add: channel_stopped_def channel_shutdown_def connect_error_def status_code_defs)

text \<open>\<open>ReadLoop_response\<close> by the entry found in \<open>pending\<close>.\<close>

lemma ReadLoop_response_eq:
  "ReadLoop_response hdr pl s =
     (case map_of (pending s) (call_id hdr) of
        None \<Rightarrow> s
      | Some cb \<Rightarrow>
          post_response cb
            (if code_of_wire (status_code hdr) = OK then Status_default
             else Status_make (code_of_wire (status_code hdr)) ''remote error'')
            (if code_of_wire (status_code hdr) = OK then pl else [])
            (s\<lparr>pending := filter (\<lambda>(k, _). k \<noteq> call_id hdr) (pending s)\<rparr>))"
  by (auto simp: ReadLoop_response_def post_response_def Let_def split: option.split)

lemmas op_defs = AsyncUnaryCall_def AsyncUnaryCall_resume_def AsyncUnaryCall_future_def Connect_def
  ConnectAsync_def EnsureConnected_def RequestConnect_def EnsureIoThread_def post_strand_def
  log_event_def resume_waiting_def RunCallbacks_def SetInterceptor_def OnTrace_def
  RequestConnect_task_def AsyncUnaryCall_task_def pending_emplace_def enqueue_frame_def
  ConnectCoro_resolved_def ConnectCoro_connected_def ConnectCoro_wrote_def ConnectCoro_read_def
  ConnectCoro_return_def ConnectCoro_established_def StartReader_def finish_def
  ReadLoop_turn_def ReadLoop_frame_def ReadLoop_response_eq WritePump_loop_def WritePump_wrote_def
  io_idle_def may_call_def Let_def

lemmas op_splits = prod.split option.split sum.split list.split await.split

lemma Shutdown_task_fields [simp]:
  "conn_state (Shutdown_task A s) = Closed" "pending (Shutdown_task A s) = []"
  "connect_waiters (Shutdown_task A s) = []" "strand (Shutdown_task A s) = strand s"
  "config (Shutdown_task A s) = config s" "stopped (Shutdown_task A s) = stopped s"
  "phase (Shutdown_task A s) = phase s" "waiting (Shutdown_task A s) = waiting s"
  "connect_coro (Shutdown_task A s) = connect_coro s" "reader (Shutdown_task A s) = reader s"
  "pump (Shutdown_task A s) = pump s" "write_queue (Shutdown_task A s) = write_queue s"
  "write_pump_active (Shutdown_task A s) = write_pump_active s"
  "connected (Shutdown_task A s) = connected s" "io_running (Shutdown_task A s) = io_running s"
  "io_thread_started (Shutdown_task A s) = io_thread_started s"
  "work_guard (Shutdown_task A s) = work_guard s" "next_call_id (Shutdown_task A s) = next_call_id s"
  unfolding Shutdown_task_def Let_def
  by (simp_all add: same_core_fields [OF same_core_fold [OF same_core_call_connect]])

lemma Shutdown_endE:
  assumes "Shutdown_end s = Some t"
  obtains cs q where "cq_drain (cb_queue s) = Some (cs, q)"
    and "t = s\<lparr>cb_queue := q, phase := Stopped, events := events s @ concat (map deleted cs)\<rparr>"
  using assms by (auto simp: Shutdown_end_def split: option.splits)

lemma ShutdownE:
  assumes "Shutdown s = Some t"
  obtains (again) "stopped s" "t = s"
  | (started) "\<not> stopped s" "io_thread_started s"
      "t = s\<lparr>stopped := True, strand := strand s @ [T_Shutdown], work_guard := False, phase := Joining\<rparr>"
  | (unstarted) u where "\<not> stopped s" "\<not> io_thread_started s"
      "u = FailAllPending channel_shutdown False (s\<lparr>stopped := True, conn_state := Closed\<rparr>)"
      "Shutdown_end (u\<lparr>connect_waiters := [],
         events := events u @ [ConnectDropped c. Some c \<leftarrow> connect_waiters u]\<rparr>) = Some t"
  using assms by (auto simp: Shutdown_def Let_def post_strand_def split: if_splits)

lemma coro_inv_Shutdown:
  assumes "Shutdown s = Some t" and inv: "coro_inv s" "io_inv s"
  shows "coro_inv t"
  using assms(1)
proof (cases rule: ShutdownE)
  case again
  then show ?thesis using inv by simp
next
  case started
  then show ?thesis using inv by (auto simp: coro_inv_def)
next
  case (unstarted u)
  from unstarted(4) show ?thesis
    using unstarted(2) inv by (elim Shutdown_endE) (simp add: coro_inv_def io_inv_def unstarted(3))
qed

lemma phase_inv_Shutdown:
  assumes "Shutdown s = Some t" and inv: "phase_inv s" "io_inv s"
  shows "phase_inv t"
  using assms(1)
proof (cases rule: ShutdownE)
  case again
  then show ?thesis using inv by simp
next
  case started
  then show ?thesis using inv by (simp add: phase_inv_def io_inv_def)
next
  case (unstarted u)
  from unstarted(4) show ?thesis
    using unstarted(1,2) inv by (elim Shutdown_endE) (simp add: phase_inv_def io_inv_def unstarted(3))
qed

lemma coro_inv_step:
  "chan_step A s t \<Longrightarrow> coro_inv s \<Longrightarrow> io_inv s \<Longrightarrow> phase_inv s \<Longrightarrow> coro_inv t"
proof (induction rule: chan_step.induct)
  case (task s tk ts)
  have "stopped s" if "tk = T_Shutdown" using task that by (auto simp: phase_inv_def)
  with task show ?case
    by (cases tk; cases "conn_state s") (auto simp: coro_inv_def op_defs split: op_splits)
next
  case (shutdown s t)
  from shutdown(2-4) show ?case by (rule coro_inv_Shutdown)
next
  case (join s t)
  from join(3,4) show ?case by (elim Shutdown_endE) (auto simp: coro_inv_def)
qed (auto simp: coro_inv_def op_defs split: op_splits if_splits)

text \<open>The turns of the strand and of the coroutines leave the runtime as it is.\<close>

definition same_runtime :: "'s chan \<Rightarrow> 's chan \<Rightarrow> bool" where
  "same_runtime s t \<longleftrightarrow>
     io_thread_started t = io_thread_started s \<and> io_running t = io_running s \<and>
     work_guard t = work_guard s \<and> phase t = phase s \<and> stopped t = stopped s \<and>
     strand t = strand s \<and> waiting t = waiting s \<and> (conn_state s = Closed \<longrightarrow> conn_state t = Closed)"

lemma same_runtime_ops:
  "same_runtime s (ConnectCoro_resolved err s)" "same_runtime s (ConnectCoro_connected r s)"
  "same_runtime s (ConnectCoro_wrote A s)" "same_runtime s (ConnectCoro_read A s)"
  "same_runtime s (ReadLoop_turn A s)" "same_runtime s (WritePump_loop s)"
  "same_runtime s (WritePump_wrote A hdr pl s)"
  unfolding same_runtime_def by (auto simp add: op_defs split: op_splits)

lemma same_runtime_task: "same_runtime s (run_task A tk s)"
  unfolding same_runtime_def by (cases tk) (auto simp add: op_defs split: op_splits)

text \<open>The parts of the state the runtime invariants read.\<close>

lemma runtime_inv_cong [simp]:
  "io_inv (s\<lparr>events := es\<rparr>) = io_inv s" "phase_inv (s\<lparr>events := es\<rparr>) = phase_inv s"
  "io_inv (s\<lparr>cb_queue := q\<rparr>) = io_inv s" "phase_inv (s\<lparr>cb_queue := q\<rparr>) = phase_inv s"
  "io_inv (s\<lparr>next_promise := n\<rparr>) = io_inv s" "phase_inv (s\<lparr>next_promise := n\<rparr>) = phase_inv s"
  "io_inv (s\<lparr>interceptor := b\<rparr>) = io_inv s" "phase_inv (s\<lparr>interceptor := b\<rparr>) = phase_inv s"
  "io_inv (s\<lparr>socket := k\<rparr>) = io_inv s" "phase_inv (s\<lparr>socket := k\<rparr>) = phase_inv s"
  "phase_inv (s\<lparr>waiting := w\<rparr>) = phase_inv s"
  by (simp_all add: io_inv_def phase_inv_def)

lemma runtime_inv_core:
  assumes "same_core s t"
  shows "io_inv t = io_inv s" "phase_inv t = phase_inv s"
  using assms by (auto simp: same_core_def)

lemma RequestConnect_runtime:
  assumes "io_inv s" "phase_inv s" and "phase s \<noteq> Stopped"
  shows "io_inv (RequestConnect cb s)" "phase_inv (RequestConnect cb s)"
    "\<not> stopped s \<Longrightarrow> io_thread_started (RequestConnect cb s)"
  using assms
  by (auto simp: io_inv_def phase_inv_def RequestConnect_def EnsureIoThread_def post_strand_def
     log_event_def Let_def split: option.split)

lemma resume_runtime:
  assumes "io_inv s" "phase_inv s" and "io_thread_started s"
  shows "io_inv (AsyncUnaryCall_resume mid req cb cs s)" "phase_inv (AsyncUnaryCall_resume mid req cb cs s)"
proof -
  have "io_inv (post_strand (T_Call mid req cb) s)" "phase_inv (post_strand (T_Call mid req cb) s)"
    using assms by (auto simp: post_strand_def io_inv_def phase_inv_def)
  then show "io_inv (AsyncUnaryCall_resume mid req cb cs s)" "phase_inv (AsyncUnaryCall_resume mid req cb cs s)"
    using assms runtime_inv_core [OF same_core_post_response [of s cb cs "[]"]]
    by (simp_all add: AsyncUnaryCall_resume_def)
qed

lemma io_inv_waiting: "io_inv s \<Longrightarrow> io_thread_started s \<Longrightarrow> io_inv (s\<lparr>waiting := w\<rparr>)"
  by (simp add: io_inv_def)

lemma EnsureConnected_runtime:
  assumes "io_inv s" "phase_inv s" and "phase s \<noteq> Stopped" and "EnsureConnected b s = (r, t)"
  shows "io_inv t" "phase_inv t" "r = Inr p \<Longrightarrow> io_thread_started t" "r = Inl st \<Longrightarrow> t = s"
    "r = Inl st \<Longrightarrow> ok st \<Longrightarrow> io_thread_started s"
proof -
  let ?s = "s\<lparr>next_promise := Suc (next_promise s)\<rparr>"
  note rc = RequestConnect_runtime [of ?s "Some (Promise (next_promise s))"]
  show "io_inv t" "phase_inv t" "r = Inr p \<Longrightarrow> io_thread_started t" "r = Inl st \<Longrightarrow> t = s"
    using rc assms by (auto simp: EnsureConnected_def Let_def split: if_splits)
  have "connected s \<Longrightarrow> io_thread_started s" using assms(1) by (auto simp: io_inv_def)
  then show "r = Inl st \<Longrightarrow> ok st \<Longrightarrow> io_thread_started s"
    using assms(4) by (auto simp: EnsureConnected_def Let_def status_code_defs split: if_splits)
qed

lemma AsyncUnaryCall_runtime:
  assumes "io_inv s" "phase_inv s" and "phase s \<noteq> Stopped"
  shows "io_inv (AsyncUnaryCall b mid req cb s) \<and> phase_inv (AsyncUnaryCall b mid req cb s)"
proof -
  define u where "u = (case cb of None \<Rightarrow> s | Some c \<Rightarrow> log_event (Submitted c) s)"
  have u: "io_inv u" "phase_inv u" "phase u \<noteq> Stopped"
    using assms by (auto simp: u_def log_event_def split: option.split)
  obtain r t where rt: "EnsureConnected b u = (r, t)" by (cases "EnsureConnected b u") auto
  note ec = EnsureConnected_runtime [OF u rt]
  show ?thesis
  proof (cases r)
    case (Inl cs)
    have "AsyncUnaryCall b mid req cb s = AsyncUnaryCall_resume mid req cb cs u"
      using rt ec(4) Inl by (simp add: AsyncUnaryCall_def u_def [symmetric])
    moreover have "\<not> ok cs \<or> io_thread_started u" using ec(5) Inl by blast
    moreover have "io_inv (AsyncUnaryCall_resume mid req cb cs u) \<and> phase_inv (AsyncUnaryCall_resume mid req cb cs u)"
      if "\<not> ok cs"
      using that u runtime_inv_core [OF same_core_post_response [of u cb cs "[]"]]
      by (simp add: AsyncUnaryCall_resume_def)
    ultimately show ?thesis using resume_runtime [OF u(1,2)] by auto
  next
    case (Inr p)
    then show ?thesis
      using rt ec by (simp add: AsyncUnaryCall_def u_def [symmetric] io_inv_waiting)
  qed
qed

lemma Connect_runtime:
  assumes "io_inv s" "phase_inv s" and "phase s \<noteq> Stopped"
  shows "io_inv (snd (Connect b s)) \<and> phase_inv (snd (Connect b s))"
proof -
  obtain r t where rt: "EnsureConnected b s = (r, t)" by (cases "EnsureConnected b s") auto
  note ec = EnsureConnected_runtime [OF assms rt]
  show ?thesis using rt ec by (cases r) (simp_all add: Connect_def io_inv_waiting)
qed

lemma resume_waiting_runtime:
  assumes "io_inv s" "phase_inv s" and "w \<in> set (waiting s)"
  shows "io_inv (resume_waiting w st s) \<and> phase_inv (resume_waiting w st s)"
proof -
  have started: "io_thread_started s" using assms by (auto simp: io_inv_def)
  let ?s = "s\<lparr>waiting := remove1 w (waiting s)\<rparr>"
  have s: "io_inv ?s" "phase_inv ?s" "io_thread_started ?s"
    using assms started by (simp_all add: io_inv_waiting)
  show ?thesis
    using s resume_runtime [OF s] by (auto simp: resume_waiting_def Let_def split: await.split)
qed

lemma runtime_io_step:
  assumes "same_runtime s t" "io_inv s" "phase_inv s" "io_running s"
  shows "io_inv t \<and> phase_inv t"
  using assms by (auto simp: io_inv_def phase_inv_def same_runtime_def)

lemma runtime_task:
  assumes "io_inv s" "phase_inv s" "io_running s" "strand s = tk # ts"
  shows "io_inv (run_task A tk (s\<lparr>strand := ts\<rparr>)) \<and> phase_inv (run_task A tk (s\<lparr>strand := ts\<rparr>))"
proof (cases "tk = T_Shutdown")
  case True
  then show ?thesis using assms by (auto simp: io_inv_def phase_inv_def)
next
  case False
  then have "io_inv (s\<lparr>strand := ts\<rparr>)" "phase_inv (s\<lparr>strand := ts\<rparr>)"
    using assms by (auto simp: io_inv_def phase_inv_def)
  then show ?thesis by (rule runtime_io_step [OF same_runtime_task]) (simp add: assms(3))
qed

lemma runtime_inv_step:
  "chan_step A s t \<Longrightarrow> io_inv s \<Longrightarrow> phase_inv s \<Longrightarrow> io_inv t \<and> phase_inv t"
proof (induction rule: chan_step.induct)
  case (shutdown s t)
  have "io_inv t"
    using shutdown(2,3) by (elim ShutdownE Shutdown_endE) (simp_all add: io_inv_def)
  with phase_inv_Shutdown [OF shutdown(2,4,3)] show ?case by simp
next
  case (join s t)
  from join(3) show ?case
    using join by (elim Shutdown_endE) (auto simp: io_inv_def phase_inv_def)
next
  case (io_exit s)
  then show ?case by (auto simp: io_inv_def phase_inv_def io_idle_def)
qed (simp_all add: may_call_def AsyncUnaryCall_runtime AsyncUnaryCall_future_def Let_def Connect_runtime
    ConnectAsync_def RequestConnect_runtime resume_waiting_runtime runtime_task RunCallbacks_def
    runtime_inv_core [OF same_core_RunCallbacks_loop] SetInterceptor_def OnTrace_def log_event_def
    runtime_io_step [OF same_runtime_ops(1)] runtime_io_step [OF same_runtime_ops(2)]
    runtime_io_step [OF same_runtime_ops(3)] runtime_io_step [OF same_runtime_ops(4)]
    runtime_io_step [OF same_runtime_ops(5)] runtime_io_step [OF same_runtime_ops(6)]
    runtime_io_step [OF same_runtime_ops(7)])

subsection \<open>The write pump\<close>

text \<open>The frames queued and written so far, read off the log.\<close>

definition queued :: "event list \<Rightarrow> frame list" where
  "queued es = [(h, p). Queued h p \<leftarrow> es]"

definition written :: "event list \<Rightarrow> frame list" where
  "written es = [(h, p). Written h p \<leftarrow> es]"

lemma queued_simps [simp]:
  "queued [] = []" "queued (es @ fs) = queued es @ queued fs"
  "queued (Queued h p # es) = (h, p) # queued es" "queued (Written h p # es) = queued es"
  by (simp_all add: queued_def)

lemma written_simps [simp]:
  "written [] = []" "written (es @ fs) = written es @ written fs"
  "written (Written h p # es) = (h, p) # written es" "written (Queued h p # es) = written es"
  by (simp_all add: written_def)

text \<open>The callbacks destroyed so far.\<close>

fun is_drop :: "event \<Rightarrow> bool" where
  "is_drop (ResponseDropped c) = True"
| "is_drop (ConnectDropped c) = True"
| "is_drop _ = False"

lemma quiet_events: "list_all quiet es \<Longrightarrow> queued es = [] \<and> written es = [] \<and> filter is_drop es = []"
  by (induction es) (auto simp: queued_def written_def split: event.split elim: quiet.elims)

lemma drop_events: "list_all is_drop es \<Longrightarrow> queued es = [] \<and> written es = []"
  by (induction es) (auto simp: queued_def written_def split: event.split elim: is_drop.elims)

text \<open>What the pump sees of the state, with the call ids and the dropped callbacks.\<close>

definition pump_view ::
  "'s chan \<Rightarrow> frame list \<times> bool \<times> pump_pc \<times> frame list \<times> frame list \<times> u32 \<times> event list" where
  "pump_view s = (write_queue s, write_pump_active s, pump s, queued (events s), written (events s),
     next_call_id s, filter is_drop (events s))"

definition pump_inv :: "'s chan \<Rightarrow> bool" where
  "pump_inv s \<longleftrightarrow>
     pump_ok (write_queue s) (write_pump_active s) (pump s) (queued (events s)) (written (events s))"

lemma pump_inv_view: "pump_view t = pump_view s \<Longrightarrow> pump_inv s \<Longrightarrow> pump_inv t"
  by (simp add: pump_view_def pump_inv_def)

lemma pump_view_core: "same_core s t \<Longrightarrow> pump_view t = pump_view s"
  using quiet_events by (auto simp: same_core_def pump_view_def)

lemma pump_view_upd [simp]:
  "pump_view (s\<lparr>strand := a\<rparr>) = pump_view s" "pump_view (s\<lparr>waiting := b\<rparr>) = pump_view s"
  "pump_view (s\<lparr>next_promise := c\<rparr>) = pump_view s" "pump_view (s\<lparr>socket := d\<rparr>) = pump_view s"
  "pump_view (s\<lparr>conn_state := e\<rparr>) = pump_view s" "pump_view (s\<lparr>connect_coro := f\<rparr>) = pump_view s"
  "pump_view (s\<lparr>connect_waiters := g\<rparr>) = pump_view s" "pump_view (s\<lparr>reader := h\<rparr>) = pump_view s"
  "pump_view (s\<lparr>connected := b1\<rparr>) = pump_view s" "pump_view (s\<lparr>stopped := b2\<rparr>) = pump_view s"
  "pump_view (s\<lparr>phase := ph\<rparr>) = pump_view s" "pump_view (s\<lparr>work_guard := b3\<rparr>) = pump_view s"
  "pump_view (s\<lparr>io_running := b4\<rparr>) = pump_view s" "pump_view (s\<lparr>io_thread_started := b5\<rparr>) = pump_view s"
  "pump_view (s\<lparr>interceptor := b6\<rparr>) = pump_view s" "pump_view (s\<lparr>pending := p\<rparr>) = pump_view s"
  "pump_view (s\<lparr>cb_queue := q\<rparr>) = pump_view s"
  by (simp_all add: pump_view_def)

lemmas pump_view_completing [simp] =
  pump_view_core [OF same_core_call_connect] pump_view_core [OF same_core_call_response]
  pump_view_core [OF same_core_post_response] pump_view_core [OF same_core_post_deferred]
  pump_view_core [OF same_core_finish_loop] pump_view_core [OF same_core_RunCallbacks_loop]
  pump_view_core [OF same_core_fold [OF same_core_call_connect]]

lemma pump_view_log [simp]: "quiet e \<Longrightarrow> pump_view (log_event e s) = pump_view s"
  by (rule pump_view_core [OF same_core_log])

lemma pump_view_FailAllPending [simp]: "pump_view (FailAllPending st d s) = pump_view s"
  using pump_view_core [OF same_core_FailAllPending [of s st d]] by simp

lemma pump_view_finish [simp]: "pump_view (finish st s) = pump_view s"
  by (simp add: finish_def Let_def)

lemma pump_view_connecting [simp]:
  "pump_view (RequestConnect cb s) = pump_view s" "pump_view (RequestConnect_task cb s) = pump_view s"
  "pump_view (ConnectCoro_resolved err s) = pump_view s" "pump_view (ConnectCoro_connected r s) = pump_view s"
  "pump_view (ConnectCoro_wrote A s) = pump_view s" "pump_view (ConnectCoro_read A s) = pump_view s"
  by (auto simp: RequestConnect_def EnsureIoThread_def post_strand_def RequestConnect_task_def Let_def
      ConnectCoro_resolved_def ConnectCoro_connected_def ConnectCoro_wrote_def ConnectCoro_read_def
      ConnectCoro_established_def ConnectCoro_return_def StartReader_def
      split: option.split sum.split prod.split)

lemma pump_view_EnsureConnected: "EnsureConnected b s = (r, t) \<Longrightarrow> pump_view t = pump_view s"
  by (auto simp: EnsureConnected_def Let_def split: if_splits)

lemma pump_view_resume [simp]: "pump_view (AsyncUnaryCall_resume mid req cb cs s) = pump_view s"
  by (simp add: AsyncUnaryCall_resume_def post_strand_def)

lemma pump_view_calls [simp]:
  "pump_view (AsyncUnaryCall b mid req cb s) = pump_view s" "pump_view (snd (Connect b s)) = pump_view s"
  by (auto simp: AsyncUnaryCall_def Connect_def split: prod.split sum.split option.split
      dest!: pump_view_EnsureConnected)

lemma pump_view_ReadLoop [simp]: "pump_view (ReadLoop_turn A s) = pump_view s"
  by (auto simp: ReadLoop_turn_def ReadLoop_frame_def ReadLoop_response_eq Let_def split: prod.split option.split)

lemma pump_view_Shutdown_task [simp]: "pump_view (Shutdown_task A s) = pump_view s"
  by (simp add: Shutdown_task_def Let_def)

lemma drop_deleted: "list_all is_drop (concat (map deleted cs))"
  by (induction cs) (auto simp: deleted_def split: option.splits thunk.splits)

lemma drop_lost: "list_all is_drop [ConnectDropped c. Some c \<leftarrow> ws]"
  by (induction ws) (auto split: option.splits)

lemma pump_inv_drop:
  "list_all is_drop es \<Longrightarrow> pump_inv (s\<lparr>events := events s @ es\<rparr>) = pump_inv s"
  using drop_events by (simp add: pump_inv_def)

lemma pump_inv_upd [simp]:
  "pump_inv (s\<lparr>cb_queue := q\<rparr>) = pump_inv s" "pump_inv (s\<lparr>phase := a\<rparr>) = pump_inv s"
  "pump_inv (s\<lparr>connect_waiters := w\<rparr>) = pump_inv s" "pump_inv (s\<lparr>next_call_id := n\<rparr>) = pump_inv s"
  "pump_inv (s\<lparr>pending := p\<rparr>) = pump_inv s"
  by (simp_all add: pump_inv_def)

lemma pump_inv_Shutdown_end: "Shutdown_end s = Some t \<Longrightarrow> pump_inv s \<Longrightarrow> pump_inv t"
proof (elim Shutdown_endE)
  fix cs q
  assume "pump_inv s"
    and t: "t = s\<lparr>cb_queue := q, phase := Stopped, events := events s @ concat (map deleted cs)\<rparr>"
  then show ?thesis
    using pump_inv_drop [OF drop_deleted, of "s\<lparr>cb_queue := q, phase := Stopped\<rparr>" cs] by simp
qed

lemma pump_inv_Shutdown:
  assumes "Shutdown s = Some t" and "pump_inv s" shows "pump_inv t"
  using assms(1)
proof (cases rule: ShutdownE)
  case started
  have "pump_view t = pump_view s" by (simp add: started(3))
  then show ?thesis using assms(2) by (rule pump_inv_view)
next
  case (unstarted u)
  have "pump_view u = pump_view s" by (simp add: unstarted(3))
  then have "pump_inv u" using assms(2) by (rule pump_inv_view)
  then have "pump_inv (u\<lparr>connect_waiters := [], events := events u @ [ConnectDropped c. Some c \<leftarrow> connect_waiters u]\<rparr>)"
    using pump_inv_drop [OF drop_lost, of "u\<lparr>connect_waiters := []\<rparr>" "connect_waiters u"] by simp
  with unstarted(4) show ?thesis by (rule pump_inv_Shutdown_end)
qed (use assms in simp)

interpretation cp: write_pump write_queue write_pump_active pump
  "\<lambda>s. queued (events s)" "\<lambda>s. written (events s)" enqueue_frame WritePump_loop "WritePump_wrote A"
  for A :: "'s asio"
proof (unfold_locales, goal_cases)
  case (10 h p s)
  obtain ws sock where ws: "Async_WriteFrame A (socket s) h p = (ws, sock)" by fastforce
  show ?case
  proof (cases "ok ws")
    case True
    then show ?thesis
      by (intro disjI1 exI [of _ "log_event (Written h p) (s\<lparr>socket := sock\<rparr>)"])
        (simp add: WritePump_wrote_def ws log_event_def)
  next
    case False
    have "pump_view (FailAllPending ws True (s\<lparr>socket := sock, write_queue := []\<rparr>)) =
      pump_view (s\<lparr>write_queue := []\<rparr>)" by (simp add: pump_view_def [of "s\<lparr>socket := _, write_queue := _\<rparr>"] pump_view_def [of "s\<lparr>write_queue := _\<rparr>"])
    with False show ?thesis by (simp add: WritePump_wrote_def ws pump_view_def)
  qed
qed (auto simp: enqueue_frame_def WritePump_loop_def log_event_def Let_def split: list.split)

lemma pump_inv_call:
  assumes "pump_inv s"
  shows "pump_inv (AsyncUnaryCall_task mid req cb s)"
proof (cases "stopped s")
  case True
  then show ?thesis using assms by (auto simp: AsyncUnaryCall_task_def intro: pump_inv_view)
next
  case False
  define u where "u = pending_emplace (next_call_id s) cb (s\<lparr>next_call_id := next_call_id s + 1\<rparr>)"
  have "pump_inv u"
    using assms drop_events [of "[ResponseDropped c]" for c]
    by (auto simp: u_def pending_emplace_def log_event_def pump_inv_def split: option.split)
  then have "pump_inv (enqueue_frame h p u)" for h p
    unfolding pump_inv_def by (rule cp.ok_enqueue)
  with False show ?thesis by (simp add: AsyncUnaryCall_task_def u_def Let_def)
qed

lemma pump_view_resume_waiting [simp]: "pump_view (resume_waiting w st s) = pump_view s"
  by (auto simp: resume_waiting_def Let_def split: await.split)

lemma pump_view_misc [simp]:
  "pump_view (snd (AsyncUnaryCall_future b mid req s)) = pump_view s"
  "pump_view (ConnectAsync cb s) = pump_view s" "pump_view (snd (RunCallbacks mx s)) = pump_view s"
  "pump_view (SetInterceptor f s) = pump_view s" "pump_view (OnTrace m rq rs st s) = pump_view s"
  by (simp_all add: AsyncUnaryCall_future_def ConnectAsync_def RunCallbacks_def SetInterceptor_def
      OnTrace_def Let_def)

lemma pump_inv_step: "chan_step A s t \<Longrightarrow> pump_inv s \<Longrightarrow> pump_inv t"
proof (induction rule: chan_step.induct)
  case (shutdown s t)
  from shutdown(2,3) show ?case by (rule pump_inv_Shutdown)
next
  case (join s t)
  from join(3,4) show ?case by (rule pump_inv_Shutdown_end)
next
  case (task s tk ts)
  have "pump_inv (s\<lparr>strand := ts\<rparr>)" using task(3) by (rule pump_inv_view [rotated]) simp
  then show ?case by (cases tk) (auto intro: pump_inv_call pump_inv_view [rotated])
next
  case (pump_start s)
  then show ?case unfolding pump_inv_def by (simp add: cp.ok_start)
next
  case (pump_wrote s h p)
  then show ?case unfolding pump_inv_def by (simp add: cp.ok_wrote)
qed (simp_all add: pump_inv_view [rotated])

subsection \<open>The invariants together\<close>

definition chan_inv :: "'s chan \<Rightarrow> bool" where
  "chan_inv s \<longleftrightarrow> coro_inv s \<and> io_inv s \<and> phase_inv s \<and> pump_inv s"

lemma chan_inv_init: "chan_init s \<Longrightarrow> chan_inv s"
  by (auto simp: chan_init_def CreateChannel_def Channel_new_def chan_inv_def coro_inv_def io_inv_def
      phase_inv_def pump_inv_def pump_ok_init)

lemma chan_inv_step: "chan_inv s \<Longrightarrow> chan_step A s t \<Longrightarrow> chan_inv t"
  using coro_inv_step [of A s t] runtime_inv_step [of A s t] pump_inv_step [of A s t]
  by (simp add: chan_inv_def)

interpretation ci: inductive_invariant chan_init "chan_step A" chan_inv for A :: "'s asio"
  by unfold_locales (auto intro: chan_inv_init chan_inv_step)

text \<open>The transitions of \<open>conn_state\<close> the code is meant to make.\<close>

inductive conn_edge :: "ConnState \<Rightarrow> ConnState \<Rightarrow> bool" where
  stay: "conn_edge c c"
| begin_connect: "conn_edge Idle Connecting"
| established: "conn_edge Connecting Connected"
| failed: "conn_edge Connecting Idle"
| close: "conn_edge c Closed"

lemma conn_edge_ops:
  "conn_state (AsyncUnaryCall b mid req cb s) = conn_state s"
  "conn_state (RequestConnect cb s) = conn_state s"
  "conn_state (snd (Connect b s)) = conn_state s"
  "conn_state (resume_waiting w st s) = conn_state s"
  "conn_state (ReadLoop_turn A s) = conn_state s"
  "conn_state (WritePump_loop s) = conn_state s"
  "conn_state (WritePump_wrote A h p s) = conn_state s"
  "conn_state (AsyncUnaryCall_task mid req cb s) = conn_state s"
  by (auto simp: op_defs split: op_splits)

lemma conn_edge_finish:
  "conn_state (ConnectCoro_return st s) =
     (if \<not> ok st \<and> conn_state s \<noteq> Closed then Idle else conn_state s)"
  by (simp add: ConnectCoro_return_def finish_def Let_def)

lemma conn_edge_coro:
  assumes "conn_state s = Connecting \<or> conn_state s = Closed"
  shows "conn_edge (conn_state s) (conn_state (ConnectCoro_return st s))"
    "conn_edge (conn_state s) (conn_state (ConnectCoro_established s))"
  using assms by (auto simp: conn_edge_finish ConnectCoro_established_def StartReader_def intro: conn_edge.intros)

lemma conn_edge_connect:
  assumes "conn_state s = Connecting \<or> conn_state s = Closed"
  shows "conn_edge (conn_state s) (conn_state (ConnectCoro_resolved err s))"
   "conn_edge (conn_state s) (conn_state (ConnectCoro_connected r s))"
   "conn_edge (conn_state s) (conn_state (ConnectCoro_wrote A s))"
   "conn_edge (conn_state s) (conn_state (ConnectCoro_read A s))"
proof -
  have ret: "conn_edge (conn_state s) (conn_state (ConnectCoro_return st (s\<lparr>socket := k\<rparr>)))" for st k
    using conn_edge_coro(1) [of "s\<lparr>socket := k\<rparr>" st] assms by simp
  have est: "conn_edge (conn_state s) (conn_state (ConnectCoro_established (s\<lparr>socket := k\<rparr>)))" for k
    using conn_edge_coro(2) [of "s\<lparr>socket := k\<rparr>"] assms by simp
  show "conn_edge (conn_state s) (conn_state (ConnectCoro_resolved err s))"
   "conn_edge (conn_state s) (conn_state (ConnectCoro_connected r s))"
   "conn_edge (conn_state s) (conn_state (ConnectCoro_wrote A s))"
   "conn_edge (conn_state s) (conn_state (ConnectCoro_read A s))"
    using conn_edge_coro(1) [OF assms] ret est
    by (auto simp: ConnectCoro_resolved_def ConnectCoro_connected_def ConnectCoro_wrote_def
        ConnectCoro_read_def Let_def intro: conn_edge.stay split: option.split sum.split prod.split)
qed

lemma conn_edge_Shutdown:
  "Shutdown s = Some t \<Longrightarrow> conn_edge (conn_state s) (conn_state t)"
  by (elim ShutdownE Shutdown_endE) (auto intro: conn_edge.intros)

lemma conn_edge_RequestConnect_task:
  "conn_edge (conn_state s) (conn_state (RequestConnect_task cb s))"
  by (auto simp: RequestConnect_task_def Let_def intro: conn_edge.intros)

subsection \<open>A concrete run\<close>

text \<open>
  A channel without handshake that connects and sends a call; the witnesses of the theorems
  below use its states.
\<close>

definition demo_socket :: pipe where
  "demo_socket = \<lparr>p_rx = [], p_tx = [], p_room = 100\<rparr>"

definition demo_new :: "Dispatch \<Rightarrow> pipe chan" where
  "demo_new d = CreateChannel demo_socket ''localhost'' 9000
     (ChannelConfig_default\<lparr>handshake_header := [], dispatch := d\<rparr>)"

definition demo_connected :: "Dispatch \<Rightarrow> pipe chan" where
  "demo_connected d = (demo_new d)\<lparr>io_thread_started := True, io_running := True, connected := True,
     conn_state := Connected, reader := True\<rparr>"

definition demo_called :: "Dispatch \<Rightarrow> pipe chan" where
  "demo_called d = AsyncUnaryCall False 5 [1, 2] (Some (User 7)) (demo_connected d)"

definition demo_sent :: "Dispatch \<Rightarrow> pipe chan" where
  "demo_sent d = AsyncUnaryCall_task 5 [1, 2] (Some (User 7)) ((demo_called d)\<lparr>strand := []\<rparr>)"

abbreviation chan_reach :: "pipe chan \<Rightarrow> bool" where
  "chan_reach \<equiv> reachable chan_init (chan_step pipe_asio)"

lemma demo_new_reach: "chan_reach (demo_new d)"
  by (rule reachable.start) (auto simp: chan_init_def demo_new_def)

lemmas demo_chan_defs = demo_new_def CreateChannel_def Channel_new_def demo_connected_def

lemma demo_connected_reach: "chan_reach (demo_connected d)"
proof -
  let ?s1 = "ConnectAsync None (demo_new d)"
  let ?s2 = "run_task pipe_asio (T_Connect None) (?s1\<lparr>strand := []\<rparr>)"
  let ?s3 = "ConnectCoro_resolved None ?s2"
  have 1: "chan_step pipe_asio (demo_new d) ?s1"
    by (rule chan_step.connect_async [of False]) (simp add: demo_chan_defs may_call_def)
  have 2: "chan_step pipe_asio ?s1 ?s2"
    by (rule chan_step.task) (simp_all add: demo_chan_defs op_defs)
  have 3: "chan_step pipe_asio ?s2 ?s3"
    by (rule chan_step.resolved) (simp_all add: demo_chan_defs op_defs)
  have 4: "chan_step pipe_asio ?s3 (ConnectCoro_connected (Inr demo_socket) ?s3)"
    by (rule chan_step.connected) (simp_all add: demo_chan_defs op_defs)
  have "ConnectCoro_connected (Inr demo_socket) ?s3 = demo_connected d"
    by (simp add: demo_chan_defs op_defs)
  with demo_new_reach [of d] 1 2 3 4 show ?thesis by (metis reachable.step)
qed

lemma demo_called_eq:
  "demo_called d = (demo_connected d)\<lparr>strand := [T_Call 5 [1, 2] (Some (User 7))],
     events := [Submitted (User 7)]\<rparr>"
  by (simp add: demo_called_def demo_chan_defs op_defs)

lemma demo_called_reach: "chan_reach (demo_called d)"
proof (rule reachable.step [OF demo_connected_reach [of d]])
  show "chan_step pipe_asio (demo_connected d) (demo_called d)"
    unfolding demo_called_def by (rule chan_step.call) (simp add: demo_chan_defs may_call_def)
qed

definition demo_frame :: frame where
  "demo_frame = (FrameHeader_default\<lparr>frame_type := kRequest, call_id := 1, method_id := 5,
     payload_size := 2\<rparr>, [1, 2])"

lemma demo_sent_eq:
  "demo_sent d = (demo_connected d)\<lparr>next_call_id := 2, pending := [(1, Some (User 7))],
     write_queue := [demo_frame], write_pump_active := True, pump := PumpStart,
     events := [Submitted (User 7), Queued (fst demo_frame) (snd demo_frame)]\<rparr>"
  by (simp add: demo_sent_def demo_called_eq demo_chan_defs op_defs demo_frame_def)

lemma demo_sent_reach: "chan_reach (demo_sent d)"
proof (rule reachable.step [OF demo_called_reach [of d]])
  have "chan_step pipe_asio (demo_called d)
    (run_task pipe_asio (T_Call 5 [1, 2] (Some (User 7))) ((demo_called d)\<lparr>strand := []\<rparr>))"
    by (rule chan_step.task) (simp_all add: demo_called_eq demo_chan_defs)
  then show "chan_step pipe_asio (demo_called d) (demo_sent d)" by (simp add: demo_sent_def)
qed

subsection \<open>What the channel promises of its connection and its writes\<close>

text \<open>
  C26. The connection state machine: in every interleaving \<open>conn_state\<close> moves only from idle to
  connecting, from connecting to connected or back to idle, and from anywhere to closed. An
  established connection is never set up a second time, and closed is final.
\<close>


theorem conn_state_machine:
  assumes "reachable chan_init (chan_step A) s" and "chan_step A s t"
  shows "conn_edge (conn_state s) (conn_state t)"
proof -
  have "coro_inv s" using ci.invar_reachable [OF assms(1)] by (simp add: chan_inv_def)
  then have coro: "connect_coro s \<noteq> None \<Longrightarrow> conn_state s = Connecting \<or> conn_state s = Closed"
    by (simp add: coro_inv_def)
  from assms(2) coro show ?thesis
  proof (induction rule: chan_step.induct)
    case (task s tk ts)
    have "conn_edge (conn_state s) (conn_state (RequestConnect_task cb (s\<lparr>strand := ts\<rparr>)))" for cb
      using conn_edge_RequestConnect_task [of "s\<lparr>strand := ts\<rparr>"] by simp
    then show ?case by (cases tk) (auto simp: conn_edge_ops intro: conn_edge.intros)
  next
    case (join s t)
    from join(3) show ?case by (elim Shutdown_endE) (simp add: conn_edge.stay)
  qed (auto simp: conn_edge_ops conn_edge_connect AsyncUnaryCall_future_def ConnectAsync_def
      RunCallbacks_def SetInterceptor_def OnTrace_def log_event_def Let_def
      intro: conn_edge.stay conn_edge_Shutdown)
qed

theorem conn_state_machine_witness:
  "conn_edge (conn_state (demo_connected Inline)) (conn_state (demo_called Inline))"
proof -
  have "chan_step pipe_asio (demo_connected Inline) (demo_called Inline)"
    unfolding demo_called_def by (rule chan_step.call) (simp add: demo_chan_defs may_call_def)
  from conn_state_machine [OF demo_connected_reach this] show ?thesis .
qed

text \<open>
  C27. The write pump: in every reachable state the flag \<open>write_pump_active\<close> is set exactly while a
  pump coroutine exists, queued frames never wait without one, and the frames written, being
  written and waiting are a subsequence of the frames queued, in order.
\<close>

theorem channel_write_order:
  assumes "reachable chan_init (chan_step A) s"
  shows "(write_pump_active s \<longleftrightarrow> pump s \<noteq> PumpNone) \<and> (write_queue s \<noteq> [] \<longrightarrow> pump s \<noteq> PumpNone) \<and>
     subseq (written (events s) @ in_pump (pump s) @ write_queue s) (queued (events s))"
proof -
  have "pump_inv s" using ci.invar_reachable [OF assms] by (simp add: chan_inv_def)
  then show ?thesis by (auto simp: pump_inv_def pump_ok_def)
qed

theorem channel_write_order_witness:
  "chan_reach (demo_sent Inline) \<and> write_queue (demo_sent Inline) = [demo_frame] \<and>
   pump (demo_sent Inline) \<noteq> PumpNone"
  using channel_write_order [OF demo_sent_reach [of Inline]] demo_sent_reach [of Inline]
  by (simp add: demo_sent_eq)

text \<open>
  C28. The state a connection is in decides what may be outstanding: a connect coroutine runs only
  while connecting or after a shutdown, callers wait for the connection only while a coroutine is
  there to answer them, the reader runs only on an established connection, and a closed channel
  has no pending call left.
\<close>

theorem channel_connection_inv:
  assumes "reachable chan_init (chan_step A) s"
  shows "(connect_waiters s \<noteq> [] \<longrightarrow> conn_state s = Connecting \<and> connect_coro s \<noteq> None) \<and>
     (connect_coro s \<noteq> None \<longrightarrow> conn_state s = Connecting \<or> conn_state s = Closed) \<and>
     (reader s \<longrightarrow> connected s) \<and> (conn_state s = Connected \<longrightarrow> connected s) \<and>
     (connected s \<longrightarrow> conn_state s = Connected \<or> conn_state s = Closed) \<and>
     (conn_state s = Closed \<longrightarrow> stopped s \<and> pending s = [] \<and> connect_waiters s = [])"
proof -
  have "coro_inv s" using ci.invar_reachable [OF assms] by (simp add: chan_inv_def)
  then show ?thesis by (auto simp: coro_inv_def)
qed

theorem channel_connection_inv_witness:
  "chan_reach (demo_sent Manual) \<and> reader (demo_sent Manual) \<and> connected (demo_sent Manual)"
  using channel_connection_inv [OF demo_sent_reach [of Manual]] demo_sent_reach [of Manual]
  by (simp add: demo_sent_eq demo_connected_def)

end
