(* ===== verification/Channel_Balance.thy ===== *)
theory Channel_Balance
  imports Channel_Inv "HOL-Library.Multiset"
begin

text \<open>
  What becomes of the callbacks handed to the channel. Each is an obligation. At every moment
  the obligations taken on are those in flight (blocked with their caller, posted, pending,
  waiting for the connection, or queued for the owner) plus those discharged plus those dropped;
  the theory shows that balance for every step, where drops can come from, and what a shutdown
  leaves.
\<close>

subsection \<open>Obligations\<close>

datatype obligation = RespCb callback | ConnCb callback

definition ob :: "(callback \<Rightarrow> obligation) \<Rightarrow> callback option \<Rightarrow> obligation multiset" where
  "ob mk cb = (case cb of None \<Rightarrow> {#} | Some c \<Rightarrow> {#mk c#})"

fun ob_await :: "await \<Rightarrow> obligation multiset" where
  "ob_await AwConnect = {#}"
| "ob_await (AwCall mid req cb) = ob RespCb cb"

fun ob_task :: "task \<Rightarrow> obligation multiset" where
  "ob_task (T_Connect cb) = ob ConnCb cb"
| "ob_task (T_Call mid req cb) = ob RespCb cb"
| "ob_task T_Shutdown = {#}"

fun ob_thunk :: "thunk \<Rightarrow> obligation multiset" where
  "ob_thunk (CallConnect c st) = {#ConnCb c#}"
| "ob_thunk (CallPush mid pl) = {#}"

definition ob_comp :: "Completion \<Rightarrow> obligation multiset" where
  "ob_comp c = ob RespCb (resp_cb c) + (case thunk c of None \<Rightarrow> {#} | Some fn \<Rightarrow> ob_thunk fn)"

fun ev_asked :: "event \<Rightarrow> obligation multiset" where
  "ev_asked (Submitted c) = {#RespCb c#}"
| "ev_asked (ConnectRequested c) = {#ConnCb c#}"
| "ev_asked _ = {#}"

fun ev_done :: "event \<Rightarrow> obligation multiset" where
  "ev_done (Responded c st pl) = {#RespCb c#}"
| "ev_done (ConnectResult c st) = {#ConnCb c#}"
| "ev_done _ = {#}"

fun ev_dropped :: "event \<Rightarrow> obligation multiset" where
  "ev_dropped (ResponseDropped c) = {#RespCb c#}"
| "ev_dropped (ConnectDropped c) = {#ConnCb c#}"
| "ev_dropped _ = {#}"

definition asked :: "'s chan \<Rightarrow> obligation multiset" where
  "asked s = (\<Sum>e\<leftarrow>events s. ev_asked e)"

definition discharged :: "'s chan \<Rightarrow> obligation multiset" where
  "discharged s = (\<Sum>e\<leftarrow>events s. ev_done e)"

definition dropped :: "'s chan \<Rightarrow> obligation multiset" where
  "dropped s = (\<Sum>e\<leftarrow>events s. ev_dropped e)"

definition in_flight :: "'s chan \<Rightarrow> obligation multiset" where
  "in_flight s =
     (\<Sum>w\<leftarrow>waiting s. ob_await (snd w)) + (\<Sum>t\<leftarrow>strand s. ob_task t) +
     (\<Sum>e\<leftarrow>pending s. ob RespCb (snd e)) + (\<Sum>cb\<leftarrow>connect_waiters s. ob ConnCb cb) +
     (\<Sum>c\<leftarrow>cq_items (cb_queue s). ob_comp c)"

definition owed :: "'s chan \<Rightarrow> obligation multiset" where
  "owed s = in_flight s + discharged s + dropped s"

definition comp_ok :: "Completion \<Rightarrow> bool" where
  "comp_ok c \<longleftrightarrow> (kind c = Response \<longrightarrow> thunk c = None) \<and> (kind c = Deferred \<longrightarrow> resp_cb c = None)"

definition queue_ok :: "'s chan \<Rightarrow> bool" where
  "queue_ok s \<longleftrightarrow> cq_wf (cb_queue s) \<and> (\<forall>c \<in> set (cq_items (cb_queue s)). comp_ok c) \<and>
     (dispatch (config s) = Inline \<longrightarrow> cq_items (cb_queue s) = [])"

lemma ob_None [simp]: "ob mk None = {#}" and ob_Some [simp]: "ob mk (Some c) = {#mk c#}"
  by (simp_all add: ob_def)

lemmas owed_defs = owed_def in_flight_def discharged_def dropped_def

subsection \<open>Completing callbacks\<close>

lemma log_owed [simp]:
  "owed (log_event e s) = owed s + ev_done e + ev_dropped e"
  "asked (log_event e s) = asked s + ev_asked e" "queue_ok (log_event e s) = queue_ok s"
  by (simp_all add: owed_defs asked_def log_event_def queue_ok_def)

lemma pending_log [simp]: "pending (log_event e s) = pending s"
  by (simp add: log_event_def)

lemma call_connect_owed [simp]:
  "owed (call_connect cb st s) = owed s + ob ConnCb cb" "asked (call_connect cb st s) = asked s"
  "queue_ok (call_connect cb st s) = queue_ok s"
  by (auto simp: call_connect_def split: option.split)

lemma call_response_owed [simp]:
  "owed (call_response cb st pl s) = owed s + ob RespCb cb" "asked (call_response cb st pl s) = asked s"
  "queue_ok (call_response cb st pl s) = queue_ok s"
  by (auto simp: call_response_def split: option.split)

lemma run_thunk_owed [simp]:
  "owed (run_thunk fn s) = owed s + ob_thunk fn" "asked (run_thunk fn s) = asked s"
  "queue_ok (run_thunk fn s) = queue_ok s"
  by (cases fn; simp)+

lemma queue_push_owed:
  assumes "queue_ok s" and "dispatch (config s) = Manual" and "comp_ok c"
  shows "owed (s\<lparr>cb_queue := cq_push c (cb_queue s)\<rparr>) = owed s + ob_comp c"
    "queue_ok (s\<lparr>cb_queue := cq_push c (cb_queue s)\<rparr>)"
  using assms by (auto simp: owed_defs queue_ok_def cq.items_push cq.wf_push)

lemma asked_queue [simp]: "asked (s\<lparr>cb_queue := q\<rparr>) = asked s"
  by (simp add: asked_def)

lemma post_response_owed:
  assumes "queue_ok s"
  shows "owed (post_response cb st pl s) = owed s + ob RespCb cb" "queue_ok (post_response cb st pl s)"
    "asked (post_response cb st pl s) = asked s"
proof -
  have "dispatch (config s) \<noteq> Inline \<Longrightarrow> dispatch (config s) = Manual" by (cases "dispatch (config s)") auto
  then show "owed (post_response cb st pl s) = owed s + ob RespCb cb" "queue_ok (post_response cb st pl s)"
    "asked (post_response cb st pl s) = asked s"
    using assms by (auto simp: post_response_def Let_def queue_push_owed comp_ok_def ob_comp_def Completion_default_def)
qed

lemma post_deferred_owed:
  assumes "queue_ok s"
  shows "owed (post_deferred fn s) = owed s + ob_thunk fn" "queue_ok (post_deferred fn s)"
    "asked (post_deferred fn s) = asked s"
proof -
  have "dispatch (config s) \<noteq> Inline \<Longrightarrow> dispatch (config s) = Manual" by (cases "dispatch (config s)") auto
  then show "owed (post_deferred fn s) = owed s + ob_thunk fn" "queue_ok (post_deferred fn s)"
    "asked (post_deferred fn s) = asked s"
    using assms by (auto simp: post_deferred_def Let_def queue_push_owed comp_ok_def ob_comp_def Completion_default_def)
qed

text \<open>A loop that discharges one obligation per turn.\<close>

lemma fold_owed:
  assumes "\<And>x s. queue_ok s \<Longrightarrow> owed (f x s) = owed s + g x \<and> queue_ok (f x s) \<and> asked (f x s) = asked s"
    and "queue_ok s"
  shows "owed (fold f xs s) = owed s + (\<Sum>x\<leftarrow>xs. g x) \<and> queue_ok (fold f xs s) \<and> asked (fold f xs s) = asked s"
  using assms(2) by (induction xs arbitrary: s) (auto simp: assms(1) ac_simps)

lemma owed_pending: "owed s = owed (s\<lparr>pending := []\<rparr>) + (\<Sum>e\<leftarrow>pending s. ob RespCb (snd e))"
  by (simp add: owed_defs)

lemma owed_waiters: "owed s = owed (s\<lparr>connect_waiters := []\<rparr>) + (\<Sum>cb\<leftarrow>connect_waiters s. ob ConnCb cb)"
  by (simp add: owed_defs)

lemma FailAllPending_owed:
  assumes "queue_ok s"
  shows "owed (FailAllPending st d s) = owed s" "queue_ok (FailAllPending st d s)"
    "asked (FailAllPending st d s) = asked s"
proof -
  let ?s = "s\<lparr>pending := []\<rparr>"
  have s: "queue_ok ?s" "asked ?s = asked s" using assms by (simp_all add: queue_ok_def asked_def)
  let ?f = "\<lambda>(cid :: u32, cb) s. if cb = None then s else if d then post_response cb st [] s
         else call_response cb st [] s"
  have "owed (fold ?f (pending s) ?s) = owed ?s + (\<Sum>e\<leftarrow>pending s. ob RespCb (snd e)) \<and>
      queue_ok (fold ?f (pending s) ?s) \<and> asked (fold ?f (pending s) ?s) = asked ?s"
    by (rule fold_owed [OF _ s(1)]) (auto simp: post_response_owed split: prod.split)
  then show "owed (FailAllPending st d s) = owed s" "queue_ok (FailAllPending st d s)"
    "asked (FailAllPending st d s) = asked s"
    using s owed_pending [of s] by (simp_all add: FailAllPending_def Let_def)
qed

lemma finish_owed:
  assumes "queue_ok s"
  shows "owed (finish st s) = owed s" "queue_ok (finish st s)" "asked (finish st s) = asked s"
proof -
  define u where "u = (if \<not> ok st \<and> conn_state s \<noteq> Closed then s\<lparr>conn_state := Idle\<rparr> else s)"
  have u: "owed u = owed s" "queue_ok u" "asked u = asked s" "queue_ok (u\<lparr>connect_waiters := []\<rparr>)"
    "asked (u\<lparr>connect_waiters := []\<rparr>) = asked s"
    using assms by (simp_all add: u_def owed_defs queue_ok_def asked_def)
  let ?f = "\<lambda>cb s. case cb of None \<Rightarrow> s | Some c \<Rightarrow> post_deferred (CallConnect c st) s"
  let ?t = "fold ?f (connect_waiters u) (u\<lparr>connect_waiters := []\<rparr>)"
  have "owed ?t = owed (u\<lparr>connect_waiters := []\<rparr>) + (\<Sum>cb\<leftarrow>connect_waiters u. ob ConnCb cb) \<and>
      queue_ok ?t \<and> asked ?t = asked (u\<lparr>connect_waiters := []\<rparr>)"
    by (rule fold_owed [OF _ u(4)]) (auto simp: post_deferred_owed split: option.split)
  moreover have "finish st s = ?t" by (simp add: finish_def u_def Let_def)
  ultimately show "owed (finish st s) = owed s" "queue_ok (finish st s)" "asked (finish st s) = asked s"
    using u owed_waiters [of u] by simp_all
qed
subsection \<open>The operations\<close>

lemma owed_upd [simp]:
  "owed (s\<lparr>socket := a1\<rparr>) = owed s" "owed (s\<lparr>conn_state := a2\<rparr>) = owed s"
  "owed (s\<lparr>connect_coro := a3\<rparr>) = owed s" "owed (s\<lparr>reader := a4\<rparr>) = owed s"
  "owed (s\<lparr>connected := a5\<rparr>) = owed s" "owed (s\<lparr>stopped := a6\<rparr>) = owed s"
  "owed (s\<lparr>phase := a7\<rparr>) = owed s" "owed (s\<lparr>work_guard := a8\<rparr>) = owed s"
  "owed (s\<lparr>io_running := a9\<rparr>) = owed s" "owed (s\<lparr>io_thread_started := b1\<rparr>) = owed s"
  "owed (s\<lparr>interceptor := b2\<rparr>) = owed s" "owed (s\<lparr>next_call_id := b3\<rparr>) = owed s"
  "owed (s\<lparr>next_promise := b4\<rparr>) = owed s" "owed (s\<lparr>write_queue := b5\<rparr>) = owed s"
  "owed (s\<lparr>write_pump_active := b6\<rparr>) = owed s" "owed (s\<lparr>pump := b7\<rparr>) = owed s"
  by (simp_all add: owed_defs)

lemma asked_upd [simp]:
  "asked (s\<lparr>socket := a1\<rparr>) = asked s" "asked (s\<lparr>conn_state := a2\<rparr>) = asked s"
  "asked (s\<lparr>connect_coro := a3\<rparr>) = asked s" "asked (s\<lparr>reader := a4\<rparr>) = asked s"
  "asked (s\<lparr>connected := a5\<rparr>) = asked s" "asked (s\<lparr>stopped := a6\<rparr>) = asked s"
  "asked (s\<lparr>phase := a7\<rparr>) = asked s" "asked (s\<lparr>work_guard := a8\<rparr>) = asked s"
  "asked (s\<lparr>io_running := a9\<rparr>) = asked s" "asked (s\<lparr>io_thread_started := b1\<rparr>) = asked s"
  "asked (s\<lparr>interceptor := b2\<rparr>) = asked s" "asked (s\<lparr>next_call_id := b3\<rparr>) = asked s"
  "asked (s\<lparr>next_promise := b4\<rparr>) = asked s" "asked (s\<lparr>write_queue := b5\<rparr>) = asked s"
  "asked (s\<lparr>write_pump_active := b6\<rparr>) = asked s" "asked (s\<lparr>pump := b7\<rparr>) = asked s"
  "asked (s\<lparr>strand := b8\<rparr>) = asked s" "asked (s\<lparr>waiting := b9\<rparr>) = asked s"
  "asked (s\<lparr>pending := c1\<rparr>) = asked s" "asked (s\<lparr>connect_waiters := c2\<rparr>) = asked s"
  by (simp_all add: asked_def)

lemma queue_ok_upd [simp]:
  "queue_ok (s\<lparr>socket := a1\<rparr>) = queue_ok s" "queue_ok (s\<lparr>conn_state := a2\<rparr>) = queue_ok s"
  "queue_ok (s\<lparr>connect_coro := a3\<rparr>) = queue_ok s" "queue_ok (s\<lparr>reader := a4\<rparr>) = queue_ok s"
  "queue_ok (s\<lparr>connected := a5\<rparr>) = queue_ok s" "queue_ok (s\<lparr>stopped := a6\<rparr>) = queue_ok s"
  "queue_ok (s\<lparr>phase := a7\<rparr>) = queue_ok s" "queue_ok (s\<lparr>work_guard := a8\<rparr>) = queue_ok s"
  "queue_ok (s\<lparr>io_running := a9\<rparr>) = queue_ok s" "queue_ok (s\<lparr>io_thread_started := b1\<rparr>) = queue_ok s"
  "queue_ok (s\<lparr>interceptor := b2\<rparr>) = queue_ok s" "queue_ok (s\<lparr>next_call_id := b3\<rparr>) = queue_ok s"
  "queue_ok (s\<lparr>next_promise := b4\<rparr>) = queue_ok s" "queue_ok (s\<lparr>write_queue := b5\<rparr>) = queue_ok s"
  "queue_ok (s\<lparr>write_pump_active := b6\<rparr>) = queue_ok s" "queue_ok (s\<lparr>pump := b7\<rparr>) = queue_ok s"
  "queue_ok (s\<lparr>strand := b8\<rparr>) = queue_ok s" "queue_ok (s\<lparr>waiting := b9\<rparr>) = queue_ok s"
  "queue_ok (s\<lparr>pending := c1\<rparr>) = queue_ok s" "queue_ok (s\<lparr>connect_waiters := c2\<rparr>) = queue_ok s"
  by (simp_all add: queue_ok_def)

lemma owed_wait [simp]: "owed (s\<lparr>waiting := waiting s @ [(p, w)]\<rparr>) = owed s + ob_await w"
  by (simp add: owed_defs)

lemma owed_waiter [simp]:
  "owed (s\<lparr>connect_waiters := connect_waiters s @ [cb]\<rparr>) = owed s + ob ConnCb cb"
  by (simp add: owed_defs)

lemma post_strand_owed [simp]:
  "owed (post_strand t s) = owed s + ob_task t" "asked (post_strand t s) = asked s"
  "queue_ok (post_strand t s) = queue_ok s"
  by (simp_all add: owed_defs asked_def queue_ok_def post_strand_def)

lemma RequestConnect_owed:
  "owed (RequestConnect cb s) = owed s + ob ConnCb cb" "asked (RequestConnect cb s) = asked s + ob ConnCb cb"
  "queue_ok (RequestConnect cb s) = queue_ok s"
  by (auto simp: RequestConnect_def EnsureIoThread_def Let_def split: option.split)

lemma RequestConnect_task_owed:
  "owed (RequestConnect_task cb s) = owed s + ob ConnCb cb" "asked (RequestConnect_task cb s) = asked s"
  "queue_ok (RequestConnect_task cb s) = queue_ok s"
  by (auto simp: RequestConnect_task_def Let_def)

lemma ConnectCoro_owed:
  assumes "queue_ok s"
  shows "owed (ConnectCoro_return st s) = owed s" "asked (ConnectCoro_return st s) = asked s"
    "queue_ok (ConnectCoro_return st s)"
    "owed (ConnectCoro_established s) = owed s" "asked (ConnectCoro_established s) = asked s"
    "queue_ok (ConnectCoro_established s)"
    "owed (ConnectCoro_resolved err s) = owed s" "asked (ConnectCoro_resolved err s) = asked s"
    "queue_ok (ConnectCoro_resolved err s)"
    "owed (ConnectCoro_connected r s) = owed s" "asked (ConnectCoro_connected r s) = asked s"
    "queue_ok (ConnectCoro_connected r s)"
    "owed (ConnectCoro_wrote A s) = owed s" "asked (ConnectCoro_wrote A s) = asked s"
    "queue_ok (ConnectCoro_wrote A s)"
    "owed (ConnectCoro_read A s) = owed s" "asked (ConnectCoro_read A s) = asked s"
    "queue_ok (ConnectCoro_read A s)"
  using assms
  by (auto simp: ConnectCoro_return_def ConnectCoro_established_def ConnectCoro_resolved_def
      ConnectCoro_connected_def ConnectCoro_wrote_def ConnectCoro_read_def StartReader_def Let_def finish_owed
      split: option.split sum.split prod.split)

lemma resume_owed:
  assumes "queue_ok s"
  shows "owed (AsyncUnaryCall_resume mid req cb cs s) = owed s + ob RespCb cb"
    "asked (AsyncUnaryCall_resume mid req cb cs s) = asked s"
    "queue_ok (AsyncUnaryCall_resume mid req cb cs s)"
  using assms by (simp_all add: AsyncUnaryCall_resume_def post_response_owed)

lemma EnsureConnected_owed:
  assumes "EnsureConnected b s = (r, t)"
  shows "(\<exists>X. owed t = owed s + X \<and> asked t = asked s + X) \<and> queue_ok t = queue_ok s"
  using assms by (auto simp: EnsureConnected_def Let_def RequestConnect_owed split: if_splits)

lemma Connect_owed:
  "(\<exists>X. owed (snd (Connect b s)) = owed s + X \<and> asked (snd (Connect b s)) = asked s + X) \<and>
   queue_ok (snd (Connect b s)) = queue_ok s"
  by (auto simp: Connect_def split: prod.split sum.split dest!: EnsureConnected_owed)

lemma AsyncUnaryCall_owed:
  assumes "queue_ok s"
  shows "(\<exists>X. owed (AsyncUnaryCall b mid req cb s) = owed s + X \<and>
      asked (AsyncUnaryCall b mid req cb s) = asked s + X) \<and> queue_ok (AsyncUnaryCall b mid req cb s)"
proof -
  define u where "u = (case cb of None \<Rightarrow> s | Some c \<Rightarrow> log_event (Submitted c) s)"
  have u: "owed u = owed s" "asked u = asked s + ob RespCb cb" "queue_ok u"
    using assms by (auto simp: u_def split: option.split)
  obtain r t where rt: "EnsureConnected b u = (r, t)" by (cases "EnsureConnected b u") auto
  from EnsureConnected_owed [OF rt] u obtain X
    where t: "owed t = owed s + X" "asked t = asked s + ob RespCb cb + X" "queue_ok t" by auto
  show ?thesis
  proof (cases r)
    case (Inl cs)
    then have "AsyncUnaryCall b mid req cb s = AsyncUnaryCall_resume mid req cb cs t"
      using rt by (simp add: AsyncUnaryCall_def u_def [symmetric])
    then show ?thesis
      using t by (intro conjI exI [of _ "ob RespCb cb + X"]) (simp_all add: resume_owed ac_simps)
  next
    case (Inr p)
    then have "AsyncUnaryCall b mid req cb s = t\<lparr>waiting := waiting t @ [(p, AwCall mid req cb)]\<rparr>"
      using rt by (simp add: AsyncUnaryCall_def u_def [symmetric])
    then show ?thesis
      using t by (intro conjI exI [of _ "ob RespCb cb + X"]) (simp_all add: ac_simps)
  qed
qed

lemma sum_list_remove1: "x \<in> set xs \<Longrightarrow> (\<Sum>y\<leftarrow>xs. f y) = f x + (\<Sum>y\<leftarrow>remove1 x xs. f y)"
  for f :: "'a \<Rightarrow> 'b multiset"
  by (induction xs) auto

lemma resume_waiting_owed:
  assumes "w \<in> set (waiting s)" and "queue_ok s"
  shows "owed (resume_waiting w st s) = owed s" "asked (resume_waiting w st s) = asked s"
    "queue_ok (resume_waiting w st s)"
proof -
  let ?s = "s\<lparr>waiting := remove1 w (waiting s)\<rparr>"
  have "owed s = owed ?s + ob_await (snd w)"
    using sum_list_remove1 [OF assms(1), of "\<lambda>w. ob_await (snd w)"] by (simp add: owed_defs)
  then show "owed (resume_waiting w st s) = owed s" "asked (resume_waiting w st s) = asked s"
    "queue_ok (resume_waiting w st s)"
    using assms(2) by (auto simp: resume_waiting_def Let_def resume_owed split: await.split)
qed

lemma enqueue_frame_owed [simp]:
  "owed (enqueue_frame h p s) = owed s" "asked (enqueue_frame h p s) = asked s"
  "queue_ok (enqueue_frame h p s) = queue_ok s"
  by (simp_all add: enqueue_frame_def Let_def)

lemma pending_emplace_owed:
  "owed (pending_emplace cid cb s) = owed s + ob RespCb cb" "asked (pending_emplace cid cb s) = asked s"
  "queue_ok (pending_emplace cid cb s) = queue_ok s"
  by (auto simp: pending_emplace_def split: option.split) (simp_all add: owed_defs)

lemma AsyncUnaryCall_task_owed:
  assumes "queue_ok s"
  shows "owed (AsyncUnaryCall_task mid req cb s) = owed s + ob RespCb cb"
    "asked (AsyncUnaryCall_task mid req cb s) = asked s" "queue_ok (AsyncUnaryCall_task mid req cb s)"
  using assms
  by (simp_all add: AsyncUnaryCall_task_def Let_def post_response_owed pending_emplace_owed)

lemma Shutdown_task_owed:
  assumes "queue_ok s"
  shows "owed (Shutdown_task A s) = owed s" "asked (Shutdown_task A s) = asked s" "queue_ok (Shutdown_task A s)"
proof -
  define u where "u = FailAllPending channel_shutdown False
    (s\<lparr>conn_state := Closed, socket := asio_close A (socket s)\<rparr>)"
  have u: "owed u = owed s" "asked u = asked s" "queue_ok u"
    using assms by (simp_all add: u_def FailAllPending_owed)
  define t where "t = fold (\<lambda>cb s. call_connect cb channel_shutdown s) (connect_waiters u) (u\<lparr>connect_waiters := []\<rparr>)"
  have "owed t = owed (u\<lparr>connect_waiters := []\<rparr>) + (\<Sum>cb\<leftarrow>connect_waiters u. ob ConnCb cb) \<and>
      queue_ok t \<and> asked t = asked (u\<lparr>connect_waiters := []\<rparr>)"
    unfolding t_def by (rule fold_owed) (use u in simp_all)
  moreover have "Shutdown_task A s = t" by (simp add: Shutdown_task_def t_def u_def Let_def)
  ultimately show "owed (Shutdown_task A s) = owed s" "asked (Shutdown_task A s) = asked s" "queue_ok (Shutdown_task A s)"
    using u owed_waiters [of u] by simp_all
qed

lemma sum_list_map_of:
  fixes f :: "'b \<Rightarrow> 'c multiset"
  assumes "distinct (map fst xs)" and "map_of xs k = Some v"
  shows "(\<Sum>e\<leftarrow>xs. f (snd e)) = f v + (\<Sum>e\<leftarrow>filter (\<lambda>(k', _). k' \<noteq> k) xs. f (snd e))"
  using assms
proof (induction xs)
  case (Cons x xs)
  obtain k' v' where x: "x = (k', v')" by (cases x)
  show ?case
  proof (cases "k' = k")
    case True
    have "filter (\<lambda>(k', _). k' \<noteq> k) xs = xs"
      using Cons.prems True x by (force simp: filter_id_conv)
    with True Cons.prems x show ?thesis by simp
  next
    case False
    with Cons x show ?thesis by (simp add: ac_simps)
  qed
qed simp

lemma ReadLoop_owed:
  fixes s :: "'s chan"
  assumes "queue_ok s" and "distinct (map fst (pending s))"
  shows "owed (ReadLoop_turn A s) = owed s" "asked (ReadLoop_turn A s) = asked s" "queue_ok (ReadLoop_turn A s)"
proof -
  have resp: "owed (ReadLoop_response hdr pl u) = owed u \<and> asked (ReadLoop_response hdr pl u) = asked u \<and>
      queue_ok (ReadLoop_response hdr pl u)"
    if "queue_ok u" "distinct (map fst (pending u))" for hdr pl and u :: "'s chan"
  proof (cases "map_of (pending u) (call_id hdr)")
    case None
    then show ?thesis using that by (simp add: ReadLoop_response_eq)
  next
    case (Some cb)
    let ?u = "u\<lparr>pending := filter (\<lambda>(k, _). k \<noteq> call_id hdr) (pending u)\<rparr>"
    have "owed u = owed ?u + ob RespCb cb"
      using sum_list_map_of [OF that(2) Some, of "ob RespCb"] by (simp add: owed_defs)
    then show ?thesis using Some that(1) by (simp add: ReadLoop_response_eq post_response_owed)
  qed
  show "owed (ReadLoop_turn A s) = owed s" "asked (ReadLoop_turn A s) = asked s" "queue_ok (ReadLoop_turn A s)"
    using assms resp [of "s\<lparr>socket := _\<rparr>"]
    by (auto simp: ReadLoop_turn_def ReadLoop_frame_def Let_def FailAllPending_owed post_deferred_owed split: prod.split)
qed

lemma WritePump_owed:
  assumes "queue_ok s"
  shows "owed (WritePump_loop s) = owed s" "asked (WritePump_loop s) = asked s" "queue_ok (WritePump_loop s)"
    "owed (WritePump_wrote A h p s) = owed s" "asked (WritePump_wrote A h p s) = asked s"
    "queue_ok (WritePump_wrote A h p s)"
proof -
  have loop: "owed (WritePump_loop s) = owed s" "asked (WritePump_loop s) = asked s" "queue_ok (WritePump_loop s)"
    if "queue_ok s" for s :: "'a chan" using that by (auto simp: WritePump_loop_def split: list.split)
  show "owed (WritePump_loop s) = owed s" "asked (WritePump_loop s) = asked s" "queue_ok (WritePump_loop s)"
    using assms by (simp_all add: loop)
  show "owed (WritePump_wrote A h p s) = owed s" "asked (WritePump_wrote A h p s) = asked s"
    "queue_ok (WritePump_wrote A h p s)"
    using assms by (auto simp: WritePump_wrote_def Let_def FailAllPending_owed loop split: prod.split)
qed

lemma pop_owed:
  assumes "queue_ok s" and "cq_pop (cb_queue s) = (Some c, q)"
  shows "owed s = owed (s\<lparr>cb_queue := q\<rparr>) + ob_comp c" "queue_ok (s\<lparr>cb_queue := q\<rparr>)" "comp_ok c"
  using assms cq.pop_Some [of "cb_queue s" c q]
  by (auto simp: owed_defs queue_ok_def)

lemma run_completion_owed:
  assumes "comp_ok c"
  shows "owed (run_completion c s) = owed s + ob_comp c" "asked (run_completion c s) = asked s"
    "queue_ok (run_completion c s) = queue_ok s"
proof -
  have "kind c = Response \<or> kind c = Deferred" by (cases "kind c") auto
  then show "owed (run_completion c s) = owed s + ob_comp c" "asked (run_completion c s) = asked s"
    "queue_ok (run_completion c s) = queue_ok s"
    using assms by (auto simp: run_completion_def comp_ok_def ob_comp_def split: option.split)
qed

lemma RunCallbacks_loop_owed:
  assumes "queue_ok s"
  shows "owed (snd (RunCallbacks_loop k n s)) = owed s \<and> asked (snd (RunCallbacks_loop k n s)) = asked s \<and>
    queue_ok (snd (RunCallbacks_loop k n s))"
  using assms
proof (induction k n s rule: RunCallbacks_loop.induct)
  case (2 k n s)
  obtain r q where rq: "cq_pop (cb_queue s) = (r, q)" by (cases "cq_pop (cb_queue s)")
  show ?case
  proof (cases r)
    case None
    with rq 2(2) have "cq_items (cb_queue s) = []" "cq_items q = []" "cq_wf q"
      using cq.pop_None [of "cb_queue s" q] cq.wf_pop [of "cb_queue s"] by (auto simp: queue_ok_def)
    then show ?thesis using rq None 2(2) by (simp add: owed_defs queue_ok_def)
  next
    case (Some c)
    note p = pop_owed [OF 2(2) rq [unfolded Some]]
    have "queue_ok (run_completion c (s\<lparr>cb_queue := q\<rparr>))" using p by (simp add: run_completion_owed)
    from 2(1) [OF rq [symmetric] Some this] show ?thesis
      using rq Some p by (simp add: run_completion_owed)
  qed
qed simp

lemma sum_dropped_deleted: "(\<Sum>e\<leftarrow>deleted c. ev_dropped e) = ob_comp c" "(\<Sum>e\<leftarrow>deleted c. ev_done e) = {#}"
  "(\<Sum>e\<leftarrow>deleted c. ev_asked e) = {#}"
  by (auto simp: deleted_def ob_comp_def split: option.split thunk.split)

lemma sum_dropped_all:
  "(\<Sum>e\<leftarrow>concat (map deleted cs). ev_dropped e) = (\<Sum>c\<leftarrow>cs. ob_comp c)"
  "(\<Sum>e\<leftarrow>concat (map deleted cs). ev_done e) = {#}" "(\<Sum>e\<leftarrow>concat (map deleted cs). ev_asked e) = {#}"
  by (induction cs) (simp_all add: sum_dropped_deleted)

lemma sum_lost:
  "(\<Sum>e\<leftarrow>[ConnectDropped c. Some c \<leftarrow> ws]. ev_dropped e) = (\<Sum>cb\<leftarrow>ws. ob ConnCb cb)"
  "(\<Sum>e\<leftarrow>[ConnectDropped c. Some c \<leftarrow> ws]. ev_done e) = {#}"
  "(\<Sum>e\<leftarrow>[ConnectDropped c. Some c \<leftarrow> ws]. ev_asked e) = {#}"
  by (induction ws) (auto split: option.split)

lemma Shutdown_end_owed:
  assumes "Shutdown_end s = Some t" and "queue_ok s"
  shows "owed t = owed s" "asked t = asked s" "queue_ok t" "cq_items (cb_queue t) = []"
proof -
  from assms(1) obtain cs q where cs: "cq_drain (cb_queue s) = Some (cs, q)"
    and t: "t = s\<lparr>cb_queue := q, phase := Stopped, events := events s @ concat (map deleted cs)\<rparr>"
    by (elim Shutdown_endE)
  from assms(2) cq_drain_wf [of "cb_queue s"] cs
  have "cs = cq_items (cb_queue s)" "cq_wf q" "cq_items q = []" by (auto simp: queue_ok_def)
  then show "owed t = owed s" "asked t = asked s" "queue_ok t" "cq_items (cb_queue t) = []"
    using assms(2) by (simp_all add: t owed_defs asked_def queue_ok_def sum_dropped_all ac_simps)
qed

lemma Shutdown_owed:
  assumes "Shutdown s = Some t" and "queue_ok s"
  shows "owed t = owed s \<and> asked t = asked s \<and> queue_ok t"
  using assms(1)
proof (cases rule: ShutdownE)
  case started
  have "owed (s\<lparr>strand := strand s @ [T_Shutdown]\<rparr>) = owed s" by (simp add: owed_defs)
  then show ?thesis using started assms(2) by (simp add: owed_defs)
next
  case (unstarted u)
  have u: "owed u = owed s" "asked u = asked s" "queue_ok u"
    using assms(2) by (simp_all add: unstarted(3) FailAllPending_owed)
  let ?v = "u\<lparr>connect_waiters := [], events := events u @ [ConnectDropped c. Some c \<leftarrow> connect_waiters u]\<rparr>"
  have "owed ?v = owed u" by (simp add: owed_defs sum_lost ac_simps)
  moreover have "asked ?v = asked u" by (simp add: asked_def sum_lost)
  moreover have "queue_ok ?v" using u by (simp add: queue_ok_def)
  ultimately show ?thesis using Shutdown_end_owed [OF unstarted(4)] u by simp
qed (use assms in simp)

subsection \<open>The balance\<close>

definition balance :: "'s chan \<Rightarrow> bool" where
  "balance s \<longleftrightarrow> queue_ok s \<and> distinct (map fst (pending s)) \<and> asked s = owed s"

lemma balanceI:
  assumes "balance s" and "queue_ok s \<Longrightarrow> queue_ok t" and "queue_ok s \<Longrightarrow> owed t = owed s"
    and "queue_ok s \<Longrightarrow> asked t = asked s" and "distinct (map fst (pending s)) \<Longrightarrow> distinct (map fst (pending t))"
  shows "balance t"
  using assms by (simp add: balance_def)

lemma balance_grow:
  assumes "balance s" and "queue_ok s \<Longrightarrow> (\<exists>X. owed t = owed s + X \<and> asked t = asked s + X) \<and> queue_ok t"
    and "pending t = pending s"
  shows "balance t"
  using assms by (auto simp: balance_def)

lemma pending_api [simp]:
  "pending (RequestConnect cb s) = pending s" "pending (AsyncUnaryCall b mid req cb s) = pending s"
  "pending (snd (Connect b s)) = pending s" "pending (resume_waiting w st s) = pending s"
  "pending (RequestConnect_task cb s) = pending s" "pending (ConnectCoro_resolved err s) = pending s"
  "pending (ConnectCoro_connected r s) = pending s" "pending (ConnectCoro_wrote A s) = pending s"
  "pending (ConnectCoro_read A s) = pending s" "pending (WritePump_loop s) = pending s"
  by (auto simp: op_defs split: op_splits)

lemma keys_ops:
  assumes "distinct (map fst (pending s))"
  shows "distinct (map fst (pending (ReadLoop_turn A s)))"
    "distinct (map fst (pending (WritePump_wrote A h p s)))"
    "distinct (map fst (pending (AsyncUnaryCall_task mid req cb s)))"
  using assms
  by (auto simp: ReadLoop_turn_def ReadLoop_frame_def ReadLoop_response_eq WritePump_wrote_def
      AsyncUnaryCall_task_def pending_emplace_def enqueue_frame_def log_event_def Let_def distinct_map_filter
      map_of_eq_None_iff WritePump_loop_def
      split: prod.split option.split list.split)

lemma owed_strand: "strand s = t # ts \<Longrightarrow> owed s = owed (s\<lparr>strand := ts\<rparr>) + ob_task t"
  by (simp add: owed_defs)

lemma balance_task:
  assumes "balance s" and "strand s = tk # ts"
  shows "balance (run_task A tk (s\<lparr>strand := ts\<rparr>))"
  using assms owed_strand [OF assms(2)]
  by (cases tk)
    (auto simp: balance_def RequestConnect_task_owed AsyncUnaryCall_task_owed Shutdown_task_owed keys_ops)

lemma balance_init: "chan_init s \<Longrightarrow> balance s"
  by (auto simp: chan_init_def CreateChannel_def Channel_new_def balance_def queue_ok_def owed_defs asked_def
      cq.wf_empty cq.items_empty)

lemma balance_step: "chan_step A s t \<Longrightarrow> balance s \<Longrightarrow> balance t"
proof (induction rule: chan_step.induct)
  case (call b s mid req cb)
  from call(2) AsyncUnaryCall_owed show ?case by (rule balance_grow) simp_all
next
  case (call_future b s mid req)
  from call_future(2) have "balance (s\<lparr>next_promise := Suc (next_promise s)\<rparr>)" by (rule balanceI) simp_all
  from this AsyncUnaryCall_owed show ?case
    unfolding AsyncUnaryCall_future_def Let_def snd_conv by (rule balance_grow) simp_all
next
  case (connect b s)
  from connect(2) show ?case by (rule balance_grow) (use Connect_owed [of b s] in simp_all)
next
  case (connect_async b s cb)
  from connect_async(2) show ?case
    unfolding ConnectAsync_def by (rule balance_grow) (auto simp: RequestConnect_owed)
next
  case (resume w s st)
  from resume(4) show ?case by (rule balanceI) (simp_all add: resume_waiting_owed resume)
next
  case (run_callbacks s mx)
  from run_callbacks(2) show ?case
    unfolding RunCallbacks_def by (rule balanceI) (use RunCallbacks_loop_owed [of s] in simp_all)
next
  case (shutdown s t)
  have keys: "distinct (map fst (pending t))" if "distinct (map fst (pending s))"
    using shutdown(2) that by (elim ShutdownE Shutdown_endE) simp_all
  from shutdown(3) show ?case
    by (rule balanceI) (use Shutdown_owed [OF shutdown(2)] keys in simp_all)
next
  case (join s t)
  have "pending t = pending s" using join(3) by (elim Shutdown_endE) simp
  with join(4) show ?case by (intro balanceI [of s t]) (simp_all add: Shutdown_end_owed [OF join(3)])
next
  case (task s tk ts)
  then show ?case by (simp add: balance_task)
qed (auto simp: ConnectCoro_owed ReadLoop_owed WritePump_owed keys_ops balance_def SetInterceptor_def OnTrace_def)

subsection \<open>Call ids and drops\<close>

text \<open>
  The \<open>n\<close>-th call gets the id \<open>n\<close>, modulo \<open>2\<^sup>3\<^sup>2\<close>, and every pending id was given to a queued call.
\<close>

definition id_inv :: "'s chan \<Rightarrow> bool" where
  "id_inv s \<longleftrightarrow>
     next_call_id s = of_nat (Suc (length (queued (events s)))) \<and>
     (\<forall>i < length (queued (events s)). call_id (fst (queued (events s) ! i)) = of_nat (Suc i)) \<and>
     fst ` set (pending s) \<subseteq> given_ids (length (queued (events s)))"

text \<open>Callbacks are dropped by a wrapped call id, or at the end of a shutdown under manual dispatch.\<close>

definition drop_inv :: "'s chan \<Rightarrow> bool" where
  "drop_inv s \<longleftrightarrow>
     (length (queued (events s)) \<le> 2 ^ 32 \<longrightarrow> phase s \<noteq> Stopped \<or> dispatch (config s) = Inline \<longrightarrow>
        filter is_drop (events s) = [])"

lemma id_inv_view:
  assumes "pump_view t = pump_view s" and "fst ` set (pending t) \<subseteq> fst ` set (pending s)" and "id_inv s"
  shows "id_inv t"
  using assms(1,3) subset_trans [OF assms(2)] by (simp add: id_inv_def pump_view_def)

lemma drop_inv_view:
  assumes "pump_view t = pump_view s" and "phase t = phase s" and "config t = config s" and "drop_inv s"
  shows "drop_inv t"
  using assms unfolding drop_inv_def pump_view_def by simp

lemma pending_core: "same_core s t \<Longrightarrow> pending t = pending s"
  by (rule same_core_fields)

lemma pending_keys:
  "fst ` set (pending (ReadLoop_turn A s)) \<subseteq> fst ` set (pending s)"
  "fst ` set (pending (WritePump_wrote A h p s)) \<subseteq> fst ` set (pending s)"
  by (auto simp: ReadLoop_turn_def ReadLoop_frame_def ReadLoop_response_eq WritePump_wrote_def Let_def
      log_event_def split: prod.split option.split)

lemma config_ops [simp]:
  "config (RequestConnect cb s) = config s" "config (AsyncUnaryCall b mid req cb s) = config s"
  "config (snd (Connect b s)) = config s" "config (resume_waiting w st s) = config s"
  "config (ConnectCoro_resolved err s) = config s"
  "config (ConnectCoro_connected r s) = config s" "config (ConnectCoro_wrote A s) = config s"
  "config (ConnectCoro_read A s) = config s" "config (WritePump_loop s) = config s"
  "config (WritePump_wrote A h p s) = config s" "config (ReadLoop_turn A s) = config s"
  by (auto simp: op_defs split: op_splits)

lemma config_task [simp]: "config (run_task A tk s) = config s"
  by (cases tk) (auto simp: op_defs split: op_splits)

lemma phase_ops [simp]:
  "phase (RequestConnect cb s) = phase s" "phase (AsyncUnaryCall b mid req cb s) = phase s"
  "phase (snd (Connect b s)) = phase s" "phase (resume_waiting w st s) = phase s"
  by (auto simp: op_defs split: op_splits)

lemma id_inv_same:
  assumes "id_inv s" and "next_call_id t = next_call_id s" and "queued (events t) = queued (events s)"
    and "fst ` set (pending t) \<subseteq> fst ` set (pending s)"
  shows "id_inv t"
  using assms(1-3) subset_trans [OF assms(4)] by (simp add: id_inv_def)

lemma drop_inv_same:
  assumes "drop_inv s" and "queued (events t) = queued (events s)" and "phase t = phase s"
    and "config t = config s" and "filter is_drop (events t) = filter is_drop (events s)"
  shows "drop_inv t"
  using assms by (simp add: drop_inv_def)

lemma FailAllPending_frames:
  "queued (events (FailAllPending st d s)) = queued (events s)"
  "filter is_drop (events (FailAllPending st d s)) = filter is_drop (events s)"
  using pump_view_FailAllPending [of st d s] by (simp_all add: pump_view_def)

lemma pump_effect:
  "next_call_id (WritePump_loop s) = next_call_id s" "queued (events (WritePump_loop s)) = queued (events s)"
  "filter is_drop (events (WritePump_loop s)) = filter is_drop (events s)" "phase (WritePump_loop s) = phase s"
  "next_call_id (WritePump_wrote A h p s) = next_call_id s"
  "queued (events (WritePump_wrote A h p s)) = queued (events s)"
  "filter is_drop (events (WritePump_wrote A h p s)) = filter is_drop (events s)"
  "phase (WritePump_wrote A h p s) = phase s"
  by (auto simp: WritePump_loop_def WritePump_wrote_def log_event_def Let_def FailAllPending_frames
      split: prod.split list.split)

lemma id_drop_pump:
  assumes "id_inv s" "drop_inv s"
  shows "id_inv (WritePump_loop s) \<and> drop_inv (WritePump_loop s)"
    "id_inv (WritePump_wrote A h p s) \<and> drop_inv (WritePump_wrote A h p s)"
proof -
  have "id_inv (WritePump_loop s)" "id_inv (WritePump_wrote A h p s)"
    by (rule id_inv_same [OF assms(1)]; simp add: pump_effect pending_keys(2))+
  moreover have "drop_inv (WritePump_loop s)" "drop_inv (WritePump_wrote A h p s)"
    by (rule drop_inv_same [OF assms(2)]; simp add: pump_effect)+
  ultimately show "id_inv (WritePump_loop s) \<and> drop_inv (WritePump_loop s)"
    "id_inv (WritePump_wrote A h p s) \<and> drop_inv (WritePump_wrote A h p s)" by simp_all
qed

text \<open>A call that is not dropped gets a fresh id unless the counter has gone round.\<close>

lemma id_drop_call:
  assumes "id_inv s" "drop_inv s"
  shows "id_inv (AsyncUnaryCall_task mid req cb s) \<and> drop_inv (AsyncUnaryCall_task mid req cb s)"
proof (cases "stopped s")
  case True
  have "id_inv (post_response cb channel_shutdown [] s)"
    by (rule id_inv_view [OF _ _ assms(1)]) simp_all
  moreover have "drop_inv (post_response cb channel_shutdown [] s)"
    by (rule drop_inv_view [OF _ _ _ assms(2)]) simp_all
  ultimately show ?thesis using True by (simp add: AsyncUnaryCall_task_def)
next
  case False
  let ?n = "length (queued (events s))"
  define hdr where "hdr = FrameHeader_default\<lparr>frame_type := kRequest, call_id := next_call_id s,
    method_id := mid, payload_size := of_nat (length req)\<rparr>"
  define u where "u = pending_emplace (next_call_id s) cb (s\<lparr>next_call_id := next_call_id s + 1\<rparr>)"
  have t: "AsyncUnaryCall_task mid req cb s = enqueue_frame hdr req u"
    using False by (simp add: AsyncUnaryCall_task_def u_def hdr_def Let_def)
  have id: "next_call_id s = of_nat (Suc ?n)" and given: "fst ` set (pending s) \<subseteq> given_ids ?n"
    using assms(1) by (simp_all add: id_inv_def)
  have u: "queued (events u) = queued (events s)" "next_call_id u = next_call_id s + 1"
    "phase u = phase s" "config u = config s" "fst ` set (pending u) \<subseteq> insert (next_call_id s) (fst ` set (pending s))"
    "next_call_id s \<notin> fst ` set (pending s) \<Longrightarrow> filter is_drop (events u) = filter is_drop (events s)"
    using drop_events [of "[ResponseDropped c]" for c]
    by (auto simp: u_def pending_emplace_def log_event_def map_of_eq_None_iff split: option.split)
  have e: "queued (events (enqueue_frame hdr req u)) = queued (events s) @ [(hdr, req)]"
    "next_call_id (enqueue_frame hdr req u) = next_call_id s + 1" "pending (enqueue_frame hdr req u) = pending u"
    "filter is_drop (events (enqueue_frame hdr req u)) = filter is_drop (events u)"
    "phase (enqueue_frame hdr req u) = phase s" "config (enqueue_frame hdr req u) = config s"
    using u by (simp_all add: enqueue_frame_def log_event_def Let_def)
  have "fst ` set (pending u) \<subseteq> given_ids (Suc ?n)" using u(5) given id by (auto simp: given_ids_Suc)
  moreover have "call_id (fst ((queued (events s) @ [(hdr, req)]) ! i)) = of_nat (Suc i)" if "i < Suc ?n" for i
    using that assms(1) id by (cases "i = ?n") (auto simp: id_inv_def nth_append hdr_def)
  ultimately have 1: "id_inv (enqueue_frame hdr req u)" using id by (simp add: id_inv_def e)
  have 2: "drop_inv (enqueue_frame hdr req u)"
    unfolding drop_inv_def e
  proof (intro impI)
    assume n: "length (queued (events s) @ [(hdr, req)]) \<le> 2 ^ 32"
      and ph: "phase s \<noteq> Stopped \<or> dispatch (config s) = Inline"
    then have "next_call_id s \<notin> given_ids ?n" unfolding id by (intro fresh_id) simp
    then have "filter is_drop (events u) = filter is_drop (events s)" using u(6) given by blast
    also have "\<dots> = []" using assms(2) n ph by (simp add: drop_inv_def)
    finally show "filter is_drop (events u) = []" .
  qed
  from 1 2 show ?thesis by (simp add: t)
qed

lemma id_drop_view:
  assumes "id_inv s" "drop_inv s" and "pump_view t = pump_view s"
    and "fst ` set (pending t) \<subseteq> fst ` set (pending s)" and "phase t = phase s" and "config t = config s"
  shows "id_inv t \<and> drop_inv t"
  using id_inv_view [OF assms(3,4,1)] drop_inv_view [OF assms(3,5,6,2)] by simp

lemma Shutdown_end_drop:
  assumes "Shutdown_end s = Some t" and "queue_ok s" "id_inv s" "drop_inv s" "phase s \<noteq> Stopped"
  shows "id_inv t \<and> drop_inv t"
proof -
  from assms(1) obtain cs q where cs: "cq_drain (cb_queue s) = Some (cs, q)"
    and t: "t = s\<lparr>cb_queue := q, phase := Stopped, events := events s @ concat (map deleted cs)\<rparr>"
    by (elim Shutdown_endE)
  from assms(2) cq_drain_wf [of "cb_queue s"] cs
  have items: "cs = cq_items (cb_queue s)" by (auto simp: queue_ok_def)
  have q: "queued (concat (map deleted cs)) = []" using drop_events [OF drop_deleted] by simp
  have "id_inv t" by (rule id_inv_same [OF assms(3)]) (simp_all add: t q)
  moreover have "drop_inv t"
    using assms(2,4,5) items by (auto simp: t q drop_inv_def queue_ok_def)
  ultimately show ?thesis by simp
qed

lemma Shutdown_drop:
  assumes "Shutdown s = Some t" and "chan_inv s" "queue_ok s" "id_inv s" "drop_inv s"
  shows "id_inv t \<and> drop_inv t"
  using assms(1)
proof (cases rule: ShutdownE)
  case started
  have "phase s \<noteq> Stopped" using assms(2) started(1) by (simp add: chan_inv_def phase_inv_def)
  moreover have "id_inv t" by (rule id_inv_same [OF assms(4)]) (simp_all add: started(3))
  ultimately show ?thesis using assms(5) by (simp add: started(3) drop_inv_def)
next
  case (unstarted u)
  have "conn_state s \<noteq> Connecting" "phase s \<noteq> Stopped"
    using assms(2) unstarted(1,2) by (simp_all add: chan_inv_def phase_inv_def io_inv_def)
  then have w: "connect_waiters u = []" and ph: "phase u \<noteq> Stopped"
    using assms(2) by (auto simp: unstarted(3) chan_inv_def coro_inv_def)
  have "id_inv u \<and> drop_inv u"
    by (rule id_drop_view [OF assms(4,5)]) (simp_all add: unstarted(3))
  moreover have "queue_ok u" using assms(3) by (simp add: unstarted(3) FailAllPending_owed)
  moreover have "u\<lparr>connect_waiters := [], events := events u @ [ConnectDropped c. Some c \<leftarrow> connect_waiters u]\<rparr> = u"
    using w by simp
  ultimately show ?thesis using Shutdown_end_drop [of u t] unstarted(4) ph by simp
qed (use assms in simp)

lemma id_drop_step:
  "chan_step A s t \<Longrightarrow> chan_inv s \<Longrightarrow> queue_ok s \<Longrightarrow> id_inv s \<Longrightarrow> drop_inv s \<Longrightarrow> id_inv t \<and> drop_inv t"
proof (induction rule: chan_step.induct)
  case (shutdown s t)
  from shutdown(2-6) show ?case by (rule Shutdown_drop)
next
  case (join s t)
  then show ?case by (intro Shutdown_end_drop [of s t]) simp_all
next
  case (task s tk ts)
  have s: "id_inv (s\<lparr>strand := ts\<rparr>)" "drop_inv (s\<lparr>strand := ts\<rparr>)"
    using id_drop_view [OF task(5,6), of "s\<lparr>strand := ts\<rparr>"] by simp_all
  show ?case
  proof (cases tk)
    case (T_Connect cb)
    then show ?thesis
      using same_runtime_task [of "s\<lparr>strand := ts\<rparr>" A tk] config_task [of A tk "s\<lparr>strand := ts\<rparr>"]
      by (intro id_drop_view [OF s]) (simp_all add: same_runtime_def)
  next
    case T_Shutdown
    then show ?thesis by (intro id_drop_view [OF s]) simp_all
  qed (use id_drop_call [OF s] in simp)
next
  case (read s)
  then show ?case
    using same_runtime_ops(5) [of s A]
    by (intro id_drop_view [of s]) (simp_all add: pending_keys same_runtime_def)
next
  case (pump_start s)
  then show ?case by (simp add: id_drop_pump)
next
  case (pump_wrote s h p)
  then show ?case by (simp add: id_drop_pump)
next
  case (resolved s h p err)
  then show ?case using same_runtime_ops(1) [of s err] by (intro id_drop_view [of s]) (simp_all add: same_runtime_def)
next
  case (connected s r)
  then show ?case using same_runtime_ops(2) [of s r] by (intro id_drop_view [of s]) (simp_all add: same_runtime_def)
next
  case (wrote_handshake s)
  then show ?case using same_runtime_ops(3) [of s A] by (intro id_drop_view [of s]) (simp_all add: same_runtime_def)
next
  case (read_handshake s)
  then show ?case using same_runtime_ops(4) [of s A] by (intro id_drop_view [of s]) (simp_all add: same_runtime_def)
next
  case (trace b s m rq rs st)
  have "same_core s (OnTrace m rq rs st s)" by (simp add: OnTrace_def same_core_log)
  from same_core_fields [OF this] pump_view_core [OF this] show ?case
    by (intro id_drop_view [OF trace(4,5)]) simp_all
qed (rule id_drop_view; simp add: AsyncUnaryCall_future_def ConnectAsync_def RunCallbacks_def
    SetInterceptor_def Let_def)+

text \<open>After the end of a shutdown nothing is queued and nothing runs.\<close>

definition stop_inv :: "'s chan \<Rightarrow> bool" where
  "stop_inv s \<longleftrightarrow> (phase s = Stopped \<longrightarrow> \<not> io_running s \<and> cq_items (cb_queue s) = [])"

lemma stop_inv_step:
  "chan_step A s t \<Longrightarrow> chan_inv s \<Longrightarrow> queue_ok s \<Longrightarrow> stop_inv s \<Longrightarrow> stop_inv t"
proof (induction rule: chan_step.induct)
  case (shutdown s t)
  from shutdown(2) show ?case
  proof (cases rule: ShutdownE)
    case (unstarted u)
    have "queue_ok u" using shutdown(4) by (simp add: unstarted(3) FailAllPending_owed)
    then have "cq_items (cb_queue t) = []"
      using Shutdown_end_owed(4) [OF unstarted(4)] by (simp add: queue_ok_def)
    moreover have "\<not> io_running t"
      using unstarted(2,4) shutdown(3) by (elim Shutdown_endE) (auto simp: unstarted(3) chan_inv_def io_inv_def)
    ultimately show ?thesis by (simp add: stop_inv_def)
  qed (use shutdown in \<open>simp_all add: stop_inv_def\<close>)
next
  case (join s t)
  from join(2,3) Shutdown_end_owed(4) [OF join(3)] join(5) show ?case
    by (elim Shutdown_endE) (simp add: stop_inv_def)
next
  case (task s tk ts)
  then show ?case using same_runtime_task [of "s\<lparr>strand := ts\<rparr>" A tk] by (simp add: stop_inv_def same_runtime_def)
next
  case (trace b s m rq rs st)
  have "same_core s (OnTrace m rq rs st s)" by (simp add: OnTrace_def same_core_log)
  from same_core_fields [OF this] trace show ?case by (simp add: stop_inv_def may_call_def)
next
  case (resolved s h p err)
  then show ?case using same_runtime_ops(1) [of s err] by (auto simp: stop_inv_def same_runtime_def)
next
  case (connected s r)
  then show ?case using same_runtime_ops(2) [of s r] by (auto simp: stop_inv_def same_runtime_def)
next
  case (wrote_handshake s)
  then show ?case using same_runtime_ops(3) [of s A] by (auto simp: stop_inv_def same_runtime_def)
next
  case (read_handshake s)
  then show ?case using same_runtime_ops(4) [of s A] by (auto simp: stop_inv_def same_runtime_def)
next
  case (read s)
  then show ?case using same_runtime_ops(5) [of s A] by (auto simp: stop_inv_def same_runtime_def)
qed (auto simp: stop_inv_def may_call_def AsyncUnaryCall_future_def ConnectAsync_def RunCallbacks_def
    SetInterceptor_def Let_def pump_effect)

subsection \<open>Every reachable state\<close>

definition full_inv :: "'s chan \<Rightarrow> bool" where
  "full_inv s \<longleftrightarrow> chan_inv s \<and> balance s \<and> id_inv s \<and> drop_inv s \<and> stop_inv s"

interpretation fi: inductive_invariant chan_init "chan_step A" full_inv for A :: "'s asio"
proof unfold_locales
  show "full_inv s" if "chan_init s" for s :: "'s chan"
    using that chan_inv_init [OF that] balance_init [OF that]
    by (auto simp: full_inv_def id_inv_def drop_inv_def stop_inv_def given_ids_def chan_init_def CreateChannel_def Channel_new_def)
  show "full_inv t" if "full_inv s" "chan_step A s t" for s t :: "'s chan"
    using that chan_inv_step [of s A t] balance_step [of A s t] id_drop_step [of A s t] stop_inv_step [of A s t]
    by (simp add: full_inv_def balance_def)
qed

subsection \<open>What the channel promises of its callbacks\<close>

text \<open>
  C2. No callback is lost and none is called twice: in every reachable state, under every
  interleaving and network behaviour, the callbacks handed to the channel are, counted with
  multiplicity, those in flight plus those that were called plus those that were destroyed
  without a call.
\<close>

theorem channel_balance:
  assumes "reachable chan_init (chan_step A) s"
  shows "asked s = in_flight s + discharged s + dropped s"
  using fi.invar_reachable [OF assms] by (simp add: full_inv_def balance_def owed_def)

theorem channel_balance_witness:
  "chan_reach (demo_sent Manual) \<and> asked (demo_sent Manual) = {#RespCb (User 7)#} \<and>
   {#RespCb (User 7)#} = in_flight (demo_sent Manual) + discharged (demo_sent Manual) + dropped (demo_sent Manual)"
  using channel_balance [OF demo_sent_reach [of Manual]] demo_sent_reach [of Manual]
  by (simp add: demo_sent_eq asked_def)

lemma sum_no_drops: "filter is_drop es = [] \<Longrightarrow> (\<Sum>e\<leftarrow>es. ev_dropped e) = {#}"
proof (induction es)
  case (Cons e es)
  then show ?case by (cases e) simp_all
qed simp

text \<open>
  C11. No callback is destroyed uncalled, unless the 32-bit call id has gone round or a shutdown
  under manual dispatch has ended.
\<close>

theorem channel_no_drop:
  assumes "reachable chan_init (chan_step A) s" and "length (queued (events s)) \<le> 2 ^ 32"
    and "phase s \<noteq> Stopped \<or> dispatch (config s) = Inline"
  shows "dropped s = {#}"
  using fi.invar_reachable [OF assms(1)] assms(2,3)
  by (simp add: full_inv_def drop_inv_def dropped_def sum_no_drops)

theorem channel_no_drop_witness:
  "chan_reach (demo_sent Manual) \<and> length (queued (events (demo_sent Manual))) = 1 \<and>
   phase (demo_sent Manual) = Running \<and> dropped (demo_sent Manual) = {#}"
proof -
  have 1: "length (queued (events (demo_sent Manual))) = 1" "phase (demo_sent Manual) = Running"
    by (simp_all add: demo_sent_eq queued_def demo_chan_defs)
  then have "length (queued (events (demo_sent Manual))) \<le> 2 ^ 32"
    "phase (demo_sent Manual) \<noteq> Stopped \<or> dispatch (config (demo_sent Manual)) = Inline" by simp_all
  from channel_no_drop [OF demo_sent_reach this] 1 demo_sent_reach [of Manual] show ?thesis by simp
qed







end
