(* ===== verification/Channel_Shutdown.thy ===== *)
theory Channel_Shutdown
  imports Channel_Balance
begin

text \<open>
  The end of a channel: once the shutdown task has closed the socket, the io thread runs out of
  work whatever the order in which its handlers run, so the \<open>join\<close> in \<open>Shutdown\<close> returns, and with it
  the destructor of the channel.
\<close>

subsection \<open>The io thread on its own\<close>












subsection \<open>Winding down\<close>



















end
