(* ===== verification/Method_Hash.thy ===== *)
theory Method_Hash
  imports Prelude
begin

text \<open>
  \<open>include/protocomm/method_hash.h\<close>: the 32-bit FNV-1a hash that turns a full method name into
  the method id of a frame. The argument is a C string: the loop ends at the first zero byte.
\<close>

subsection \<open>The hash\<close>

definition fnv_offset :: u32 where
  "fnv_offset = 0x811c9dc5"

definition fnv_prime :: u32 where
  "fnv_prime = 0x01000193"

text \<open>One turn of the loop.\<close>

definition fnv_step :: "u32 \<Rightarrow> byte \<Rightarrow> u32" where
  "fnv_step hash c = (hash XOR ucast c) * fnv_prime"

text \<open>The loop over the bytes of the string; the end of the list is the terminator.\<close>

fun Fnv1a32_loop :: "u32 \<Rightarrow> bytes \<Rightarrow> u32" where
  "Fnv1a32_loop hash [] = hash"
| "Fnv1a32_loop hash (c # s) = (if c = 0 then hash else Fnv1a32_loop (fnv_step hash c) s)"

definition Fnv1a32 :: "string \<Rightarrow> u32" where
  "Fnv1a32 s = Fnv1a32_loop fnv_offset (bytes_of_string s)"

subsection \<open>The step is a bijection\<close>

lemma fnv_prime_inverse: "fnv_prime * 0x359c449b = 1"
  by (simp add: fnv_prime_def)

lemma mult_prime_cancel: "x * fnv_prime = y * fnv_prime \<longleftrightarrow> x = y"
proof
  assume "x * fnv_prime = y * fnv_prime"
  then have "x * (fnv_prime * 0x359c449b) = y * (fnv_prime * 0x359c449b)"
    by (simp only: mult.assoc [symmetric])
  then show "x = y" by (simp only: fnv_prime_inverse mult_1_right)
qed simp

lemma xor_cancel_left: "(x XOR a = x XOR b) \<longleftrightarrow> a = b" for x a b :: u32
proof
  assume "x XOR a = x XOR b"
  then have "x XOR (x XOR a) = x XOR (x XOR b)" by simp
  then show "a = b" by (simp add: xor.assoc [symmetric])
qed simp

lemma xor_cancel_right: "(a XOR x = b XOR x) \<longleftrightarrow> a = b" for x a b :: u32
  by (simp add: xor.commute [of _ x] xor_cancel_left)

lemma ucast_byte_inject: "(ucast a :: u32) = ucast b \<longleftrightarrow> a = b" for a b :: byte
proof
  assume *: "(ucast a :: u32) = ucast b"
  have "bit (ucast c :: u32) n = bit c n" for c :: byte and n
    using bit_imp_le_length [of c n] by (auto simp: bit_simps)
  with * show "a = b" by (auto simp: bit_eq_iff)
qed simp

lemma fnv_step_inject_byte: "fnv_step h a = fnv_step h b \<longleftrightarrow> a = b"
  by (simp add: fnv_step_def mult_prime_cancel xor_cancel_left ucast_byte_inject)

lemma fnv_step_inject_hash: "fnv_step h c = fnv_step k c \<longleftrightarrow> h = k"
  by (simp add: fnv_step_def mult_prime_cancel xor_cancel_right)

lemma Fnv1a32_loop_append:
  "0 \<notin> set xs \<Longrightarrow> Fnv1a32_loop h (xs @ ys) = Fnv1a32_loop (Fnv1a32_loop h xs) ys"
  by (induction xs arbitrary: h) auto

lemma Fnv1a32_loop_inject: "Fnv1a32_loop h xs = Fnv1a32_loop k xs \<longleftrightarrow> h = k"
  by (induction xs arbitrary: h k) (auto simp: fnv_step_inject_hash)

lemma Fnv1a32_loop_fold: "0 \<notin> set xs \<Longrightarrow> Fnv1a32_loop h xs = fold (\<lambda>c h. fnv_step h c) xs h"
  by (induction xs arbitrary: h) auto

lemma of_char_byte_inject: "(of_char a :: byte) = of_char b \<longleftrightarrow> a = b"
proof
  assume eq: "(of_char a :: byte) = of_char b"
  have unat: "unat (of_char c :: byte) = of_char c" for c
  proof -
    have "(of_char c :: byte) = of_nat (of_char c)" by (rule of_nat_of_char [symmetric])
    then have "unat (of_char c :: byte) = of_char c mod 2 ^ LENGTH(8)" by (simp only: unat_of_nat)
    then show ?thesis by simp
  qed
  from arg_cong [OF eq, of unat] have "(of_char a :: nat) = of_char b" by (simp only: unat)
  then show "a = b" by (simp only: of_char_eq_iff)
qed simp

subsection \<open>Method ids\<close>

text \<open>
  Two method names that differ in exactly one character never get the same id: each turn of
  the loop is a bijection in the hash and injective in the byte.
\<close>

theorem Fnv1a32_one_char:
  assumes "a \<noteq> b" and "CHR 0x00 \<notin> set xs" and "a \<noteq> CHR 0x00" and "b \<noteq> CHR 0x00"
  shows "Fnv1a32 (xs @ a # ys) \<noteq> Fnv1a32 (xs @ b # ys)"
proof -
  let ?bs = "map of_char :: string \<Rightarrow> bytes"
  have "(of_char (CHR 0x00) :: byte) = 0" by simp
  then have zero: "(of_char c :: byte) = 0 \<longleftrightarrow> c = CHR 0x00" for c
    using of_char_byte_inject [of c "CHR 0x00"] by metis
  have xs: "0 \<notin> set (?bs xs)"
  proof
    assume "0 \<in> set (?bs xs)"
    then obtain c where "c \<in> set xs" "(of_char c :: byte) = 0" by (metis (no_types) imageE set_map)
    with assms(2) zero show False by metis
  qed
  have ab: "(of_char a :: byte) \<noteq> 0" "(of_char b :: byte) \<noteq> 0" "(of_char a :: byte) \<noteq> of_char b"
    using assms(1,3,4) zero of_char_byte_inject by metis+
  have *: "Fnv1a32 (xs @ c # ys) = Fnv1a32_loop (fnv_step (Fnv1a32_loop fnv_offset (?bs xs)) (of_char c)) (?bs ys)"
    if "(of_char c :: byte) \<noteq> 0" for c
    using Fnv1a32_loop_append [OF xs] that
    by (simp only: Fnv1a32_def bytes_of_string_def map_append list.map Fnv1a32_loop.simps if_False)
  show ?thesis
    using ab by (simp only: * Fnv1a32_loop_inject fnv_step_inject_byte not_False_eq_True)
qed

theorem Fnv1a32_one_char_witness:
  "Fnv1a32 ''/Greeter/SayHello1'' \<noteq> Fnv1a32 ''/Greeter/SayHello2''"
  using Fnv1a32_one_char [of "CHR ''1''" "CHR ''2''" "''/Greeter/SayHello''" "[]"] by simp

text \<open>
  The loop computes FNV-1a: it agrees with the published test vectors, and the ids of the
  project's example methods are all different.
\<close>

theorem Fnv1a32_vectors:
  "Fnv1a32 [] = 0x811c9dc5 \<and> Fnv1a32 ''a'' = 0xe40c292c \<and> Fnv1a32 ''foo'' = 0xa9f37ed7 \<and>
   Fnv1a32 ''foobar'' = 0xbf9cf968 \<and>
   distinct (map Fnv1a32 [''/Greeter/SayHello'', ''/Greeter/SayHello1'', ''/Greeter/SayHello2'',
     ''/math.Calculator/Add'', ''/math.Calculator/Subtract'', ''/math.Calculator/Multiply'',
     ''/math.Calculator/Divide'', ''/messaging.Chat/SendMessage'', ''/messaging.Chat/GetHistory'',
     ''/messaging.Chat/Ping''])"
  by (simp add: Fnv1a32_def bytes_of_string_def fnv_step_def fnv_offset_def fnv_prime_def)

end
