(* ===== verification/Generator.thy ===== *)
theory Generator
  imports Method_Hash "HOL-Library.Sublist"
begin

text \<open>
  \<open>protoc/generator_utils.cpp\<close> and \<open>protoc/generator.cpp\<close>: names and paths derived from a proto
  package, and the C++ header the plugin emits for a service. The descriptors come from protobuf;
  of each the records below keep the fields the generator reads. Emission is string
  concatenation and is modelled literally, with \<open>nl\<close> and \<open>dq\<close> for the newline and the
  double quote.
\<close>

subsection \<open>Descriptors\<close>

record MethodDescriptorProto =
  method_name :: string
  input_type :: string
  output_type :: string

record ServiceDescriptorProto =
  service_name :: string
  methods :: "MethodDescriptorProto list"

record FileDescriptorProto =
  file_name :: string
  package :: string
  services :: "ServiceDescriptorProto list"

record ServiceContext =
  ctx_file :: FileDescriptorProto
  svc :: ServiceDescriptorProto
  pkg :: string
  ns :: string
  svc_name :: string
  has_ns :: bool

subsection \<open>Names\<close>

definition ns_from_pkg :: "string \<Rightarrow> string" where
  "ns_from_pkg p = concat (map (\<lambda>c. if c = CHR ''.'' then ''::'' else [c]) p)"

definition service_full_name :: "string \<Rightarrow> string \<Rightarrow> string" where
  "service_full_name p s = (if p = [] then s else p @ ''.'' @ s)"

definition method_full_name :: "string \<Rightarrow> string \<Rightarrow> string \<Rightarrow> string" where
  "method_full_name p s m = ''/'' @ service_full_name p s @ ''/'' @ m"

definition output_path :: "string \<Rightarrow> string \<Rightarrow> string" where
  "output_path p s = (if p = [] then ''protocomm/'' @ s @ ''.h'' else ''protocomm/'' @ p @ ''/'' @ s @ ''.h'')"

text \<open>Drop a leading dot, turn dots into colons, double the colons.\<close>

definition proto_type_to_cpp :: "string \<Rightarrow> string" where
  "proto_type_to_cpp type =
     (let type = (if type \<noteq> [] \<and> type ! 0 = CHR ''.'' then drop 1 type else type);
          type = map (\<lambda>c. if c = CHR ''.'' then CHR '':'' else c) type
      in concat (map (\<lambda>c. if c = CHR '':'' then ''::'' else [c]) type))"

subsection \<open>Emission\<close>

definition nl :: string where
  "nl = [CHR 0x0A]"

definition dq :: string where
  "dq = [CHR 0x22]"

definition InputTypeCpp :: "MethodDescriptorProto \<Rightarrow> string" where
  "InputTypeCpp m = proto_type_to_cpp (input_type m)"

definition OutputTypeCpp :: "MethodDescriptorProto \<Rightarrow> string" where
  "OutputTypeCpp m = proto_type_to_cpp (output_type m)"

text \<open>\<open>substr\<close> up to \<open>find_last_of\<close> a dot: everything before the last dot, or all of it.\<close>

definition before_last_dot :: "string \<Rightarrow> string" where
  "before_last_dot s =
     (if CHR ''.'' \<in> set s then rev (tl (dropWhile (\<lambda>c. c \<noteq> CHR ''.'') (rev s))) else s)"

definition EmitPreamble :: "string \<Rightarrow> ServiceContext \<Rightarrow> string" where
  "EmitPreamble code ctx =
     (let fname = file_name (ctx_file ctx); pb_header = before_last_dot fname @ ''.pb.h''
      in code @ concat
        [''// Generated by protoc-gen-protocomm.  DO NOT EDIT!'' @ nl,
         ''// source: '' @ fname @ nl @ nl,
         ''#pragma once'' @ nl @ nl,
         ''#include <cstdint>'' @ nl,
         ''#include <functional>'' @ nl,
         ''#include <future>'' @ nl,
         ''#include <memory>'' @ nl,
         ''#include <string>'' @ nl,
         ''#include <utility>'' @ nl @ nl,
         ''#include '' @ dq @ pb_header @ dq @ nl,
         ''#include '' @ dq @ ''protocomm/async_call.h'' @ dq @ nl,
         ''#include '' @ dq @ ''protocomm/channel.h'' @ dq @ nl,
         ''#include '' @ dq @ ''protocomm/connection.h'' @ dq @ nl,
         ''#include '' @ dq @ ''protocomm/method_hash.h'' @ dq @ nl,
         ''#include '' @ dq @ ''protocomm/protobuf.h'' @ dq @ nl,
         ''#include '' @ dq @ ''protocomm/server.h'' @ dq @ nl,
         ''#include '' @ dq @ ''protocomm/server_context.h'' @ dq @ nl,
         ''#include '' @ dq @ ''protocomm/service.h'' @ dq @ nl,
         ''#include '' @ dq @ ''protocomm/status.h'' @ dq @ nl @ nl] @
        (if has_ns ctx then ''namespace '' @ ns ctx @ '' {'' @ nl @ nl else []))"

text \<open>The name of the constant that holds the id of a method.\<close>

definition method_id_name :: "string \<Rightarrow> string" where
  "method_id_name mname = ''k'' @ mname @ ''MethodId''"

definition method_constant :: "ServiceContext \<Rightarrow> MethodDescriptorProto \<Rightarrow> string" where
  "method_constant ctx m =
     (let mname = method_name m; key = method_full_name (pkg ctx) (svc_name ctx) mname
      in ''    static constexpr uint32_t k'' @ mname @ ''MethodId = ::protocomm::Fnv1a32('' @ dq @ key @ dq @ '');'' @ nl)"

definition EmitMethodConstants :: "string \<Rightarrow> ServiceContext \<Rightarrow> string" where
  "EmitMethodConstants code ctx = code @ concat (map (method_constant ctx) (methods (svc ctx))) @ nl"

text \<open>The three members of the stub for a method: blocking, future, callback.\<close>

definition stub_call :: "ServiceContext \<Rightarrow> MethodDescriptorProto \<Rightarrow> string" where
  "stub_call ctx m =
     (let inp = InputTypeCpp m; out = OutputTypeCpp m; mname = method_name m;
          mid = method_id_name mname; full = svc_name ctx @ ''.'' @ mname
      in concat
        [''        ::protocomm::Status '' @ mname @ ''('' @ nl,
         ''                const '' @ inp @ ''& request,'' @ nl,
         ''                '' @ out @ ''* response) {'' @ nl,
         ''            std::string req_bytes, resp_bytes;'' @ nl,
         ''            ::protocomm::Status s = ::protocomm::SerializeProto(request, req_bytes);'' @ nl,
         ''            if (!s.ok()) return s;'' @ nl,
         ''            const bool trace = channel_->Tracing();'' @ nl,
         ''            s = channel_->UnaryCall('' @ mid @ '', req_bytes, &resp_bytes);'' @ nl,
         ''            if (!s.ok()) {'' @ nl,
         ''                if (trace) channel_->OnTrace('' @ dq @ full @ dq @ '', ::protocomm::RenderProto(request), {}, s);'' @ nl,
         ''                return s;'' @ nl,
         ''            }'' @ nl,
         ''            ::protocomm::Status ps = ::protocomm::ParseProto(resp_bytes, *response);'' @ nl,
         ''            if (trace)'' @ nl,
         ''                channel_->OnTrace('' @ dq @ full @ dq @ '', ::protocomm::RenderProto(request),'' @ nl,
         ''                                  ps.ok() ? ::protocomm::RenderProto('' @ ''*response) : std::string{}, ps);'' @ nl,
         ''            return ps;'' @ nl,
         ''        }'' @ nl @ nl])"

definition stub_future_call :: "MethodDescriptorProto \<Rightarrow> string" where
  "stub_future_call m =
     (let inp = InputTypeCpp m; out = OutputTypeCpp m; mname = method_name m; mid = method_id_name mname
      in concat
        [''        ::protocomm::AsyncUnaryCall<'' @ out @ ''> Async'' @ mname @ ''('' @ nl,
         ''                const '' @ inp @ ''& request) {'' @ nl,
         ''            std::string req_bytes;'' @ nl,
         ''            ::protocomm::Status ser = ::protocomm::SerializeProto(request, req_bytes);'' @ nl,
         ''            if (!ser.ok()) {'' @ nl,
         ''                std::promise<std::pair<::protocomm::Status, std::string>> p;'' @ nl,
         ''                p.set_value({ser, {}});'' @ nl,
         ''                return ::protocomm::AsyncUnaryCall<'' @ out @ ''>(p.get_future());'' @ nl,
         ''            }'' @ nl,
         ''            return ::protocomm::AsyncUnaryCall<'' @ out @ ''>('' @ nl,
         ''                channel_->AsyncUnaryCall('' @ mid @ '', std::move(req_bytes)));'' @ nl,
         ''        }'' @ nl @ nl])"

definition stub_callback_call :: "ServiceContext \<Rightarrow> MethodDescriptorProto \<Rightarrow> string" where
  "stub_callback_call ctx m =
     (let inp = InputTypeCpp m; out = OutputTypeCpp m; mname = method_name m;
          mid = method_id_name mname; full = svc_name ctx @ ''.'' @ mname
      in concat
        [''        void Async'' @ mname @ ''('' @ nl,
         ''                const '' @ inp @ ''& request,'' @ nl,
         ''                std::function<void(::protocomm::Status, '' @ out @ '')> on_response) {'' @ nl,
         ''            std::string req_bytes;'' @ nl,
         ''            ::protocomm::Status ser = ::protocomm::SerializeProto(request, req_bytes);'' @ nl,
         ''            if (!ser.ok()) {'' @ nl,
         ''                if (on_response) on_response(ser, '' @ out @ ''{});'' @ nl,
         ''                return;'' @ nl,
         ''            }'' @ nl,
         ''            auto ch = channel_;'' @ nl,
         ''            const bool trace = ch->Tracing();'' @ nl,
         ''            std::string req_text = trace ? ::protocomm::RenderProto(request) : std::string{};'' @ nl,
         ''            ch->AsyncUnaryCall('' @ mid @ '', std::move(req_bytes),'' @ nl,
         ''                [ch, cb = std::move(on_response), trace, req_text = std::move(req_text)]'' @ nl,
         ''                (::protocomm::Status st, std::string bytes) {'' @ nl,
         ''                    '' @ out @ '' resp;'' @ nl,
         ''                    ::protocomm::Status ps = st;'' @ nl,
         ''                    if (st.ok()) ps = ::protocomm::ParseProto(bytes, resp);'' @ nl,
         ''                    if (trace)'' @ nl,
         ''                        ch->OnTrace('' @ dq @ full @ dq @ '', req_text,'' @ nl,
         ''                                    (st.ok() && ps.ok()) ? ::protocomm::RenderProto(resp) : std::string{},'' @ nl,
         ''                                    ps.ok() ? st : ps);'' @ nl,
         ''                    if (!cb) return;'' @ nl,
         ''                    if (!st.ok()) { cb(st, '' @ out @ ''{}); return; }'' @ nl,
         ''                    if (!ps.ok()) { cb(ps, '' @ out @ ''{}); return; }'' @ nl,
         ''                    cb(::protocomm::Status{}, std::move(resp));'' @ nl,
         ''                });'' @ nl,
         ''        }'' @ nl @ nl])"

definition EmitStubClass :: "string \<Rightarrow> ServiceContext \<Rightarrow> string" where
  "EmitStubClass code ctx =
     code @ concat
        [''    class Stub {'' @ nl,
         ''    public:'' @ nl,
         ''        explicit Stub(std::shared_ptr<::protocomm::ChannelInterface> channel)'' @ nl,
         ''            : channel_(std::move(channel)) {}'' @ nl @ nl] @
     concat (map (\<lambda>m. stub_call ctx m @ stub_future_call m @ stub_callback_call ctx m) (methods (svc ctx))) @
     concat
        [''    private:'' @ nl,
         ''        std::shared_ptr<::protocomm::ChannelInterface> channel_;'' @ nl,
         ''    };'' @ nl @ nl]"

definition peer_writer_send :: "MethodDescriptorProto \<Rightarrow> string" where
  "peer_writer_send m =
     (let out = OutputTypeCpp m; mname = method_name m; mid = method_id_name mname
      in concat
        [''        void Send'' @ mname @ ''(const '' @ out @ ''& message) {'' @ nl,
         ''            std::string bytes;'' @ nl,
         ''            ::protocomm::SerializeProto(message, bytes);'' @ nl,
         ''            peer_->Send('' @ mid @ '', bytes);'' @ nl,
         ''        }'' @ nl @ nl])"

definition EmitPeerWriterClass :: "string \<Rightarrow> ServiceContext \<Rightarrow> string" where
  "EmitPeerWriterClass code ctx =
     code @ concat
        [''    class PeerWriter {'' @ nl,
         ''    public:'' @ nl,
         ''        explicit PeerWriter(std::shared_ptr<::protocomm::Peer> peer)'' @ nl,
         ''            : peer_(std::move(peer)) {}'' @ nl @ nl,
         ''        uint64_t id() const { return peer_->id(); }'' @ nl,
         ''        const std::string& peer_address() const { return peer_->peer_address(); }'' @ nl,
         ''        void Close() { peer_->Close(); }'' @ nl,
         ''        const std::shared_ptr<::protocomm::Peer>& peer() const { return peer_; }'' @ nl @ nl] @
     concat (map peer_writer_send (methods (svc ctx))) @
     concat
        [''    private:'' @ nl,
         ''        std::shared_ptr<::protocomm::Peer> peer_;'' @ nl,
         ''    };'' @ nl @ nl]"

definition broadcaster_send :: "MethodDescriptorProto \<Rightarrow> string" where
  "broadcaster_send m =
     (let out = OutputTypeCpp m; mname = method_name m; mid = method_id_name mname
      in concat
        [''        void Broadcast'' @ mname @ ''(const '' @ out @ ''& message) {'' @ nl,
         ''            std::string bytes;'' @ nl,
         ''            ::protocomm::SerializeProto(message, bytes);'' @ nl,
         ''            server_->Broadcast('' @ mid @ '', bytes);'' @ nl,
         ''        }'' @ nl @ nl])"

definition EmitBroadcasterClass :: "string \<Rightarrow> ServiceContext \<Rightarrow> string" where
  "EmitBroadcasterClass code ctx =
     code @ concat
        [''    class Broadcaster {'' @ nl,
         ''    public:'' @ nl,
         ''        explicit Broadcaster(::protocomm::Server* server)'' @ nl,
         ''            : server_(server) {}'' @ nl @ nl] @
     concat (map broadcaster_send (methods (svc ctx))) @
     concat
        [''    private:'' @ nl,
         ''        ::protocomm::Server* server_;'' @ nl,
         ''    };'' @ nl @ nl]"

definition service_virtual :: "MethodDescriptorProto \<Rightarrow> string" where
  "service_virtual m =
     (let inp = InputTypeCpp m; out = OutputTypeCpp m; mname = method_name m
      in concat
        [''        virtual ::protocomm::Status '' @ mname @ ''('' @ nl,
         ''                ::protocomm::ServerContext* /*ctx*/,'' @ nl,
         ''                const '' @ inp @ ''* /*request*/,'' @ nl,
         ''                '' @ out @ ''* /*response*/) {'' @ nl,
         ''            return {::protocomm::StatusCode::UNIMPLEMENTED, '' @ dq @ mname @ '' not implemented'' @ dq @ ''};'' @ nl,
         ''        }'' @ nl @ nl])"

definition service_register :: "ServiceContext \<Rightarrow> MethodDescriptorProto \<Rightarrow> string" where
  "service_register ctx m =
     (let inp = InputTypeCpp m; out = OutputTypeCpp m; mname = method_name m;
          mid = method_id_name mname; full = svc_name ctx @ ''.'' @ mname
      in concat
        [''            server->RegisterMethod('' @ mid @ '','' @ nl,
         ''                [this](::protocomm::ServerContext* ctx,'' @ nl,
         ''                       const std::string& req_bytes,'' @ nl,
         ''                       std::string* resp_bytes) -> ::protocomm::Status {'' @ nl,
         ''                    ctx->set_method_name('' @ dq @ full @ dq @ '');'' @ nl,
         ''                    '' @ inp @ '' req;'' @ nl,
         ''                    ::protocomm::Status ps = ::protocomm::ParseProto(req_bytes, req);'' @ nl,
         ''                    if (!ps.ok()) return ps;'' @ nl,
         ''                    if (ctx->tracing())'' @ nl,
         ''                        ctx->set_request_text(::protocomm::RenderProto(req));'' @ nl,
         ''                    '' @ out @ '' resp;'' @ nl,
         ''                    ::protocomm::Status s = this->'' @ mname @ ''(ctx, &req, &resp);'' @ nl,
         ''                    if (!s.ok()) return s;'' @ nl,
         ''                    if (ctx->tracing())'' @ nl,
         ''                        ctx->set_response_text(::protocomm::RenderProto(resp));'' @ nl,
         ''                    return ::protocomm::SerializeProto(resp, *resp_bytes);'' @ nl,
         ''                });'' @ nl])"

definition EmitServiceClass :: "string \<Rightarrow> ServiceContext \<Rightarrow> string" where
  "EmitServiceClass code ctx =
     code @ concat
        [''    class Service : public ::protocomm::Service {'' @ nl,
         ''    public:'' @ nl] @
     concat (map service_virtual (methods (svc ctx))) @
     ''        void RegisterWith(::protocomm::Server* server) override {'' @ nl @
     concat (map (service_register ctx) (methods (svc ctx))) @
     concat
        [''        }'' @ nl,
         ''    };'' @ nl]"

definition EmitFooter :: "string \<Rightarrow> ServiceContext \<Rightarrow> string" where
  "EmitFooter code ctx =
     code @ ''};'' @ nl @ nl @ (if has_ns ctx then ''}  // namespace '' @ ns ctx @ nl else [])"

definition GenerateServiceFile :: "string \<Rightarrow> ServiceContext \<Rightarrow> string" where
  "GenerateServiceFile code ctx =
     (let code = EmitPreamble code ctx;
          code = code @ ''class '' @ svc_name ctx @ '' final {'' @ nl @ ''public:'' @ nl;
          code = EmitMethodConstants code ctx;
          code = EmitPeerWriterClass code ctx;
          code = EmitBroadcasterClass code ctx;
          code = EmitStubClass code ctx;
          code = EmitServiceClass code ctx
      in EmitFooter code ctx)"

subsection \<open>Names are faithful\<close>

lemma split_last_unique:
  assumes "xs @ c # ys = xs' @ c # ys'" and "c \<notin> set ys" and "c \<notin> set ys'"
  shows "xs = xs' \<and> ys = ys'"
proof -
  have eq: "rev ys @ c # rev xs = rev ys' @ c # rev xs'"
    using arg_cong [OF assms(1), of rev] by simp
  have "takeWhile (\<lambda>x. x \<noteq> c) (rev zs @ c # us) = rev zs" if "c \<notin> set zs" for zs us
    using that by (subst takeWhile_append2) auto
  from this [OF assms(2), of "rev xs"] this [OF assms(3), of "rev xs'"] eq have "rev ys = rev ys'"
    by simp
  with eq show ?thesis by simp
qed

lemma service_full_name_inject:
  assumes "service_full_name p s = service_full_name p' s'" and "CHR ''.'' \<notin> set s" and "CHR ''.'' \<notin> set s'"
  shows "p = p' \<and> s = s'"
  using assms split_last_unique [of p "CHR ''.''" s p' s']
  by (auto simp: service_full_name_def split: if_splits)

text \<open>
  The name that is hashed determines the method: for proto identifiers, which contain no
  slash and, for service and method, no dot, different methods have different full names.
\<close>

theorem method_full_name_inject:
  assumes "method_full_name p s m = method_full_name p' s' m'"
    and "CHR ''.'' \<notin> set s" and "CHR ''.'' \<notin> set s'" and "CHR ''/'' \<notin> set m" and "CHR ''/'' \<notin> set m'"
  shows "p = p' \<and> s = s' \<and> m = m'"
proof -
  have "service_full_name p s @ CHR ''/'' # m = service_full_name p' s' @ CHR ''/'' # m'"
    using assms(1) by (simp add: method_full_name_def)
  from split_last_unique [OF this assms(4,5)]
  have "service_full_name p s = service_full_name p' s'" and m: "m = m'" by simp_all
  with service_full_name_inject assms(2,3) show ?thesis by blast
qed

theorem method_full_name_inject_witness:
  "method_full_name ''math'' ''Calculator'' ''Add'' = ''/math.Calculator/Add'' \<and>
   method_full_name ''math'' ''Calculator'' ''Add'' \<noteq> method_full_name ''math'' ''Calculator'' ''Sub''"
proof
  show "method_full_name ''math'' ''Calculator'' ''Add'' = ''/math.Calculator/Add''"
    by (simp add: method_full_name_def service_full_name_def)
  show "method_full_name ''math'' ''Calculator'' ''Add'' \<noteq> method_full_name ''math'' ''Calculator'' ''Sub''"
  proof
    assume "method_full_name ''math'' ''Calculator'' ''Add'' = method_full_name ''math'' ''Calculator'' ''Sub''"
    from method_full_name_inject [OF this] show False by simp
  qed
qed

text \<open>
  Different services get different output files, for packages and service names without a
  slash.
\<close>

theorem output_path_inject:
  assumes "output_path p s = output_path p' s'"
    and "CHR ''/'' \<notin> set p" and "CHR ''/'' \<notin> set s" and "CHR ''/'' \<notin> set p'" and "CHR ''/'' \<notin> set s'"
  shows "p = p' \<and> s = s'"
proof -
  have "CHR ''/'' \<notin> set (s @ ''.h'')" "CHR ''/'' \<notin> set (s' @ ''.h'')" using assms by simp_all
  from split_last_unique [OF _ this, of p p'] assms show ?thesis
    by (auto simp: output_path_def split: if_splits)
qed

theorem output_path_inject_witness:
  "output_path ''math'' ''Calculator'' = ''protocomm/math/Calculator.h'' \<and>
   (CHR ''/'' \<notin> set ''math'' \<and> output_path ''math'' ''Calculator'' \<noteq> output_path [] ''Calculator'')"
proof -
  have "output_path ''math'' ''Calculator'' \<noteq> output_path [] ''Calculator''"
  proof
    assume "output_path ''math'' ''Calculator'' = output_path [] ''Calculator''"
    from output_path_inject [OF this] show False by simp
  qed
  then show ?thesis by (simp add: output_path_def)
qed

text \<open>
  A fully qualified proto type becomes the C++ name inside the namespace the generator opens
  for the package: the leading dot goes, and the remaining dots become scope operators exactly
  as in \<open>ns_from_pkg\<close>.
\<close>

theorem proto_type_to_cpp_qualified:
  assumes "CHR '':'' \<notin> set p" and "CHR '':'' \<notin> set name" and "CHR ''.'' \<notin> set name"
  shows "proto_type_to_cpp (''.'' @ p @ ''.'' @ name) = ns_from_pkg p @ ''::'' @ name"
proof -
  have *: "concat (map (\<lambda>c. if c = CHR '':'' then ''::'' else [c])
      (map (\<lambda>c. if c = CHR ''.'' then CHR '':'' else c) t)) = ns_from_pkg t"
    if "CHR '':'' \<notin> set t" for t
    using that by (induction t) (auto simp: ns_from_pkg_def)
  have "ns_from_pkg name = name"
    using assms(3) by (induction name) (auto simp: ns_from_pkg_def)
  moreover have "ns_from_pkg (p @ ''.'' @ name) = ns_from_pkg p @ ''::'' @ ns_from_pkg name"
    by (simp add: ns_from_pkg_def)
  ultimately show ?thesis
    using * [of "p @ ''.'' @ name"] assms(1,2) by (simp add: proto_type_to_cpp_def)
qed

theorem proto_type_to_cpp_qualified_witness:
  "proto_type_to_cpp ''.math.v1.AddRequest'' = ''math::v1::AddRequest''"
proof -
  from proto_type_to_cpp_qualified [of "''math.v1''" "''AddRequest''"] show ?thesis
    by (simp add: ns_from_pkg_def)
qed

subsection \<open>The generated header is well nested\<close>

text \<open>
  The nesting of braces: \<open>nest d s\<close> is the depth after \<open>s\<close> when it starts at depth \<open>d\<close>, and \<open>None\<close>
  if \<open>s\<close> closes a brace that is not open.
\<close>

fun nest :: "nat \<Rightarrow> string \<Rightarrow> nat option" where
  "nest d [] = Some d"
| "nest d (c # s) =
     (if c = CHR ''{'' then nest (Suc d) s
      else if c = CHR ''}'' then (case d of 0 \<Rightarrow> None | Suc d' \<Rightarrow> nest d' s)
      else nest d s)"

definition braces :: "string \<Rightarrow> string" where
  "braces s = filter (\<lambda>c. c = CHR ''{'' \<or> c = CHR ''}'') s"

lemma nest_braces: "nest d s = nest d (braces s)"
  by (induction d s rule: nest.induct) (auto simp: braces_def split: nat.split)

lemma braces_append [simp]: "braces (s @ t) = braces s @ braces t"
  by (simp add: braces_def)

lemma braces_Nil [simp]: "braces [] = []"
  by (simp add: braces_def)

lemma braces_nl [simp]: "braces nl = []" and braces_dq [simp]: "braces dq = []"
  by (simp_all add: braces_def nl_def dq_def)

lemma nest_append: "nest d (s @ t) = Option.bind (nest d s) (\<lambda>d. nest d t)"
  by (induction d s rule: nest.induct) (auto split: nat.split)

text \<open>Identifiers and paths have no braces.\<close>

definition plain_method :: "MethodDescriptorProto \<Rightarrow> bool" where
  "plain_method m \<longleftrightarrow> braces (method_name m) = [] \<and> braces (input_type m) = [] \<and> braces (output_type m) = []"

definition plain_context :: "ServiceContext \<Rightarrow> bool" where
  "plain_context ctx \<longleftrightarrow> braces (file_name (ctx_file ctx)) = [] \<and> braces (pkg ctx) = [] \<and>
     braces (ns ctx) = [] \<and> braces (svc_name ctx) = [] \<and> (\<forall>m \<in> set (methods (svc ctx)). plain_method m)"

lemma braces_Cons: "braces (c # s) = (if c = CHR ''{'' \<or> c = CHR ''}'' then c # braces s else braces s)"
  by (simp add: braces_def)

lemma braces_doubled: "braces (concat (map (\<lambda>c. if c = CHR '':'' then ''::'' else [c]) t)) = braces t"
  by (induction t) (simp_all add: braces_Cons)

lemma braces_dots: "braces (map (\<lambda>c. if c = CHR ''.'' then CHR '':'' else c) t) = braces t"
  by (induction t) (simp_all add: braces_Cons)

lemma braces_type [simp]: "braces t = [] \<Longrightarrow> braces (proto_type_to_cpp t) = []"
proof -
  assume "braces t = []"
  then have "braces (if t \<noteq> [] \<and> t ! 0 = CHR ''.'' then drop 1 t else t) = []"
    by (cases t) (simp_all add: braces_Cons split: if_splits)
  then show ?thesis by (simp only: proto_type_to_cpp_def Let_def braces_doubled braces_dots)
qed

lemma braces_types [simp]:
  "plain_method m \<Longrightarrow> braces (InputTypeCpp m) = []" "plain_method m \<Longrightarrow> braces (OutputTypeCpp m) = []"
  "plain_method m \<Longrightarrow> braces (method_name m) = []" "braces s = [] \<Longrightarrow> braces (method_id_name s) = []"
  by (simp_all add: plain_method_def InputTypeCpp_def OutputTypeCpp_def method_id_name_def braces_Cons)

lemma braces_full_name [simp]:
  "braces p = [] \<Longrightarrow> braces s = [] \<Longrightarrow> braces m = [] \<Longrightarrow> braces (method_full_name p s m) = []"
  by (simp add: method_full_name_def service_full_name_def braces_Cons)

text \<open>Braces of a literal, decided by the bits of each character.\<close>

lemma braces_char:
  "braces (Char b0 b1 b2 b3 b4 b5 False b7 # s) = braces s"
  "braces (Char b0 b1 b2 b3 b4 False b6 b7 # s) = braces s"
  "braces (Char b0 b1 b2 b3 False b5 b6 b7 # s) = braces s"
  "braces (Char b0 b1 b2 False b4 b5 b6 b7 # s) = braces s"
  "braces (Char False b1 b2 b3 b4 b5 b6 b7 # s) = braces s"
  "braces (Char b0 b1 b2 b3 b4 b5 b6 True # s) = braces s"
  "braces (Char b0 False False b3 b4 b5 b6 b7 # s) = braces s"
  "braces (Char b0 True True b3 b4 b5 b6 b7 # s) = braces s"
  "braces (CHR ''{'' # s) = CHR ''{'' # braces s"
  "braces (CHR ''}'' # s) = CHR ''}'' # braces s"
  by (simp_all add: braces_def)

lemmas brace_eval = Let_def concat.simps braces_append braces_Nil braces_nl braces_dq braces_char
  append_Nil append_Nil2

lemma plain_names:
  assumes "plain_context ctx"
  shows "braces (file_name (ctx_file ctx)) = []" "braces (pkg ctx) = []" "braces (ns ctx) = []"
    "braces (svc_name ctx) = []"
  using assms by (simp_all add: plain_context_def)

lemma braces_stub:
  assumes "plain_method m" and "plain_context ctx"
  shows "braces (stub_call ctx m) = ''{{{}}{}}''"
    "braces (stub_future_call m) = ''{{{{}}}}''"
    "braces (stub_callback_call ctx m) = ''{{{}}{}{{}{{}}{{}}{}}}''"
  by (simp only: stub_call_def stub_future_call_def stub_callback_call_def brace_eval braces_types(1-3) [OF assms(1)]
      plain_names [OF assms(2)] braces_types(4), simp)+

lemma braces_service:
  assumes "plain_method m" and "plain_context ctx"
  shows "braces (method_constant ctx m) = []" "braces (peer_writer_send m) = ''{}''"
    "braces (broadcaster_send m) = ''{}''" "braces (service_virtual m) = ''{{}}''"
    "braces (service_register ctx m) = ''{}''"
  by (simp only: method_constant_def peer_writer_send_def broadcaster_send_def service_virtual_def
      service_register_def brace_eval braces_types(1-3) [OF assms(1)] plain_names [OF assms(2)]
      braces_types(4) braces_full_name, simp?)+

lemma nest_concat_blocks:
  assumes "\<And>x d. x \<in> set xs \<Longrightarrow> nest d (f x) = Some d"
  shows "nest d (concat (map f xs)) = Some d"
  using assms by (induction xs) (simp_all add: nest_append)

lemma nest_blocks:
  assumes "plain_method m" and "plain_context ctx"
  shows "nest d (stub_call ctx m @ stub_future_call m @ stub_callback_call ctx m) = Some d"
    "nest d (method_constant ctx m) = Some d" "nest d (peer_writer_send m) = Some d"
    "nest d (broadcaster_send m) = Some d" "nest d (service_virtual m) = Some d"
    "nest d (service_register ctx m) = Some d"
  by (subst nest_braces, simp add: braces_stub [OF assms] braces_service [OF assms])+

lemma nest_literal: "nest d (s @ t) = Option.bind (nest d (braces s)) (\<lambda>d. nest d t)"
  by (simp add: nest_append nest_braces [of d s])

lemma nest_class:
  assumes "nest d (braces a) = Some e" and "\<And>x d. x \<in> set xs \<Longrightarrow> nest d (f x) = Some d"
    and "nest e b = Some d'"
  shows "nest d (a @ concat (map f xs) @ b) = Some d'"
  using assms nest_concat_blocks [of xs f e] by (simp add: nest_append nest_braces [of d a])

lemma before_last_dot_plain: "braces s = [] \<Longrightarrow> braces (before_last_dot s) = []"
proof -
  assume s: "braces s = []"
  have "set (tl (dropWhile P xs)) \<subseteq> set xs" for P and xs :: string
    by (induction xs) (auto dest: set_dropWhileD)
  from this [of "\<lambda>c. c \<noteq> CHR ''.''" "rev s"] have "set (before_last_dot s) \<subseteq> set s"
    by (auto simp: before_last_dot_def)
  with s show ?thesis by (auto simp: braces_def filter_empty_conv)
qed

lemma nest_preamble:
  assumes "plain_context ctx"
  shows "nest d (EmitPreamble [] ctx) = Some (if has_ns ctx then Suc d else d)"
proof -
  have "braces (EmitPreamble [] ctx) = (if has_ns ctx then ''{'' else [])"
    by (cases "has_ns ctx"; simp only: EmitPreamble_def brace_eval if_True if_False plain_names [OF assms]
        before_last_dot_plain)
  then show ?thesis by (subst nest_braces) simp
qed

lemma nest_classes:
  assumes "plain_context ctx"
  shows "nest d (EmitMethodConstants [] ctx) = Some d" "nest d (EmitPeerWriterClass [] ctx) = Some d"
    "nest d (EmitBroadcasterClass [] ctx) = Some d" "nest d (EmitStubClass [] ctx) = Some d"
    "nest d (EmitServiceClass [] ctx) = Some d"
proof -
  have plain: "plain_method m" if "m \<in> set (methods (svc ctx))" for m
    using assms that by (simp add: plain_context_def)
  note blocks = nest_blocks [OF plain assms]
  have eval: "nest d s = Some e" if "nest d (braces s) = Some e" for d s e
    using that by (simp add: nest_braces [of d s])
  show "nest d (EmitMethodConstants [] ctx) = Some d"
    unfolding EmitMethodConstants_def append_Nil nest_append
    using nest_concat_blocks [of "methods (svc ctx)" "method_constant ctx" d] blocks(2) by (simp add: nl_def)
  show "nest d (EmitPeerWriterClass [] ctx) = Some d"
    unfolding EmitPeerWriterClass_def append_Nil
    by (rule nest_class [where e = "Suc d"], simp only: brace_eval, simp, erule blocks, rule eval, simp only: brace_eval, simp)
  show "nest d (EmitBroadcasterClass [] ctx) = Some d"
    unfolding EmitBroadcasterClass_def append_Nil
    by (rule nest_class [where e = "Suc d"], simp only: brace_eval, simp, erule blocks, rule eval, simp only: brace_eval, simp)
  show "nest d (EmitStubClass [] ctx) = Some d"
    unfolding EmitStubClass_def append_Nil
    by (rule nest_class [where e = "Suc d"], simp only: brace_eval, simp, erule blocks, rule eval, simp only: brace_eval, simp)
  have tail: "nest (Suc d) (''        void RegisterWith(::protocomm::Server* server) override {'' @ nl @
     concat (map (service_register ctx) (methods (svc ctx))) @
     concat [''        }'' @ nl, ''    };'' @ nl]) = Some d"
    unfolding append_assoc [symmetric] unfolding append_assoc [of _ _ "concat [_, _]"]
    by (rule nest_class [where e = "Suc (Suc d)"], simp only: brace_eval, simp, erule blocks, rule eval, simp only: brace_eval, simp)
  show "nest d (EmitServiceClass [] ctx) = Some d"
    unfolding EmitServiceClass_def append_Nil
    by (rule nest_class [where e = "Suc d"], simp only: brace_eval, simp, erule blocks, rule tail)
qed

lemma Emit_append:
  "EmitPreamble code ctx = code @ EmitPreamble [] ctx" "EmitMethodConstants code ctx = code @ EmitMethodConstants [] ctx"
  "EmitPeerWriterClass code ctx = code @ EmitPeerWriterClass [] ctx"
  "EmitBroadcasterClass code ctx = code @ EmitBroadcasterClass [] ctx"
  "EmitStubClass code ctx = code @ EmitStubClass [] ctx" "EmitServiceClass code ctx = code @ EmitServiceClass [] ctx"
  "EmitFooter code ctx = code @ EmitFooter [] ctx"
  by (simp_all only: EmitPreamble_def EmitMethodConstants_def EmitPeerWriterClass_def EmitBroadcasterClass_def
      EmitStubClass_def EmitServiceClass_def EmitFooter_def Let_def append_Nil)

lemma GenerateServiceFile_parts:
  "GenerateServiceFile [] ctx = EmitPreamble [] ctx @
     (''class '' @ svc_name ctx @ '' final {'' @ nl @ ''public:'' @ nl) @ EmitMethodConstants [] ctx @
     EmitPeerWriterClass [] ctx @ EmitBroadcasterClass [] ctx @ EmitStubClass [] ctx @ EmitServiceClass [] ctx @
     EmitFooter [] ctx"
  unfolding GenerateServiceFile_def Let_def
  by (subst Emit_append(7), subst Emit_append(6), subst Emit_append(5), subst Emit_append(4),
      subst Emit_append(3), subst Emit_append(2)) (simp only: append_assoc)

text \<open>
  C40. The generated header is well nested: for brace-free names, every closing brace of the
  emitted file closes an open one and none is left open, whatever the number of methods and with
  or without a namespace.
\<close>

theorem GenerateServiceFile_nested:
  assumes "plain_context ctx"
  shows "nest 0 (GenerateServiceFile [] ctx) = Some 0"
proof -
  define h where "h = ''class '' @ svc_name ctx @ '' final {'' @ nl @ ''public:'' @ nl"
  have cls: "nest d h = Some (Suc d)" for d
    unfolding h_def by (subst nest_braces) (simp only: brace_eval plain_names [OF assms] nest.simps, simp)
  have "braces (EmitFooter [] ctx) = (if has_ns ctx then ''}}'' else ''}'')"
    by (cases "has_ns ctx"; simp only: EmitFooter_def brace_eval if_True if_False plain_names [OF assms], simp?)
  then have foot: "nest (Suc (if has_ns ctx then Suc 0 else 0)) (EmitFooter [] ctx) = Some 0"
    by (subst nest_braces) simp
  show ?thesis
    unfolding GenerateServiceFile_parts h_def [symmetric]
    using foot by (simp only: nest_append nest_preamble [OF assms] nest_classes [OF assms] cls Option.bind_lunit)
qed

definition demo_context :: ServiceContext where
  "demo_context =
     (let m = \<lparr>method_name = ''Add'', input_type = ''.math.AddRequest'', output_type = ''.math.AddReply''\<rparr>;
          s = \<lparr>service_name = ''Calculator'', methods = [m]\<rparr>
      in \<lparr>ctx_file = \<lparr>file_name = ''calc.proto'', package = ''math'', services = [s]\<rparr>, svc = s, pkg = ''math'',
         ns = ''math'', svc_name = ''Calculator'', has_ns = True\<rparr>)"

theorem GenerateServiceFile_nested_witness:
  "plain_context demo_context \<and> nest 0 (GenerateServiceFile [] demo_context) = Some 0"
proof -
  have "plain_context demo_context"
    by (simp add: demo_context_def Let_def plain_context_def plain_method_def braces_Cons)
  with GenerateServiceFile_nested [OF this] show ?thesis by simp
qed

lemma sublist_part: "sublist xs (as @ xs @ bs)"
  by (simp add: sublist_def) blast

lemma sublist_within: "sublist xs ys \<Longrightarrow> sublist xs (as @ ys @ bs)"
  by (rule sublist_order.order_trans [OF _ sublist_part])

lemma sublist_concat_map: "x \<in> set xs \<Longrightarrow> sublist (f x) (concat (map f xs))"
proof -
  assume "x \<in> set xs"
  then obtain us vs where "xs = us @ x # vs" by (auto simp: in_set_conv_decomp)
  then show ?thesis using sublist_part [of "f x" "concat (map f us)" "concat (map f vs)"] by simp
qed

lemma sublist_left: "sublist xs ys \<Longrightarrow> sublist xs (as @ ys)" and sublist_right: "sublist xs ys \<Longrightarrow> sublist xs (ys @ bs)"
  using sublist_within [of xs ys as "[]"] sublist_within [of xs ys "[]" bs] by simp_all

text \<open>
  Client and server of a method use the same id: for every method of the service the header
  contains its constant, defined as the hash of the method's full name, the three stub members
  that call under that constant and the registration of the handler under it.
\<close>

theorem GenerateServiceFile_ids:
  assumes "m \<in> set (methods (svc ctx))"
  shows "sublist (method_constant ctx m) (GenerateServiceFile [] ctx) \<and>
    sublist (stub_call ctx m @ stub_future_call m @ stub_callback_call ctx m) (GenerateServiceFile [] ctx) \<and>
    sublist (service_register ctx m) (GenerateServiceFile [] ctx)"
proof -
  note part = sublist_concat_map [OF assms]
  have 1: "sublist (method_constant ctx m) (EmitMethodConstants [] ctx)"
    unfolding EmitMethodConstants_def append_Nil by (rule sublist_right) (rule part)
  have 2: "sublist (stub_call ctx m @ stub_future_call m @ stub_callback_call ctx m) (EmitStubClass [] ctx)"
    unfolding EmitStubClass_def append_Nil by (rule sublist_left, rule sublist_right) (rule part)
  have 3: "sublist (service_register ctx m) (EmitServiceClass [] ctx)"
    unfolding EmitServiceClass_def append_Nil append_assoc
    by (rule sublist_left, rule sublist_left, rule sublist_left, rule sublist_left, rule sublist_right) (rule part)
  show ?thesis
    unfolding GenerateServiceFile_parts
    using sublist_left [OF sublist_left [OF sublist_right [OF 1]]]
      sublist_left [OF sublist_left [OF sublist_left [OF sublist_left [OF sublist_left [OF sublist_right [OF 2]]]]]]
      sublist_left [OF sublist_left [OF sublist_left [OF sublist_left [OF sublist_left
        [OF sublist_left [OF sublist_right [OF 3]]]]]]]
    by (intro conjI)
qed

theorem GenerateServiceFile_ids_witness:
  "method_constant demo_context (hd (methods (svc demo_context))) =
     ''    static constexpr uint32_t kAddMethodId = ::protocomm::Fnv1a32('' @ dq @ ''/math.Calculator/Add'' @ dq @ '');'' @ nl \<and>
   sublist (method_constant demo_context (hd (methods (svc demo_context)))) (GenerateServiceFile [] demo_context)"
proof -
  have "hd (methods (svc demo_context)) \<in> set (methods (svc demo_context))" by (simp add: demo_context_def Let_def)
  from GenerateServiceFile_ids [OF this]
  have "sublist (method_constant demo_context (hd (methods (svc demo_context)))) (GenerateServiceFile [] demo_context)"
    by simp
  moreover have "method_constant demo_context (hd (methods (svc demo_context))) =
     ''    static constexpr uint32_t kAddMethodId = ::protocomm::Fnv1a32('' @ dq @ ''/math.Calculator/Add'' @ dq @ '');'' @ nl"
    by (simp add: demo_context_def method_constant_def method_full_name_def service_full_name_def Let_def)
  ultimately show ?thesis by simp
qed

end
