(* ===== verification/Go_Wire.thy ===== *)
theory Go_Wire
  imports Transport Generator
begin

text \<open>
  The Go implementation, \<open>src/go\<close>: status codes (\<open>status.go\<close>), the method hash (\<open>hash.go\<close>) and
  frames on a connection (\<open>frame.go\<close>), with the functions of \<open>encoding/binary\<close> they call. The two
  implementations talk to each other, so the lemmas relate every encoding to the C++ one.
\<close>

subsection \<open>Status codes\<close>

text \<open>\<open>StatusCode\<close> is an \<open>int\<close>, 64 bits wide; any value of it can be in a status.\<close>

datatype Go_StatusCode = Go_StatusCode (go_code: u64)

definition Go_OK :: Go_StatusCode where "Go_OK = Go_StatusCode 0"
definition Go_Cancelled :: Go_StatusCode where "Go_Cancelled = Go_StatusCode 1"
definition Go_Unknown :: Go_StatusCode where "Go_Unknown = Go_StatusCode 2"
definition Go_InvalidArgument :: Go_StatusCode where "Go_InvalidArgument = Go_StatusCode 3"
definition Go_DeadlineExceeded :: Go_StatusCode where "Go_DeadlineExceeded = Go_StatusCode 4"
definition Go_NotFound :: Go_StatusCode where "Go_NotFound = Go_StatusCode 5"
definition Go_AlreadyExists :: Go_StatusCode where "Go_AlreadyExists = Go_StatusCode 6"
definition Go_PermissionDenied :: Go_StatusCode where "Go_PermissionDenied = Go_StatusCode 7"
definition Go_ResourceExhausted :: Go_StatusCode where "Go_ResourceExhausted = Go_StatusCode 8"
definition Go_FailedPrecondition :: Go_StatusCode where "Go_FailedPrecondition = Go_StatusCode 9"
definition Go_Aborted :: Go_StatusCode where "Go_Aborted = Go_StatusCode 10"
definition Go_OutOfRange :: Go_StatusCode where "Go_OutOfRange = Go_StatusCode 11"
definition Go_Unimplemented :: Go_StatusCode where "Go_Unimplemented = Go_StatusCode 12"
definition Go_Internal :: Go_StatusCode where "Go_Internal = Go_StatusCode 13"
definition Go_Unavailable :: Go_StatusCode where "Go_Unavailable = Go_StatusCode 14"
definition Go_DataLoss :: Go_StatusCode where "Go_DataLoss = Go_StatusCode 15"
definition Go_Unauthenticated :: Go_StatusCode where "Go_Unauthenticated = Go_StatusCode 16"

lemmas go_code_defs =
  Go_OK_def Go_Cancelled_def Go_Unknown_def Go_InvalidArgument_def Go_DeadlineExceeded_def Go_NotFound_def
  Go_AlreadyExists_def Go_PermissionDenied_def Go_ResourceExhausted_def Go_FailedPrecondition_def
  Go_Aborted_def Go_OutOfRange_def Go_Unimplemented_def Go_Internal_def Go_Unavailable_def Go_DataLoss_def
  Go_Unauthenticated_def

text \<open>The table \<open>statusCodeNames\<close>.\<close>

definition statusCodeNames :: "(Go_StatusCode \<times> string) list" where
  "statusCodeNames =
     [(Go_OK, ''OK''), (Go_Cancelled, ''CANCELLED''), (Go_Unknown, ''UNKNOWN''),
      (Go_InvalidArgument, ''INVALID_ARGUMENT''), (Go_DeadlineExceeded, ''DEADLINE_EXCEEDED''),
      (Go_NotFound, ''NOT_FOUND''), (Go_AlreadyExists, ''ALREADY_EXISTS''),
      (Go_PermissionDenied, ''PERMISSION_DENIED''), (Go_ResourceExhausted, ''RESOURCE_EXHAUSTED''),
      (Go_FailedPrecondition, ''FAILED_PRECONDITION''), (Go_Aborted, ''ABORTED''),
      (Go_OutOfRange, ''OUT_OF_RANGE''), (Go_Unimplemented, ''UNIMPLEMENTED''),
      (Go_Internal, ''INTERNAL''), (Go_Unavailable, ''UNAVAILABLE''),
      (Go_DataLoss, ''DATA_LOSS''), (Go_Unauthenticated, ''UNAUTHENTICATED'')]"

text \<open>\<open>%d\<close> of a signed value.\<close>

definition decimal :: "u64 \<Rightarrow> string" where
  "decimal w = (if sint w < 0 then ''-'' @ to_string (nat (- sint w)) else to_string (nat (sint w)))"

definition Go_StatusCode_String :: "Go_StatusCode \<Rightarrow> string" where
  "Go_StatusCode_String c =
     (case map_of statusCodeNames c of
        Some name \<Rightarrow> name
      | None \<Rightarrow> ''StatusCode('' @ decimal (go_code c) @ '')'')"

record Go_Status =
  gs_Code :: Go_StatusCode
  gs_Message :: string

definition IsOK :: "Go_Status \<Rightarrow> bool" where
  "IsOK s \<longleftrightarrow> gs_Code s = Go_OK"

definition Go_Status_String :: "Go_Status \<Rightarrow> string" where
  "Go_Status_String s =
     (if IsOK s then ''OK'' else Go_StatusCode_String (gs_Code s) @ '': '' @ gs_Message s)"

definition StatusOK :: Go_Status where
  "StatusOK = \<lparr>gs_Code = Go_OK, gs_Message = ''''\<rparr>"

definition go_status :: "Go_StatusCode \<Rightarrow> string \<Rightarrow> Go_Status" where
  "go_status c m = \<lparr>gs_Code = c, gs_Message = m\<rparr>"

lemma IsOK_simps [simp]:
  "IsOK StatusOK" "IsOK (go_status c m) \<longleftrightarrow> c = Go_OK" "gs_Code (go_status c m) = c" "gs_Code StatusOK = Go_OK"
  by (simp_all add: IsOK_def StatusOK_def go_status_def)

lemma go_not_ok [simp]:
  "Go_Cancelled \<noteq> Go_OK" "Go_FailedPrecondition \<noteq> Go_OK" "Go_Unimplemented \<noteq> Go_OK" "Go_Internal \<noteq> Go_OK"
  "Go_Unavailable \<noteq> Go_OK"
  by (simp_all add: go_code_defs)

text \<open>The conversions \<open>uint16(code)\<close> and \<open>StatusCode(hdr.StatusCode)\<close>, and the same code in C++.\<close>

definition go_code_to_wire :: "Go_StatusCode \<Rightarrow> u16" where
  "go_code_to_wire c = ucast (go_code c)"

definition go_code_of_wire :: "u16 \<Rightarrow> Go_StatusCode" where
  "go_code_of_wire w = Go_StatusCode (ucast w)"

definition cpp_code :: "Go_StatusCode \<Rightarrow> StatusCode" where
  "cpp_code c = StatusCode (ucast (go_code c))"

lemma code_to_wire_cpp: "code_to_wire (cpp_code c) = go_code_to_wire c"
  by (rule bit_word_eqI) (simp add: code_to_wire_def go_code_to_wire_def cpp_code_def bit_simps)

lemma cpp_code_of_wire: "cpp_code (go_code_of_wire w) = code_of_wire w"
  unfolding cpp_code_def go_code_of_wire_def code_of_wire_def StatusCode.inject Go_StatusCode.sel
  by (rule bit_word_eqI) (auto simp: bit_simps dest: bit_imp_le_length)

lemma go_code_of_wire_OK [simp]: "go_code_of_wire w = Go_OK \<longleftrightarrow> w = 0"
proof
  assume "go_code_of_wire w = Go_OK"
  then have "(ucast w :: u64) = 0" by (simp add: go_code_of_wire_def Go_OK_def)
  then have "\<not> bit (ucast w :: u64) n" for n by simp
  then have "\<not> bit w n" for n using bit_imp_le_length [of w n] by (fastforce simp: bit_simps)
  then show "w = 0" by (simp add: bit_eq_iff)
qed (simp add: go_code_of_wire_def Go_OK_def)

subsection \<open>The method hash\<close>

text \<open>The loop of \<open>Fnv1a32\<close> runs over the length of the string, zero bytes included.\<close>

fun Go_Fnv1a32_loop :: "u32 \<Rightarrow> bytes \<Rightarrow> u32" where
  "Go_Fnv1a32_loop hash [] = hash"
| "Go_Fnv1a32_loop hash (c # s) = Go_Fnv1a32_loop ((hash XOR ucast c) * 0x01000193) s"

definition Go_Fnv1a32 :: "string \<Rightarrow> u32" where
  "Go_Fnv1a32 s = Go_Fnv1a32_loop 0x811c9dc5 (bytes_of_string s)"

definition MethodID :: "string \<Rightarrow> string \<Rightarrow> string \<Rightarrow> u32" where
  "MethodID p service m =
     (if p = '''' then Go_Fnv1a32 (''/'' @ service @ ''/'' @ m)
      else Go_Fnv1a32 (''/'' @ p @ ''.'' @ service @ ''/'' @ m))"

lemma Go_Fnv1a32_loop_eq: "0 \<notin> set bs \<Longrightarrow> Go_Fnv1a32_loop h bs = Fnv1a32_loop h bs"
  by (induction bs arbitrary: h) (auto simp: fnv_step_def fnv_prime_def)

lemma zero_in_bytes: "0 \<in> set (bytes_of_string s) \<longleftrightarrow> CHR 0x00 \<in> set s"
proof -
  have "(of_char (CHR 0x00) :: byte) = 0" by simp
  then have "(of_char c :: byte) = 0 \<longleftrightarrow> c = CHR 0x00" for c
    using of_char_byte_inject [of c "CHR 0x00"] by metis
  then show ?thesis by (auto simp: bytes_of_string_def image_iff)
qed

lemma Go_Fnv1a32_eq: "CHR 0x00 \<notin> set s \<Longrightarrow> Go_Fnv1a32 s = Fnv1a32 s"
  using zero_in_bytes [of s] by (simp add: Go_Fnv1a32_def Fnv1a32_def Go_Fnv1a32_loop_eq fnv_offset_def)

text \<open>
  Both implementations give a method the same id: the hash that the Go code computes from
  package, service and method is the one the C++ code computes from the full method name that its
  generator writes, for names without a zero byte.
\<close>

theorem MethodID_agrees:
  assumes "CHR 0x00 \<notin> set p" and "CHR 0x00 \<notin> set service" and "CHR 0x00 \<notin> set m"
  shows "MethodID p service m = Fnv1a32 (method_full_name p service m)"
proof -
  have "CHR 0x00 \<notin> set (method_full_name p service m)"
    using assms by (auto simp: method_full_name_def service_full_name_def)
  from Go_Fnv1a32_eq [OF this] show ?thesis
    by (cases "p = []") (simp_all add: MethodID_def method_full_name_def service_full_name_def)
qed

theorem MethodID_agrees_witness:
  "MethodID ''math'' ''Calculator'' ''Add'' = Fnv1a32 (method_full_name ''math'' ''Calculator'' ''Add'')"
  by (rule MethodID_agrees) simp_all

subsection \<open>Frame headers\<close>

definition FrameHeaderSize :: nat where "FrameHeaderSize = 16"

datatype Go_FrameType = Go_FrameType (go_type_byte: byte)

definition FrameRequest :: Go_FrameType where "FrameRequest = Go_FrameType 1"
definition FrameResponse :: Go_FrameType where "FrameResponse = Go_FrameType 2"
definition FramePush :: Go_FrameType where "FramePush = Go_FrameType 3"

lemma go_frame_types_distinct [simp]:
  "FrameRequest \<noteq> FrameResponse" "FrameResponse \<noteq> FrameRequest" "FrameRequest \<noteq> FramePush"
  "FramePush \<noteq> FrameRequest" "FrameResponse \<noteq> FramePush" "FramePush \<noteq> FrameResponse"
  by (simp_all add: FrameRequest_def FrameResponse_def FramePush_def)

record Go_FrameHeader =
  fh_Type :: Go_FrameType
  fh_StatusCode :: u16
  fh_CallID :: u32
  fh_MethodID :: u32
  fh_PayloadSize :: u32

text \<open>\<open>FrameHeader{}\<close>: every field is zero.\<close>

definition Go_FrameHeader_zero :: Go_FrameHeader where
  "Go_FrameHeader_zero =
     \<lparr>fh_Type = Go_FrameType 0, fh_StatusCode = 0, fh_CallID = 0, fh_MethodID = 0, fh_PayloadSize = 0\<rparr>"

text \<open>\<open>binary.BigEndian\<close> of the standard library, on a slice that starts at \<open>off\<close>.\<close>

definition PutUint16 :: "bytes \<Rightarrow> nat \<Rightarrow> u16 \<Rightarrow> bytes" where
  "PutUint16 b off v = b[off := ucast (drop_bit 8 v), off + 1 := ucast v]"

definition PutUint32 :: "bytes \<Rightarrow> nat \<Rightarrow> u32 \<Rightarrow> bytes" where
  "PutUint32 b off v =
     b[off := ucast (drop_bit 24 v), off + 1 := ucast (drop_bit 16 v), off + 2 := ucast (drop_bit 8 v),
       off + 3 := ucast v]"

definition Uint16 :: "bytes \<Rightarrow> nat \<Rightarrow> u16" where
  "Uint16 b off = ucast (b ! (off + 1)) OR push_bit 8 (ucast (b ! off))"

definition Uint32 :: "bytes \<Rightarrow> nat \<Rightarrow> u32" where
  "Uint32 b off =
     ucast (b ! (off + 3)) OR push_bit 8 (ucast (b ! (off + 2))) OR
     push_bit 16 (ucast (b ! (off + 1))) OR push_bit 24 (ucast (b ! off))"

definition Go_Serialize :: "Go_FrameHeader \<Rightarrow> bytes" where
  "Go_Serialize h =
     (let buf = replicate FrameHeaderSize 0;
          buf = buf[0 := go_type_byte (fh_Type h)];
          buf = buf[1 := 0];
          buf = PutUint16 buf 2 (fh_StatusCode h);
          buf = PutUint32 buf 4 (fh_CallID h);
          buf = PutUint32 buf 8 (fh_MethodID h);
          buf = PutUint32 buf 12 (fh_PayloadSize h)
      in buf)"

definition DeserializeFrameHeader :: "bytes \<Rightarrow> Go_FrameHeader" where
  "DeserializeFrameHeader buf =
     \<lparr>fh_Type = Go_FrameType (buf ! 0),
      fh_StatusCode = Uint16 buf 2,
      fh_CallID = Uint32 buf 4,
      fh_MethodID = Uint32 buf 8,
      fh_PayloadSize = Uint32 buf 12\<rparr>"

text \<open>A Go header as the C++ struct.\<close>

definition cpp_header :: "Go_FrameHeader \<Rightarrow> FrameHeader" where
  "cpp_header h =
     \<lparr>frame_type = FrameType (go_type_byte (fh_Type h)), status_code = fh_StatusCode h,
      call_id = fh_CallID h, method_id = fh_MethodID h, payload_size = fh_PayloadSize h\<rparr>"

definition go_header :: "FrameHeader \<Rightarrow> Go_FrameHeader" where
  "go_header h =
     \<lparr>fh_Type = Go_FrameType (type_byte (frame_type h)), fh_StatusCode = status_code h,
      fh_CallID = call_id h, fh_MethodID = method_id h, fh_PayloadSize = payload_size h\<rparr>"

lemma cpp_go_header [simp]: "cpp_header (go_header h) = h" "go_header (cpp_header g) = g"
  by (simp_all add: cpp_header_def go_header_def)

lemma cpp_header_sel [simp]:
  "payload_size (cpp_header h) = fh_PayloadSize h" "call_id (cpp_header h) = fh_CallID h"
  "method_id (cpp_header h) = fh_MethodID h" "status_code (cpp_header h) = fh_StatusCode h"
  "fh_PayloadSize (go_header k) = payload_size k" "fh_CallID (go_header k) = call_id k"
  "fh_MethodID (go_header k) = method_id k" "fh_StatusCode (go_header k) = status_code k"
  by (simp_all add: cpp_header_def go_header_def)

lemma cpp_header_type:
  "frame_type (cpp_header h) = kRequest \<longleftrightarrow> fh_Type h = FrameRequest"
  "frame_type (cpp_header h) = kResponse \<longleftrightarrow> fh_Type h = FrameResponse"
  "frame_type (cpp_header h) = kPush \<longleftrightarrow> fh_Type h = FramePush"
  by (cases "fh_Type h"; simp add: cpp_header_def kRequest_def kResponse_def kPush_def FrameRequest_def
      FrameResponse_def FramePush_def)+

lemma byte_masked: "(ucast (v AND 0xFF) :: byte) = ucast v" for v :: "'a::len word"
  unfolding mask_byte by (rule bit_word_eqI) (auto simp: bit_simps dest: bit_imp_le_length)

lemma Go_Serialize_bytes: "Go_Serialize h = header_bytes (cpp_header h)"
proof -
  have "Go_Serialize h = [go_type_byte (fh_Type h), 0, ucast (drop_bit 8 (fh_StatusCode h)), ucast (fh_StatusCode h),
     ucast (drop_bit 24 (fh_CallID h)), ucast (drop_bit 16 (fh_CallID h)), ucast (drop_bit 8 (fh_CallID h)),
     ucast (fh_CallID h),
     ucast (drop_bit 24 (fh_MethodID h)), ucast (drop_bit 16 (fh_MethodID h)), ucast (drop_bit 8 (fh_MethodID h)),
     ucast (fh_MethodID h),
     ucast (drop_bit 24 (fh_PayloadSize h)), ucast (drop_bit 16 (fh_PayloadSize h)),
     ucast (drop_bit 8 (fh_PayloadSize h)), ucast (fh_PayloadSize h)]"
    by (subst list_eq_nth_16 [of "Go_Serialize h"])
      (simp_all add: Go_Serialize_def PutUint16_def PutUint32_def FrameHeaderSize_def Let_def)
  then show ?thesis
    by (simp add: header_bytes_def Serialize_layout byte_masked cpp_header_def)
qed

lemma Uint16_read: "Uint16 b off = ucast (push_bit 8 (ucast (b ! off)) OR (ucast (b ! (off + 1)) :: u32))"
  unfolding Uint16_def by (rule bit_word_eqI) (auto simp: bit_simps)

lemma Uint32_read: "Uint32 b off = ReadBE32 b off"
  by (simp add: Uint32_def ReadBE32_def or.commute or.left_commute or.assoc)

lemma DeserializeFrameHeader_cpp: "DeserializeFrameHeader b = go_header (Deserialize b)"
proof -
  have "Uint16 b 2 = ucast (push_bit 8 (ucast (b ! 2)) OR (ucast (b ! 3) :: u32))"
    using Uint16_read [of b 2] by simp
  then show ?thesis
    by (simp add: DeserializeFrameHeader_def go_header_def Deserialize_def Uint32_read FrameHeader_default_def)
qed

interpretation gh: header_codec Go_Serialize DeserializeFrameHeader FrameHeaderSize "\<lambda>h. unat (fh_PayloadSize h)"
  by unfold_locales (simp_all add: Go_Serialize_bytes DeserializeFrameHeader_cpp FrameHeaderSize_def kSize_def)

subsection \<open>Frames on a connection\<close>

text \<open>
  A \<open>net.Conn\<close> belongs to the runtime. It is a parameter: \<open>io.ReadFull\<close> into a buffer, \<open>Write\<close> and
  \<open>Close\<close> over a connection state of any type, an error being the text of \<open>err.Error()\<close>.
\<close>

record 'c net =
  net_ReadFull :: "'c \<Rightarrow> bytes \<Rightarrow> string option \<times> bytes \<times> 'c"
  net_Write :: "'c \<Rightarrow> bytes \<Rightarrow> string option \<times> 'c"
  net_Close :: "'c \<Rightarrow> string option \<times> 'c"

definition Go_WriteFrame :: "'c net \<Rightarrow> 'c \<Rightarrow> Go_FrameHeader \<Rightarrow> bytes \<Rightarrow> string option \<times> 'c" where
  "Go_WriteFrame N w hdr payload =
     (let buf = Go_Serialize hdr
      in case net_Write N w buf of
           (Some err, w) \<Rightarrow> (Some err, w)
         | (None, w) \<Rightarrow>
             if length payload > 0 then
               (case net_Write N w payload of
                  (Some err, w) \<Rightarrow> (Some err, w)
                | (None, w) \<Rightarrow> (None, w))
             else (None, w))"

text \<open>The result is the error of the read that failed, or header and payload.\<close>

definition Go_ReadFrame :: "'c net \<Rightarrow> 'c \<Rightarrow> (string + Go_FrameHeader \<times> bytes) \<times> 'c" where
  "Go_ReadFrame N r =
     (case net_ReadFull N r (replicate FrameHeaderSize 0) of
        (Some err, buf, r) \<Rightarrow> (Inl err, r)
      | (None, buf, r) \<Rightarrow>
          let hdr = DeserializeFrameHeader buf
          in if fh_PayloadSize hdr > 0 then
               (case net_ReadFull N r (replicate (unat (fh_PayloadSize hdr)) 0) of
                  (Some err, payload, r) \<Rightarrow> (Inl err, r)
                | (None, payload, r) \<Rightarrow> (Inr (hdr, payload), r))
             else (Inr (hdr, []), r))"

text \<open>
  The documented behaviour of a connection, with the views \<open>rx\<close> and \<open>tx\<close> of \<open>stream_socket\<close>:
  \<open>ReadFull\<close> fills the buffer or fails at the end of the stream, \<open>Write\<close> sends all bytes or reports
  an error after a prefix of them.
\<close>

definition stream_conn :: "'c net \<Rightarrow> ('c \<Rightarrow> bytes) \<Rightarrow> ('c \<Rightarrow> bytes) \<Rightarrow> bool" where
  "stream_conn N rx tx \<longleftrightarrow>
     (\<forall>c buf. length buf \<le> length (rx c) \<longrightarrow>
        (\<exists>c'. net_ReadFull N c buf = (None, take (length buf) (rx c), c') \<and>
              rx c' = drop (length buf) (rx c) \<and> tx c' = tx c)) \<and>
     (\<forall>c buf. length (rx c) < length buf \<longrightarrow>
        (\<exists>e buf' c'. net_ReadFull N c buf = (Some e, buf', c') \<and> rx c' = [] \<and> tx c' = tx c)) \<and>
     (\<forall>c b c'. net_Write N c b = (None, c') \<longrightarrow> tx c' = tx c @ b \<and> rx c' = rx c) \<and>
     (\<forall>c b e c'. net_Write N c b = (Some e, c') \<longrightarrow>
        (\<exists>n \<le> length b. tx c' = tx c @ take n b) \<and> rx c' = rx c)"

text \<open>The pipe of the socket interface as a connection.\<close>

definition pipe_net :: "pipe net" where
  "pipe_net =
     \<lparr>net_ReadFull = (\<lambda>c buf. if length buf \<le> length (p_rx c)
         then (None, take (length buf) (p_rx c), c\<lparr>p_rx := drop (length buf) (p_rx c)\<rparr>)
         else (Some (if p_rx c = [] then ''EOF'' else ''unexpected EOF''),
               p_rx c @ drop (length (p_rx c)) buf, c\<lparr>p_rx := []\<rparr>)),
      net_Write = (\<lambda>c b. if length b \<le> p_room c
         then (None, c\<lparr>p_tx := p_tx c @ b, p_room := p_room c - length b\<rparr>)
         else (Some ''broken pipe'', c\<lparr>p_tx := p_tx c @ take (p_room c) b, p_room := 0\<rparr>)),
      net_Close = (\<lambda>c. (None, c\<lparr>p_rx := [], p_room := 0\<rparr>))\<rparr>"

lemma pipe_stream_conn: "stream_conn pipe_net p_rx p_tx"
  unfolding stream_conn_def pipe_net_def by (auto split: if_splits intro: pipe_write_prefix)

lemma conn_read_full:
  assumes "stream_conn N rx tx" and "rx c = b @ rest" and "length buf = length b"
  obtains c' where "net_ReadFull N c buf = (None, b, c')" and "rx c' = rest" and "tx c' = tx c"
proof -
  have "length buf \<le> length (rx c)" using assms(2,3) by simp
  with assms(1) obtain c' where "net_ReadFull N c buf = (None, take (length buf) (rx c), c')"
    "rx c' = drop (length buf) (rx c)" "tx c' = tx c" unfolding stream_conn_def by blast
  with assms(2,3) show ?thesis by (intro that [of c']) simp_all
qed

lemma conn_read_short:
  assumes "stream_conn N rx tx" and "length (rx c) < length buf"
  obtains e buf' c' where "net_ReadFull N c buf = (Some e, buf', c')" and "rx c' = []" and "tx c' = tx c"
  using assms unfolding stream_conn_def by metis

lemma conn_write_ok:
  assumes "stream_conn N rx tx" and "net_Write N c b = (None, c')"
  shows "tx c' = tx c @ b" and "rx c' = rx c"
  using assms unfolding stream_conn_def by blast+

lemma Go_WriteFrame_ok:
  assumes "stream_conn N rx tx" and "Go_WriteFrame N w hdr payload = (None, w')"
  shows "tx w' = tx w @ frame_bytes (cpp_header hdr, payload)" and "rx w' = rx w"
proof -
  obtain e w1 where 1: "net_Write N w (Go_Serialize hdr) = (e, w1)" by fastforce
  with assms(2) have 1: "net_Write N w (Go_Serialize hdr) = (None, w1)"
    by (cases e) (auto simp: Go_WriteFrame_def)
  note w1 = conn_write_ok [OF assms(1) 1]
  have "tx w' = tx w1 @ payload \<and> rx w' = rx w1"
  proof (cases "payload = []")
    case True
    then show ?thesis using assms(2) 1 by (simp add: Go_WriteFrame_def)
  next
    case False
    then have "net_Write N w1 payload = (None, w')"
      using assms(2) 1 by (auto simp: Go_WriteFrame_def split: prod.splits option.splits)
    from conn_write_ok [OF assms(1) this] show ?thesis by simp
  qed
  with w1 show "tx w' = tx w @ frame_bytes (cpp_header hdr, payload)" and "rx w' = rx w"
    by (simp_all add: frame_bytes_def Go_Serialize_bytes)
qed

lemma Go_ReadFrame_some:
  assumes "stream_conn N rx tx" and "next_frame (rx r) = Some ((h, p), rest)"
  shows "\<exists>r'. Go_ReadFrame N r = (Inr (go_header h, p), r') \<and> rx r' = rest \<and> tx r' = tx r"
proof -
  let ?buf = "replicate FrameHeaderSize (0 :: byte)"
  let ?bs = "rx r"
  have len: "kSize \<le> length ?bs" and h: "h = Deserialize (take kSize ?bs)"
    and n: "unat (payload_size h) \<le> length (drop kSize ?bs)"
    and p: "p = take (unat (payload_size h)) (drop kSize ?bs)" "rest = drop (unat (payload_size h)) (drop kSize ?bs)"
    using assms(2) by (auto simp: next_frame_def Let_def split: if_splits)
  have "?bs = take kSize ?bs @ drop kSize ?bs" by simp
  moreover have "length ?buf = length (take kSize ?bs)" using len by (simp add: FrameHeaderSize_def kSize_def)
  ultimately obtain r1 where r1: "net_ReadFull N r ?buf = (None, take kSize ?bs, r1)" "rx r1 = drop kSize ?bs"
    "tx r1 = tx r" using conn_read_full [OF assms(1)] by metis
  show ?thesis
  proof (cases "payload_size h = 0")
    case True
    then show ?thesis using r1 h p
      by (auto simp: Go_ReadFrame_def DeserializeFrameHeader_cpp Let_def)
  next
    case False
    have "rx r1 = p @ rest" by (simp only: p r1(2) append_take_drop_id)
    moreover have "length (replicate (unat (payload_size h)) (0 :: byte)) = length p" using p n by simp
    ultimately obtain r2 where "net_ReadFull N r1 (replicate (unat (payload_size h)) 0) = (None, p, r2)"
      "rx r2 = rest" "tx r2 = tx r1" using conn_read_full [OF assms(1)] by metis
    then show ?thesis using False r1 h
      by (auto simp: Go_ReadFrame_def DeserializeFrameHeader_cpp Let_def word_neq_0_conv)
  qed
qed

lemma Go_ReadFrame_none:
  assumes "stream_conn N rx tx" and "next_frame (rx r) = None"
  shows "\<exists>e r'. Go_ReadFrame N r = (Inl e, r') \<and> rx r' = [] \<and> tx r' = tx r"
proof (cases "length (rx r) < kSize")
  case True
  then have "length (rx r) < length (replicate FrameHeaderSize (0 :: byte))"
    by (simp add: FrameHeaderSize_def kSize_def)
  then obtain e buf' c' where "net_ReadFull N r (replicate FrameHeaderSize 0) = (Some e, buf', c')" "rx c' = []"
    "tx c' = tx r" by (rule conn_read_short [OF assms(1)])
  then show ?thesis by (simp add: Go_ReadFrame_def)
next
  case False
  let ?buf = "replicate FrameHeaderSize (0 :: byte)"
  let ?h = "Deserialize (take kSize (rx r))"
  have "length (drop kSize (rx r)) < unat (payload_size ?h)"
    using assms(2) False by (auto simp: next_frame_def Let_def split: if_splits)
  moreover have "rx r = take kSize (rx r) @ drop kSize (rx r)" by simp
  moreover have "length ?buf = length (take kSize (rx r))" using False by (simp add: FrameHeaderSize_def kSize_def)
  ultimately obtain r1 where r1: "net_ReadFull N r ?buf = (None, take kSize (rx r), r1)"
    "rx r1 = drop kSize (rx r)" "tx r1 = tx r" using conn_read_full [OF assms(1)] by metis
  have short: "length (rx r1) < length (replicate (unat (payload_size ?h)) (0 :: byte))"
    using \<open>length (drop kSize (rx r)) < _\<close> r1(2) by simp
  obtain e buf' r2 where r2: "net_ReadFull N r1 (replicate (unat (payload_size ?h)) 0) = (Some e, buf', r2)"
    "rx r2 = []" "tx r2 = tx r1" using conn_read_short [OF assms(1) short] by blast
  have "payload_size ?h > 0" using short by (auto simp: word_gt_0)
  with r1 r2 show ?thesis
    by (auto simp: Go_ReadFrame_def DeserializeFrameHeader_cpp Let_def)
qed

text \<open>
  A frame written by one implementation is read by the other: if the Go code wrote a frame to
  an empty connection, a C++ socket that receives those bytes reads the same header and payload and
  nothing is left over; and the other way round.
\<close>

theorem Go_Cpp_frames:
  assumes "stream_conn N rx tx" and "stream_socket A rx' tx'"
    and "unat (fh_PayloadSize hdr) = length payload"
  shows "(Go_WriteFrame N c hdr payload = (None, c') \<and> tx c = [] \<and> rx' s = tx c' \<longrightarrow>
      (\<exists>s'. Async_ReadFrame A s h0 p0 = (Status_default, cpp_header hdr, payload, s') \<and> rx' s' = [])) \<and>
    (Async_WriteFrame A s (cpp_header hdr) payload = (st, s') \<and> ok st \<and> tx' s = [] \<and> rx c = tx' s' \<longrightarrow>
      (\<exists>c'. Go_ReadFrame N c = (Inr (hdr, payload), c') \<and> rx c' = []))"
proof (intro conjI impI; elim conjE)
  have wf: "wf_frame (cpp_header hdr, payload)" using assms(3) by (simp add: wf_frame_def)
  note nf = next_frame_bytes [OF wf, of "[]", simplified]
  show "\<exists>s'. Async_ReadFrame A s h0 p0 = (Status_default, cpp_header hdr, payload, s') \<and> rx' s' = []"
    if "Go_WriteFrame N c hdr payload = (None, c')" "tx c = []" "rx' s = tx c'"
  proof -
    have "next_frame (rx' s) = Some ((cpp_header hdr, payload), [])"
      using Go_WriteFrame_ok(1) [OF assms(1) that(1)] that(2,3) nf by simp
    from at.read_some [OF assms(2) this, of h0 p0] show ?thesis by blast
  qed
  show "\<exists>c'. Go_ReadFrame N c = (Inr (hdr, payload), c') \<and> rx c' = []"
    if "Async_WriteFrame A s (cpp_header hdr) payload = (st, s')" "ok st" "tx' s = []" "rx c = tx' s'"
  proof -
    have "next_frame (rx c) = Some ((cpp_header hdr, payload), [])"
      using at.write_ok [OF assms(2) that(1,2)] that(3,4) nf by simp
    from Go_ReadFrame_some [OF assms(1) this] show ?thesis by auto
  qed
qed

definition demo_hdr :: Go_FrameHeader where
  "demo_hdr = \<lparr>fh_Type = FrameResponse, fh_StatusCode = 0, fh_CallID = 7, fh_MethodID = 9, fh_PayloadSize = 3\<rparr>"

theorem Go_Cpp_frames_witness:
  "\<exists>c' s'. Go_WriteFrame pipe_net \<lparr>p_rx = [], p_tx = [], p_room = 100\<rparr> demo_hdr [1, 2, 3] = (None, c') \<and>
     Async_ReadFrame pipe_asio \<lparr>p_rx = p_tx c', p_tx = [], p_room = 100\<rparr> FrameHeader_default [] =
       (Status_default, cpp_header demo_hdr, [1, 2, 3], s')"
proof -
  let ?c = "\<lparr>p_rx = [], p_tx = [], p_room = 100\<rparr>"
  have 1: "unat (fh_PayloadSize demo_hdr) = length [1, 2, 3 :: byte]" by (simp add: demo_hdr_def)
  have "fst (Go_WriteFrame pipe_net ?c demo_hdr [1, 2, 3]) = None"
    by (simp add: Go_WriteFrame_def pipe_net_def Go_Serialize_bytes kSize_def)
  then obtain c' where 2: "Go_WriteFrame pipe_net ?c demo_hdr [1, 2, 3] = (None, c')" by (metis prod.collapse)
  let ?s = "\<lparr>p_rx = p_tx c', p_tx = [], p_room = 100\<rparr>"
  have "p_tx ?c = []" "p_rx ?s = p_tx c'" by simp_all
  with Go_Cpp_frames [OF pipe_stream_conn pipe_stream_socket 1, of ?c c' ?s FrameHeader_default "[]"] 2
  show ?thesis by blast
qed

subsection \<open>Closed connections\<close>

text \<open>
  What \<open>net.Conn\<close> documents of \<open>Close\<close>: reads into a buffer fail from then on, and nothing opens the
  connection again.
\<close>

definition closed_conn :: "'c net \<Rightarrow> ('c \<Rightarrow> bool) \<Rightarrow> bool" where
  "closed_conn N closed \<longleftrightarrow>
     (\<forall>c. closed (snd (net_Close N c))) \<and>
     (\<forall>c buf. closed c \<and> buf \<noteq> [] \<longrightarrow> fst (net_ReadFull N c buf) \<noteq> None) \<and>
     (\<forall>c buf. closed c \<longrightarrow> closed (snd (snd (net_ReadFull N c buf)))) \<and>
     (\<forall>c b. closed c \<longrightarrow> closed (snd (net_Write N c b)))"

lemma pipe_closed_conn: "closed_conn pipe_net (\<lambda>c. p_rx c = [])"
  by (auto simp: closed_conn_def pipe_net_def)

lemma closed_Go_ReadFrame:
  assumes "closed_conn N closed" and "closed c"
  shows "\<exists>err. fst (Go_ReadFrame N c) = Inl err"
proof -
  obtain e b d where r: "net_ReadFull N c (replicate FrameHeaderSize 0) = (e, b, d)" by (metis surj_pair)
  have "replicate FrameHeaderSize (0 :: byte) \<noteq> []" by (simp add: FrameHeaderSize_def)
  with assms have "fst (net_ReadFull N c (replicate FrameHeaderSize 0)) \<noteq> None" by (simp add: closed_conn_def)
  with r show ?thesis by (auto simp: Go_ReadFrame_def)
qed

end
