(* ===== verification/Go_Server.thy ===== *)
theory Go_Server
  imports Go_Wire
begin

text \<open>
  \<open>src/go/server.go\<close>, \<open>service.go\<close> and \<open>context.go\<close>: the server of the Go implementation. One goroutine
  accepts, one per connection reads requests, and every request is served by a goroutine of its own,
  at most \<open>cap(sem)\<close> of them at a time. Responses and pushes to a connection are written under its
  \<open>writeMu\<close>.

  As in the channel, the state holds every goroutine as the point it has reached. A section under
  \<open>sessionsMu\<close> or \<open>handlersMu\<close> is one step. Looking a handler up and calling it is one step too: between
  the two only the table can change, which the call does not read. A wait group is its counter, and a
  handler that panics ends the process.
\<close>

subsection \<open>State\<close>

record Go_ServerContext =
  gx_PeerAddress :: string
  gx_MethodID :: u32
  gx_CallID :: u32
  gx_Trace :: bool
  gx_MethodName :: string
  gx_RequestText :: bytes
  gx_ResponseText :: bytes

text \<open>
  A handler gets the context, the request and the state of the application; the result is the response,
  the status and the context it leaves behind, or a panic.
\<close>

type_synonym 'w go_handler =
  "Go_ServerContext \<Rightarrow> bytes \<Rightarrow> 'w \<Rightarrow> (bytes \<times> Go_Status \<times> Go_ServerContext) option \<times> 'w"

text \<open>A connection: \<open>Peer\<close>, with the wait group of its \<open>handleConn\<close>.\<close>

record 'c Go_Peer =
  peer_id :: u64
  peer_addr :: string
  peer_conn :: 'c
  peer_writeMu :: bool
  peer_inflight :: nat

text \<open>What follows a frame that was written: the end of a request, of \<open>Send\<close>, the rest of \<open>Broadcast\<close>.\<close>

datatype go_after = AfterResponse | AfterSend | AfterBroadcast "nat list" u32 bytes

datatype srv_pc =
    AL_accept
  | AL_register nat
  | AL_spawn nat
  | AL_done
  | HC_connect nat
  | HC_handshake nat
  | HC_write nat
  | HC_read nat
  | HC_sem nat Go_FrameHeader bytes
  | HC_go nat Go_FrameHeader bytes
  | HC_wait nat
  | HC_delete nat
  | HC_close nat
  | HC_done nat
  | SR_serve nat Go_FrameHeader bytes
  | WR_lock nat Go_FrameHeader bytes go_after
  | WR_header nat Go_FrameHeader bytes go_after
  | WR_payload nat bytes go_after
  | SR_close nat
  | SR_release nat
  | SR_done nat
  | BC_next "nat list" u32 bytes
  | SH_check
  | SH_done
  | SH_listener
  | SH_sessions
  | SH_wait
  | WT_wait
  | S_end

datatype srv_event =
    SvConnect nat
  | SvDisconnect nat
  | SvRequest nat Go_FrameHeader bytes
  | SvAbandoned nat Go_FrameHeader bytes
  | SvResponse nat Go_FrameHeader bytes Go_FrameHeader bytes
  | SvIntercepted Go_ServerContext Go_StatusCode bytes bytes
  | SvShutdown

record ('c, 'w) go_server =
  gv_handshakeHeader :: bytes
  gv_handlers :: "u32 \<Rightarrow> 'w go_handler option"
  gv_sessions :: "(u64 \<times> nat) list"
  gv_nextConnID :: u64
  gv_onConnect :: bool
  gv_onDisconnect :: bool
  gv_onHandshake :: "(u64 \<Rightarrow> bytes \<Rightarrow> 'w \<Rightarrow> bool \<times> 'w) option"
  gv_interceptor :: bool
  gv_sem :: "nat option"
  gv_used :: nat
  gv_done :: bool
  gv_listening :: bool
  gv_wg :: nat
  gv_peers :: "'c Go_Peer list"
  gv_gos :: "srv_pc list"
  gv_world :: 'w
  gv_events :: "srv_event list"
  gv_crashed :: bool

definition gv_log :: "srv_event \<Rightarrow> ('c, 'w) go_server \<Rightarrow> ('c, 'w) go_server" where
  "gv_log e s = s\<lparr>gv_events := gv_events s @ [e]\<rparr>"

definition upd_peer :: "nat \<Rightarrow> ('c Go_Peer \<Rightarrow> 'c Go_Peer) \<Rightarrow> ('c, 'w) go_server \<Rightarrow> ('c, 'w) go_server" where
  "upd_peer p f s = s\<lparr>gv_peers := (gv_peers s)[p := f (gv_peers s ! p)]\<rparr>"

definition peer_Write :: "'c net \<Rightarrow> nat \<Rightarrow> bytes \<Rightarrow> ('c, 'w) go_server \<Rightarrow> string option \<times> ('c, 'w) go_server" where
  "peer_Write N p b s =
     (let (err, c) = net_Write N (peer_conn (gv_peers s ! p)) b in (err, upd_peer p (peer_conn_update (\<lambda>_. c)) s))"

definition peer_Close :: "'c net \<Rightarrow> nat \<Rightarrow> ('c, 'w) go_server \<Rightarrow> ('c, 'w) go_server" where
  "peer_Close N p s = upd_peer p (peer_conn_update (\<lambda>c. snd (net_Close N c))) s"

subsection \<open>acceptLoop\<close>

text \<open>\<open>Accept\<close> returned an error, or a connection and the address of its peer.\<close>

definition acceptLoop_accept ::
  "string + ('c \<times> string) \<Rightarrow> ('c, 'w) go_server \<Rightarrow> srv_pc \<times> ('c, 'w) go_server" where
  "acceptLoop_accept r s =
     (case (gv_listening s, r) of
        (True, Inr (c, addr)) \<Rightarrow>
          let p = length (gv_peers s);
              peer = \<lparr>peer_id = gv_nextConnID s, peer_addr = addr, peer_conn = c, peer_writeMu = False, peer_inflight = 0\<rparr>
          in (AL_register p, s\<lparr>gv_nextConnID := gv_nextConnID s + 1, gv_peers := gv_peers s @ [peer]\<rparr>)
      | _ \<Rightarrow> if gv_done s then (AL_done, s) else (AL_accept, s))"

definition acceptLoop_register :: "nat \<Rightarrow> ('c, 'w) go_server \<Rightarrow> srv_pc \<times> ('c, 'w) go_server" where
  "acceptLoop_register p s =
     (let k = peer_id (gv_peers s ! p)
      in (AL_spawn p, s\<lparr>gv_sessions := (k, p) # filter (\<lambda>(k', _). k' \<noteq> k) (gv_sessions s)\<rparr>))"

definition acceptLoop_spawn :: "nat \<Rightarrow> ('c, 'w) go_server \<Rightarrow> srv_pc \<times> ('c, 'w) go_server" where
  "acceptLoop_spawn p s = (AL_accept, s\<lparr>gv_wg := gv_wg s + 1, gv_gos := gv_gos s @ [HC_connect p]\<rparr>)"

subsection \<open>handleConn\<close>

definition handleConn_connect :: "nat \<Rightarrow> ('c, 'w) go_server \<Rightarrow> srv_pc \<times> ('c, 'w) go_server" where
  "handleConn_connect p s =
     (let s = (if gv_onConnect s then gv_log (SvConnect p) s else s)
      in if gv_handshakeHeader s \<noteq> [] then (HC_handshake p, s) else (HC_read p, s))"

definition handleConn_handshake :: "'c net \<Rightarrow> nat \<Rightarrow> ('c, 'w) go_server \<Rightarrow> srv_pc \<times> ('c, 'w) go_server" where
  "handleConn_handshake N p s =
     (let expected = gv_handshakeHeader s;
          (err, received, c) = net_ReadFull N (peer_conn (gv_peers s ! p)) (replicate (length expected) 0);
          s = upd_peer p (peer_conn_update (\<lambda>_. c)) s
      in if err \<noteq> None then (HC_wait p, s)
         else if received \<noteq> expected then (HC_wait p, s)
         else case gv_onHandshake s of
           None \<Rightarrow> (HC_write p, s)
         | Some f \<Rightarrow>
             let (accepted, w) = f (peer_id (gv_peers s ! p)) received (gv_world s); s = s\<lparr>gv_world := w\<rparr>
             in if \<not> accepted then (HC_wait p, s) else (HC_write p, s))"

definition handleConn_write :: "'c net \<Rightarrow> nat \<Rightarrow> ('c, 'w) go_server \<Rightarrow> srv_pc \<times> ('c, 'w) go_server" where
  "handleConn_write N p s =
     (case peer_Write N p (gv_handshakeHeader s) s of
        (Some err, s) \<Rightarrow> (HC_wait p, s)
      | (None, s) \<Rightarrow> (HC_read p, s))"

definition handleConn_read :: "'c net \<Rightarrow> nat \<Rightarrow> ('c, 'w) go_server \<Rightarrow> srv_pc \<times> ('c, 'w) go_server" where
  "handleConn_read N p s =
     (let (r, c) = Go_ReadFrame N (peer_conn (gv_peers s ! p)); s = upd_peer p (peer_conn_update (\<lambda>_. c)) s
      in case r of
           Inl err \<Rightarrow> (HC_wait p, s)
         | Inr (hdr, payload) \<Rightarrow>
             if fh_Type hdr \<noteq> FrameRequest then (HC_wait p, s)
             else
               let s = gv_log (SvRequest p hdr payload) s
               in if gv_sem s \<noteq> None then (HC_sem p hdr payload, s) else (HC_go p hdr payload, s))"

text \<open>The \<open>select\<close> on the semaphore and \<open>done\<close>; it waits if neither is ready.\<close>

definition handleConn_sem ::
  "bool \<Rightarrow> nat \<Rightarrow> Go_FrameHeader \<Rightarrow> bytes \<Rightarrow> ('c, 'w) go_server \<Rightarrow> (srv_pc \<times> ('c, 'w) go_server) option" where
  "handleConn_sem prefer_done p hdr payload s =
     (let free = (case gv_sem s of Some n \<Rightarrow> gv_used s < n | None \<Rightarrow> False)
      in if gv_done s \<and> (prefer_done \<or> \<not> free) then Some (HC_wait p, gv_log (SvAbandoned p hdr payload) s)
         else if free then Some (HC_go p hdr payload, s\<lparr>gv_used := gv_used s + 1\<rparr>)
         else None)"

definition handleConn_go ::
  "nat \<Rightarrow> Go_FrameHeader \<Rightarrow> bytes \<Rightarrow> ('c, 'w) go_server \<Rightarrow> srv_pc \<times> ('c, 'w) go_server" where
  "handleConn_go p hdr payload s =
     (let s = upd_peer p (peer_inflight_update Suc) s
      in (HC_read p, s\<lparr>gv_gos := gv_gos s @ [SR_serve p hdr payload]\<rparr>))"

text \<open>The deferred function: wait for the requests in flight, then sign off.\<close>

definition handleConn_wait :: "nat \<Rightarrow> ('c, 'w) go_server \<Rightarrow> (srv_pc \<times> ('c, 'w) go_server) option" where
  "handleConn_wait p s =
     (if peer_inflight (gv_peers s ! p) > 0 then None
      else Some (HC_delete p, if gv_onDisconnect s then gv_log (SvDisconnect p) s else s))"

definition handleConn_delete :: "nat \<Rightarrow> ('c, 'w) go_server \<Rightarrow> srv_pc \<times> ('c, 'w) go_server" where
  "handleConn_delete p s =
     (HC_close p,
      s\<lparr>gv_sessions := filter (\<lambda>(k, _). k \<noteq> peer_id (gv_peers s ! p)) (gv_sessions s)\<rparr>)"

subsection \<open>serveRequest\<close>

text \<open>The response of the server to a request, and the new state of the application.\<close>

definition go_reply ::
  "(u32 \<Rightarrow> 'w go_handler option) \<Rightarrow> Go_ServerContext \<Rightarrow> Go_FrameHeader \<Rightarrow> bytes \<Rightarrow> 'w \<Rightarrow>
   (Go_StatusCode \<times> bytes \<times> Go_ServerContext) option \<times> 'w" where
  "go_reply handlers ctx hdr payload w =
     (case handlers (fh_MethodID hdr) of
        None \<Rightarrow> (Some (Go_Unimplemented, [], ctx), w)
      | Some handler \<Rightarrow>
          (case handler ctx payload w of
             (None, w) \<Rightarrow> (None, w)
           | (Some (respPayload, st, ctx), w) \<Rightarrow>
               if \<not> IsOK st then (Some (gs_Code st, [], ctx), w) else (Some (Go_OK, respPayload, ctx), w)))"

definition go_response_header :: "Go_FrameHeader \<Rightarrow> Go_StatusCode \<Rightarrow> bytes \<Rightarrow> Go_FrameHeader" where
  "go_response_header hdr respCode respPayload =
     \<lparr>fh_Type = FrameResponse, fh_StatusCode = go_code_to_wire respCode, fh_CallID = fh_CallID hdr,
      fh_MethodID = fh_MethodID hdr, fh_PayloadSize = of_nat (length respPayload)\<rparr>"

definition go_context :: "string \<Rightarrow> bool \<Rightarrow> Go_FrameHeader \<Rightarrow> Go_ServerContext" where
  "go_context addr traced hdr =
     \<lparr>gx_PeerAddress = addr, gx_MethodID = fh_MethodID hdr, gx_CallID = fh_CallID hdr, gx_Trace = traced,
      gx_MethodName = [], gx_RequestText = [], gx_ResponseText = []\<rparr>"

definition serveRequest ::
  "nat \<Rightarrow> Go_FrameHeader \<Rightarrow> bytes \<Rightarrow> ('c, 'w) go_server \<Rightarrow> srv_pc \<times> ('c, 'w) go_server" where
  "serveRequest p hdr payload s =
     (let ctx = go_context (peer_addr (gv_peers s ! p)) (gv_interceptor s) hdr
      in case go_reply (gv_handlers s) ctx hdr payload (gv_world s) of
           (None, w) \<Rightarrow> (SR_serve p hdr payload, s\<lparr>gv_world := w, gv_crashed := True\<rparr>)
         | (Some (respCode, respPayload, ctx), w) \<Rightarrow>
             let s = s\<lparr>gv_world := w\<rparr>;
                 s = (if gv_interceptor s then gv_log (SvIntercepted ctx respCode payload respPayload) s else s);
                 respHdr = go_response_header hdr respCode respPayload
             in (WR_lock p respHdr respPayload AfterResponse, 
                 gv_log (SvResponse p hdr payload respHdr respPayload) s))"

text \<open>\<open>WriteFrame\<close> under \<open>writeMu\<close>, for a response and for \<open>Send\<close>.\<close>

fun after_write :: "bool \<Rightarrow> nat \<Rightarrow> go_after \<Rightarrow> srv_pc" where
  "after_write failed p AfterResponse = (if failed then SR_close p else SR_release p)"
| "after_write failed p AfterSend = S_end"
| "after_write failed p (AfterBroadcast ps mid payload) = BC_next ps mid payload"

definition write_header ::
  "'c net \<Rightarrow> nat \<Rightarrow> Go_FrameHeader \<Rightarrow> bytes \<Rightarrow> go_after \<Rightarrow> ('c, 'w) go_server \<Rightarrow> srv_pc \<times> ('c, 'w) go_server" where
  "write_header N p hdr payload k s =
     (case peer_Write N p (Go_Serialize hdr) s of
        (Some err, s) \<Rightarrow> (after_write True p k, upd_peer p (peer_writeMu_update (\<lambda>_. False)) s)
      | (None, s) \<Rightarrow>
          if length payload > 0 then (WR_payload p payload k, s)
          else (after_write False p k, upd_peer p (peer_writeMu_update (\<lambda>_. False)) s))"

definition write_payload ::
  "'c net \<Rightarrow> nat \<Rightarrow> bytes \<Rightarrow> go_after \<Rightarrow> ('c, 'w) go_server \<Rightarrow> srv_pc \<times> ('c, 'w) go_server" where
  "write_payload N p payload k s =
     (let (err, s) = peer_Write N p payload s
      in (after_write (err \<noteq> None) p k, upd_peer p (peer_writeMu_update (\<lambda>_. False)) s))"

definition push_header :: "u32 \<Rightarrow> bytes \<Rightarrow> Go_FrameHeader" where
  "push_header mid payload =
     Go_FrameHeader_zero\<lparr>fh_Type := FramePush, fh_MethodID := mid, fh_PayloadSize := of_nat (length payload)\<rparr>"

subsection \<open>Goroutines\<close>

fun gv_turn ::
  "'c net \<Rightarrow> string + ('c \<times> string) \<Rightarrow> bool \<Rightarrow> srv_pc \<Rightarrow> ('c, 'w) go_server \<Rightarrow> (srv_pc \<times> ('c, 'w) go_server) option" where
  "gv_turn N r b AL_accept s = Some (acceptLoop_accept r s)"
| "gv_turn N r b (AL_register p) s = Some (acceptLoop_register p s)"
| "gv_turn N r b (AL_spawn p) s = Some (acceptLoop_spawn p s)"
| "gv_turn N r b AL_done s = Some (S_end, s\<lparr>gv_wg := gv_wg s - 1\<rparr>)"
| "gv_turn N r b (HC_connect p) s = Some (handleConn_connect p s)"
| "gv_turn N r b (HC_handshake p) s = Some (handleConn_handshake N p s)"
| "gv_turn N r b (HC_write p) s = Some (handleConn_write N p s)"
| "gv_turn N r b (HC_read p) s = Some (handleConn_read N p s)"
| "gv_turn N r b (HC_sem p hdr payload) s = handleConn_sem b p hdr payload s"
| "gv_turn N r b (HC_go p hdr payload) s = Some (handleConn_go p hdr payload s)"
| "gv_turn N r b (HC_wait p) s = handleConn_wait p s"
| "gv_turn N r b (HC_delete p) s = Some (handleConn_delete p s)"
| "gv_turn N r b (HC_close p) s = Some (HC_done p, peer_Close N p s)"
| "gv_turn N r b (HC_done p) s = Some (S_end, s\<lparr>gv_wg := gv_wg s - 1\<rparr>)"
| "gv_turn N r b (SR_serve p hdr payload) s = Some (serveRequest p hdr payload s)"
| "gv_turn N r b (WR_lock p hdr payload k) s =
     (if peer_writeMu (gv_peers s ! p) then None
      else Some (WR_header p hdr payload k, upd_peer p (peer_writeMu_update (\<lambda>_. True)) s))"
| "gv_turn N r b (WR_header p hdr payload k) s = Some (write_header N p hdr payload k s)"
| "gv_turn N r b (WR_payload p payload k) s = Some (write_payload N p payload k s)"
| "gv_turn N r b (SR_close p) s = Some (SR_release p, peer_Close N p s)"
| "gv_turn N r b (SR_release p) s = Some (SR_done p, if gv_sem s \<noteq> None then s\<lparr>gv_used := gv_used s - 1\<rparr> else s)"
| "gv_turn N r b (SR_done p) s = Some (S_end, upd_peer p (peer_inflight_update (\<lambda>n. n - 1)) s)"
| "gv_turn N r b (BC_next ps mid payload) s =
     (case ps of
        [] \<Rightarrow> Some (S_end, s)
      | p # ps \<Rightarrow> Some (WR_lock p (push_header mid payload) payload (AfterBroadcast ps mid payload), s))"
| "gv_turn N r b SH_check s = Some (if gv_done s then S_end else SH_done, s)"
| "gv_turn N r b SH_done s = Some (if gv_done s then (S_end, s\<lparr>gv_crashed := True\<rparr>) else (SH_listener, s\<lparr>gv_done := True\<rparr>))"
| "gv_turn N r b SH_listener s = Some (SH_sessions, s\<lparr>gv_listening := False\<rparr>)"
| "gv_turn N r b SH_sessions s = Some (SH_wait, fold (\<lambda>(k, p). peer_Close N p) (gv_sessions s) s)"
| "gv_turn N r b SH_wait s = (if gv_wg s > 0 then None else Some (S_end, gv_log SvShutdown s))"
| "gv_turn N r b WT_wait s = (if gv_wg s > 0 then None else Some (S_end, s))"
| "gv_turn N r b S_end s = None"

text \<open>The calls of the application.\<close>

definition gv_spawn :: "srv_pc \<Rightarrow> ('c, 'w) go_server \<Rightarrow> ('c, 'w) go_server" where
  "gv_spawn pc s = s\<lparr>gv_gos := gv_gos s @ [pc]\<rparr>"

definition Go_RegisterMethod :: "u32 \<Rightarrow> 'w go_handler \<Rightarrow> ('c, 'w) go_server \<Rightarrow> ('c, 'w) go_server" where
  "Go_RegisterMethod mid handler s = s\<lparr>gv_handlers := (gv_handlers s)(mid := Some handler)\<rparr>"

definition Go_GetConnections :: "('c, 'w) go_server \<Rightarrow> nat list" where
  "Go_GetConnections s = map snd (gv_sessions s)"

definition Peer_Send :: "nat \<Rightarrow> u32 \<Rightarrow> bytes \<Rightarrow> ('c, 'w) go_server \<Rightarrow> ('c, 'w) go_server" where
  "Peer_Send p mid payload s = gv_spawn (WR_lock p (push_header mid payload) payload AfterSend) s"

text \<open>\<open>ps\<close> are the connections of \<open>GetConnections\<close> in the order in which the map was ranged over.\<close>

definition Go_Broadcast :: "nat list \<Rightarrow> u32 \<Rightarrow> bytes \<Rightarrow> ('c, 'w) go_server \<Rightarrow> ('c, 'w) go_server" where
  "Go_Broadcast ps mid payload s = gv_spawn (BC_next ps mid payload) s"

definition Go_Shutdown :: "('c, 'w) go_server \<Rightarrow> ('c, 'w) go_server" where
  "Go_Shutdown s = gv_spawn SH_check s"

definition Go_Wait :: "('c, 'w) go_server \<Rightarrow> ('c, 'w) go_server" where
  "Go_Wait s = gv_spawn WT_wait s"

inductive gv_step :: "'c net \<Rightarrow> ('c, 'w) go_server \<Rightarrow> ('c, 'w) go_server \<Rightarrow> bool" for N where
  register_method: "\<not> gv_crashed s \<Longrightarrow> gv_step N s (Go_RegisterMethod mid handler s)"
| send: "\<not> gv_crashed s \<Longrightarrow> p < length (gv_peers s) \<Longrightarrow> gv_step N s (Peer_Send p mid payload s)"
| broadcast: "\<not> gv_crashed s \<Longrightarrow> distinct ps \<Longrightarrow> set ps = set (Go_GetConnections s) \<Longrightarrow>
    gv_step N s (Go_Broadcast ps mid payload s)"
| peer_close: "\<not> gv_crashed s \<Longrightarrow> p < length (gv_peers s) \<Longrightarrow> gv_step N s (peer_Close N p s)"
| shutdown: "\<not> gv_crashed s \<Longrightarrow> gv_step N s (Go_Shutdown s)"
| wait: "\<not> gv_crashed s \<Longrightarrow> gv_step N s (Go_Wait s)"
| run: "\<not> gv_crashed s \<Longrightarrow> j < length (gv_gos s) \<Longrightarrow> gv_turn N r b (gv_gos s ! j) s = Some (pc, t) \<Longrightarrow>
    gv_step N s (t\<lparr>gv_gos := (gv_gos t)[j := pc]\<rparr>)"
| network: "\<not> gv_crashed s \<Longrightarrow> p < length (gv_peers s) \<Longrightarrow>
    gv_step N s (upd_peer p (peer_conn_update (\<lambda>_. c)) s)"

subsection \<open>ServerBuilder\<close>

text \<open>A service is what its \<open>RegisterWith\<close> registers.\<close>

type_synonym 'w go_service = "(u32 \<times> 'w go_handler) list"

record 'w Go_ServerBuilder =
  gb_address :: string
  gb_port :: u16
  gb_handshakeHeader :: bytes
  gb_services :: "'w go_service list"
  gb_onConnect :: bool
  gb_onDisconnect :: bool
  gb_onHandshake :: "(u64 \<Rightarrow> bytes \<Rightarrow> 'w \<Rightarrow> bool \<times> 'w) option"
  gb_interceptor :: bool
  gb_maxConcurrent :: int

definition NewServerBuilder :: "'w Go_ServerBuilder" where
  "NewServerBuilder =
     \<lparr>gb_address = ''0.0.0.0'', gb_port = 0, gb_handshakeHeader = bytes_of_string ''pc1'', gb_services = [],
      gb_onConnect = False, gb_onDisconnect = False, gb_onHandshake = None, gb_interceptor = False,
      gb_maxConcurrent = 256\<rparr>"

definition Go_AddListeningPort :: "string \<Rightarrow> u16 \<Rightarrow> 'w Go_ServerBuilder \<Rightarrow> 'w Go_ServerBuilder" where
  "Go_AddListeningPort address port b = b\<lparr>gb_address := address, gb_port := port\<rparr>"

definition Go_SetHandshakeHeader :: "bytes \<Rightarrow> 'w Go_ServerBuilder \<Rightarrow> 'w Go_ServerBuilder" where
  "Go_SetHandshakeHeader header b = b\<lparr>gb_handshakeHeader := header\<rparr>"

definition Go_RegisterService :: "'w go_service \<Rightarrow> 'w Go_ServerBuilder \<Rightarrow> 'w Go_ServerBuilder" where
  "Go_RegisterService sv b = b\<lparr>gb_services := gb_services b @ [sv]\<rparr>"

definition Go_SetOnConnect :: "bool \<Rightarrow> 'w Go_ServerBuilder \<Rightarrow> 'w Go_ServerBuilder" where
  "Go_SetOnConnect cb b = b\<lparr>gb_onConnect := cb\<rparr>"

definition Go_SetOnDisconnect :: "bool \<Rightarrow> 'w Go_ServerBuilder \<Rightarrow> 'w Go_ServerBuilder" where
  "Go_SetOnDisconnect cb b = b\<lparr>gb_onDisconnect := cb\<rparr>"

definition Go_SetOnHandshake ::
  "(u64 \<Rightarrow> bytes \<Rightarrow> 'w \<Rightarrow> bool \<times> 'w) option \<Rightarrow> 'w Go_ServerBuilder \<Rightarrow> 'w Go_ServerBuilder" where
  "Go_SetOnHandshake cb b = b\<lparr>gb_onHandshake := cb\<rparr>"

definition SetMaxConcurrentRequests :: "int \<Rightarrow> 'w Go_ServerBuilder \<Rightarrow> 'w Go_ServerBuilder" where
  "SetMaxConcurrentRequests n b = b\<lparr>gb_maxConcurrent := n\<rparr>"

definition Go_SetServerInterceptor :: "bool \<Rightarrow> 'w Go_ServerBuilder \<Rightarrow> 'w Go_ServerBuilder" where
  "Go_SetServerInterceptor fn b = b\<lparr>gb_interceptor := fn\<rparr>"

text \<open>\<open>net.Listen\<close> gives the error it failed with, or none; \<open>w\<close> is the state of the application.\<close>

definition Go_BuildAndStart ::
  "(string \<Rightarrow> u16 \<Rightarrow> string option) \<Rightarrow> 'w Go_ServerBuilder \<Rightarrow> 'w \<Rightarrow> string + ('c, 'w) go_server" where
  "Go_BuildAndStart listen b w =
     (let s = \<lparr>gv_handshakeHeader = gb_handshakeHeader b, gv_handlers = (\<lambda>_. None), gv_sessions = [],
            gv_nextConnID = 1, gv_onConnect = gb_onConnect b, gv_onDisconnect = gb_onDisconnect b,
            gv_onHandshake = gb_onHandshake b, gv_interceptor = gb_interceptor b,
            gv_sem = (if gb_maxConcurrent b > 0 then Some (nat (gb_maxConcurrent b)) else None), gv_used = 0,
            gv_done = False, gv_listening = True, gv_wg = 0, gv_peers = [], gv_gos = [], gv_world = w,
            gv_events = [], gv_crashed = False\<rparr>;
          s = fold (fold (\<lambda>(mid, handler). Go_RegisterMethod mid handler)) (gb_services b) s
      in case listen (gb_address b) (gb_port b) of
           Some err \<Rightarrow> Inl err
         | None \<Rightarrow> Inr (s\<lparr>gv_wg := gv_wg s + 1, gv_gos := gv_gos s @ [AL_accept]\<rparr>))"

definition gv_init :: "('c, 'w) go_server \<Rightarrow> bool" where
  "gv_init s \<longleftrightarrow> (\<exists>listen b w. Go_BuildAndStart listen b w = Inr s)"

end
