(* ===== verification/Go_Server_Inv.thy ===== *)
theory Go_Server_Inv
  imports Go_Server "HOL-Library.Multiset"
begin

text \<open>
  What the Go server promises: every request is answered exactly once unless the server shuts down
  first, at most \<open>cap(sem)\<close> requests are served at a time, and a connection signs off only when all its
  requests are done.
\<close>

subsection \<open>Fields\<close>

lemma gv_log_fields [simp]:
  "gv_gos (gv_log e s) = gv_gos s" "gv_peers (gv_log e s) = gv_peers s" "gv_sessions (gv_log e s) = gv_sessions s"
  "gv_sem (gv_log e s) = gv_sem s" "gv_used (gv_log e s) = gv_used s" "gv_done (gv_log e s) = gv_done s"
  "gv_nextConnID (gv_log e s) = gv_nextConnID s" "gv_events (gv_log e s) = gv_events s @ [e]"
  "gv_wg (gv_log e s) = gv_wg s" "gv_onDisconnect (gv_log e s) = gv_onDisconnect s"
  by (simp_all add: gv_log_def)

lemma upd_peer_fields [simp]:
  "gv_gos (upd_peer p f s) = gv_gos s" "gv_sessions (upd_peer p f s) = gv_sessions s"
  "gv_sem (upd_peer p f s) = gv_sem s" "gv_used (upd_peer p f s) = gv_used s" "gv_done (upd_peer p f s) = gv_done s"
  "gv_nextConnID (upd_peer p f s) = gv_nextConnID s" "gv_events (upd_peer p f s) = gv_events s"
  "gv_wg (upd_peer p f s) = gv_wg s" "gv_onDisconnect (upd_peer p f s) = gv_onDisconnect s"
  "length (gv_peers (upd_peer p f s)) = length (gv_peers s)"
  by (simp_all add: upd_peer_def)

definition peer_view :: "'c Go_Peer \<Rightarrow> u64 \<times> string \<times> bool \<times> nat" where
  "peer_view p = (peer_id p, peer_addr p, peer_writeMu p, peer_inflight p)"

text \<open>Connections may have moved on, and so may the state of the application.\<close>

definition conns_moved :: "('c, 'w) go_server \<Rightarrow> ('c, 'w) go_server \<Rightarrow> bool" where
  "conns_moved s u \<longleftrightarrow>
     (\<exists>ps w. u = s\<lparr>gv_peers := ps, gv_world := w\<rparr> \<and>
        map peer_view ps =
        map peer_view (gv_peers s))"

lemma conns_moved_refl [simp]: "conns_moved s s"
  unfolding conns_moved_def by (intro exI [of _ "gv_peers s"] exI [of _ "gv_world s"]) simp

lemma conns_moved_trans:
  assumes "conns_moved s t" and "conns_moved t u"
  shows "conns_moved s u"
proof -
  from assms(1) obtain ps w where 1: "t = s\<lparr>gv_peers := ps, gv_world := w\<rparr>"
    "map peer_view ps =
      map peer_view (gv_peers s)" unfolding conns_moved_def by blast
  from assms(2) obtain qs v where 2: "u = t\<lparr>gv_peers := qs, gv_world := v\<rparr>"
    "map peer_view qs =
      map peer_view (gv_peers t)" unfolding conns_moved_def by blast
  show ?thesis unfolding conns_moved_def by (rule exI [of _ qs], rule exI [of _ v]) (simp add: 1 2)
qed

lemma conns_moved_peer [simp]: "conns_moved s (upd_peer p (peer_conn_update f) s)"
proof -
  have "map peer_view ((gv_peers s)[p := peer_conn_update f (gv_peers s ! p)]) = map peer_view (gv_peers s)"
    by (cases "p < length (gv_peers s)")
      (simp_all add: map_update peer_view_def list_update_same_conv list_update_beyond)
  then show ?thesis unfolding conns_moved_def upd_peer_def
    by (intro exI [of _ "(gv_peers s)[p := peer_conn_update f (gv_peers s ! p)]"] exI [of _ "gv_world s"]) simp
qed

lemma conns_moved_Close [simp]: "conns_moved s (peer_Close N p s)"
  by (simp add: peer_Close_def)

lemma conns_moved_Write: "peer_Write N p b s = (err, u) \<Longrightarrow> conns_moved s u"
  by (auto simp: peer_Write_def case_prod_unfold Let_def)

lemma conns_moved_world [simp]: "conns_moved s (s\<lparr>gv_world := w\<rparr>)"
  unfolding conns_moved_def by (intro exI [of _ "gv_peers s"] exI [of _ w]) simp

lemma conns_moved_fields:
  assumes "conns_moved s u"
  shows "gv_gos u = gv_gos s" "gv_sessions u = gv_sessions s" "gv_sem u = gv_sem s" "gv_used u = gv_used s"
    "gv_done u = gv_done s" "gv_nextConnID u = gv_nextConnID s" "gv_events u = gv_events s" "gv_wg u = gv_wg s"
    "length (gv_peers u) = length (gv_peers s)" "gv_onDisconnect u = gv_onDisconnect s"
    "p < length (gv_peers s) \<Longrightarrow> peer_inflight (gv_peers u ! p) = peer_inflight (gv_peers s ! p)"
    "p < length (gv_peers s) \<Longrightarrow> peer_writeMu (gv_peers u ! p) = peer_writeMu (gv_peers s ! p)"
    "p < length (gv_peers s) \<Longrightarrow> peer_id (gv_peers u ! p) = peer_id (gv_peers s ! p)"
    "p < length (gv_peers s) \<Longrightarrow> peer_view (gv_peers u ! p) = peer_view (gv_peers s ! p)"
proof -
  from assms obtain ps w where u: "u = s\<lparr>gv_peers := ps, gv_world := w\<rparr>" and m: "map peer_view ps = map peer_view (gv_peers s)"
    by (auto simp: conns_moved_def)
  from m have len: "length ps = length (gv_peers s)" by (rule map_eq_imp_length_eq)
  have view: "peer_view (ps ! p) = peer_view (gv_peers s ! p)" if "p < length (gv_peers s)"
    using that len nth_map [of p ps peer_view] nth_map [of p "gv_peers s" peer_view] m by simp
  then show "p < length (gv_peers s) \<Longrightarrow> peer_view (gv_peers u ! p) = peer_view (gv_peers s ! p)" by (simp add: u)
  from view show "p < length (gv_peers s) \<Longrightarrow> peer_inflight (gv_peers u ! p) = peer_inflight (gv_peers s ! p)"
    "p < length (gv_peers s) \<Longrightarrow> peer_writeMu (gv_peers u ! p) = peer_writeMu (gv_peers s ! p)"
    "p < length (gv_peers s) \<Longrightarrow> peer_id (gv_peers u ! p) = peer_id (gv_peers s ! p)" by (simp_all add: u peer_view_def)
  show "gv_gos u = gv_gos s" "gv_sessions u = gv_sessions s" "gv_sem u = gv_sem s" "gv_used u = gv_used s"
    "gv_done u = gv_done s" "gv_nextConnID u = gv_nextConnID s" "gv_events u = gv_events s" "gv_wg u = gv_wg s"
    "length (gv_peers u) = length (gv_peers s)" "gv_onDisconnect u = gv_onDisconnect s" by (simp_all add: u len)
qed

lemma conns_moved_sessions: "conns_moved s (fold (\<lambda>(k, p). peer_Close N p) ks s)"
proof (induction ks arbitrary: s)
  case (Cons kp ks)
  obtain k p where kp: "kp = (k, p)" by (cases kp)
  from conns_moved_trans [OF conns_moved_Close Cons] kp show ?case by simp
qed simp

subsection \<open>What a turn can do\<close>

lemma handleConn_handshake_cases:
  "\<exists>u. conns_moved s u \<and> (handleConn_handshake N p s = (HC_wait p, u) \<or> handleConn_handshake N p s = (HC_write p, u))"
proof -
  obtain e b c where r: "net_ReadFull N (peer_conn (gv_peers s ! p)) (replicate (length (gv_handshakeHeader s)) 0) = (e, b, c)"
    by (metis surj_pair)
  let ?u = "upd_peer p (peer_conn_update (\<lambda>_. c)) s"
  have "conns_moved s (?u\<lparr>gv_world := w\<rparr>)" for w
    by (rule conns_moved_trans [OF conns_moved_peer conns_moved_world])
  moreover have "handleConn_handshake N p s = (HC_wait p, ?u) \<or> handleConn_handshake N p s = (HC_write p, ?u) \<or>
    (\<exists>w. handleConn_handshake N p s = (HC_wait p, ?u\<lparr>gv_world := w\<rparr>) \<or>
         handleConn_handshake N p s = (HC_write p, ?u\<lparr>gv_world := w\<rparr>))"
  proof (cases "e = None \<and> b = gv_handshakeHeader s")
    case True
    then show ?thesis using r
      by (cases "gv_onHandshake s") (simp_all add: handleConn_handshake_def Let_def case_prod_unfold upd_peer_def, blast)
  next
    case False
    then show ?thesis using r by (auto simp: handleConn_handshake_def Let_def)
  qed
  ultimately show ?thesis using conns_moved_peer [of s p "\<lambda>_. c"] by blast
qed

lemma handleConn_read_cases:
  "(\<exists>u. conns_moved s u \<and> handleConn_read N p s = (HC_wait p, u)) \<or>
   (\<exists>hdr payload u. conns_moved s u \<and> fh_Type hdr = FrameRequest \<and>
      handleConn_read N p s =
        (if gv_sem s = None then HC_go p hdr payload else HC_sem p hdr payload, gv_log (SvRequest p hdr payload) u))"
proof -
  obtain x c where r: "Go_ReadFrame N (peer_conn (gv_peers s ! p)) = (x, c)" by fastforce
  let ?u = "upd_peer p (peer_conn_update (\<lambda>_. c)) s"
  have "handleConn_read N p s = (HC_wait p, ?u) \<or>
    (\<exists>hdr payload. fh_Type hdr = FrameRequest \<and> handleConn_read N p s =
       (if gv_sem s = None then HC_go p hdr payload else HC_sem p hdr payload, gv_log (SvRequest p hdr payload) ?u))"
  proof (cases x)
    case (Inr f)
    with r show ?thesis
      by (cases f; cases "fh_Type (fst f) = FrameRequest"; cases "gv_sem s") (simp_all add: handleConn_read_def Let_def)
  qed (use r in \<open>simp add: handleConn_read_def Let_def\<close>)
  with conns_moved_peer [of s p "\<lambda>_. c"] show ?thesis by blast
qed

lemma write_header_cases:
  "\<exists>u. conns_moved s u \<and>
     (write_header N p hdr payload k s = (WR_payload p payload k, u) \<or>
      (\<exists>failed. write_header N p hdr payload k s = (after_write failed p k, upd_peer p (peer_writeMu_update (\<lambda>_. False)) u)))"
proof -
  obtain e u where w: "peer_Write N p (Go_Serialize hdr) s = (e, u)" by fastforce
  then have "write_header N p hdr payload k s = (WR_payload p payload k, u) \<or>
      (\<exists>failed. write_header N p hdr payload k s = (after_write failed p k, upd_peer p (peer_writeMu_update (\<lambda>_. False)) u))"
    by (cases e) (auto simp: write_header_def)
  with conns_moved_Write [OF w] show ?thesis by blast
qed

lemma write_payload_cases:
  "\<exists>u failed. conns_moved s u \<and>
     write_payload N p payload k s = (after_write failed p k, upd_peer p (peer_writeMu_update (\<lambda>_. False)) u)"
proof -
  obtain e u where w: "peer_Write N p payload s = (e, u)" by fastforce
  from conns_moved_Write [OF w] w show ?thesis by (auto simp: write_payload_def)
qed

lemma serveRequest_cases:
  "(\<exists>w. serveRequest p hdr payload s = (SR_serve p hdr payload, s\<lparr>gv_world := w, gv_crashed := True\<rparr>)) \<or>
   (\<exists>code body w e. (e = [] \<or> (\<exists>ctx. e = [SvIntercepted ctx code payload body])) \<and>
      serveRequest p hdr payload s =
        (WR_lock p (go_response_header hdr code body) body AfterResponse,
         s\<lparr>gv_world := w, gv_events := gv_events s @ e @ [SvResponse p hdr payload (go_response_header hdr code body) body]\<rparr>))"
proof -
  let ?ctx = "go_context (peer_addr (gv_peers s ! p)) (gv_interceptor s) hdr"
  obtain x w where r: "go_reply (gv_handlers s) ?ctx hdr payload (gv_world s) = (x, w)" by fastforce
  show ?thesis
  proof (cases x)
    case None
    with r show ?thesis by (auto simp: serveRequest_def)
  next
    case (Some y)
    then obtain code body ctx where y: "x = Some (code, body, ctx)" by (cases y) auto
    have "serveRequest p hdr payload s =
        (WR_lock p (go_response_header hdr code body) body AfterResponse,
         s\<lparr>gv_world := w, gv_events := gv_events s @ (if gv_interceptor s then [SvIntercepted ctx code payload body] else []) @
           [SvResponse p hdr payload (go_response_header hdr code body) body]\<rparr>)"
      using r y by (simp add: serveRequest_def gv_log_def Let_def)
    moreover have "(if gv_interceptor s then [SvIntercepted ctx code payload body] else []) = [] \<or>
      (\<exists>ctx'. (if gv_interceptor s then [SvIntercepted ctx code payload body] else []) = [SvIntercepted ctx' code payload body])"
      by simp
    ultimately show ?thesis by blast
  qed
qed

fun shutdown_pc :: "srv_pc \<Rightarrow> bool" where
  "shutdown_pc SH_check = True"
| "shutdown_pc SH_done = True"
| "shutdown_pc SH_listener = True"
| "shutdown_pc SH_sessions = True"
| "shutdown_pc SH_wait = True"
| "shutdown_pc WT_wait = True"
| "shutdown_pc S_end = True"
| "shutdown_pc _ = False"

text \<open>Every turn is one of these; the steps of \<open>Shutdown\<close> and \<open>Wait\<close> are taken together.\<close>

lemma gv_turn_cases:
  assumes "gv_turn N r b pc s = Some q"
  obtains
    (accept) c addr where "pc = AL_accept" "gv_listening s"
      "q = (AL_register (length (gv_peers s)), s\<lparr>gv_nextConnID := gv_nextConnID s + 1, gv_peers := gv_peers s @
        [\<lparr>peer_id = gv_nextConnID s, peer_addr = addr, peer_conn = c, peer_writeMu = False, peer_inflight = 0\<rparr>]\<rparr>)"
  | (accept_none) pc' where "pc = AL_accept" "q = (pc', s)" "pc' = AL_accept \<or> pc' = AL_done \<and> gv_done s"
  | (register) p where "pc = AL_register p"
      "q = (AL_spawn p, s\<lparr>gv_sessions := (peer_id (gv_peers s ! p), p) #
          filter (\<lambda>(k', _). k' \<noteq> peer_id (gv_peers s ! p)) (gv_sessions s)\<rparr>)"
  | (spawn) p where "pc = AL_spawn p"
      "q = (AL_accept, s\<lparr>gv_wg := gv_wg s + 1, gv_gos := gv_gos s @ [HC_connect p]\<rparr>)"
  | (wg_done) "pc = AL_done \<or> (\<exists>p. pc = HC_done p)" "q = (S_end, s\<lparr>gv_wg := gv_wg s - 1\<rparr>)"
  | (connect) p pc' e where "pc = HC_connect p" "pc' = HC_handshake p \<or> pc' = HC_read p"
      "e = [] \<or> e = [SvConnect p]" "q = (pc', s\<lparr>gv_events := gv_events s @ e\<rparr>)"
  | (hs) p pc' u where "pc = HC_handshake p \<or> pc = HC_write p" "pc' = HC_wait p \<or> pc' = HC_write p \<or> pc' = HC_read p"
      "conns_moved s u" "q = (pc', u)"
  | (read_end) p u where "pc = HC_read p" "conns_moved s u" "q = (HC_wait p, u)"
  | (request) p hdr payload u where "pc = HC_read p" "conns_moved s u"
      "q = (if gv_sem s = None then HC_go p hdr payload else HC_sem p hdr payload, gv_log (SvRequest p hdr payload) u)"
  | (abandon) p hdr payload where "pc = HC_sem p hdr payload" "gv_done s" "q = (HC_wait p, gv_log (SvAbandoned p hdr payload) s)"
  | (acquire) p hdr payload n where "pc = HC_sem p hdr payload" "gv_sem s = Some n" "gv_used s < n"
      "q = (HC_go p hdr payload, s\<lparr>gv_used := gv_used s + 1\<rparr>)"
  | (start) p hdr payload where "pc = HC_go p hdr payload"
      "q = (HC_read p, (upd_peer p (peer_inflight_update Suc) s)\<lparr>gv_gos := gv_gos s @ [SR_serve p hdr payload]\<rparr>)"
  | (sign_off) p e where "pc = HC_wait p" "peer_inflight (gv_peers s ! p) = 0" "e = [] \<or> e = [SvDisconnect p]"
      "q = (HC_delete p, s\<lparr>gv_events := gv_events s @ e\<rparr>)"
  | (delete) p where "pc = HC_delete p"
      "q = (HC_close p, s\<lparr>gv_sessions := filter (\<lambda>(k, _). k \<noteq> peer_id (gv_peers s ! p)) (gv_sessions s)\<rparr>)"
  | (close) p u where "pc = HC_close p" "conns_moved s u" "q = (HC_done p, u)"
  | (panic) p hdr payload w where "pc = SR_serve p hdr payload"
      "q = (SR_serve p hdr payload, s\<lparr>gv_world := w, gv_crashed := True\<rparr>)"
  | (serve) p hdr payload code body w e where "pc = SR_serve p hdr payload"
      "e = [] \<or> (\<exists>ctx. e = [SvIntercepted ctx code payload body])"
      "q = (WR_lock p (go_response_header hdr code body) body AfterResponse,
        s\<lparr>gv_world := w, gv_events := gv_events s @ e @ [SvResponse p hdr payload (go_response_header hdr code body) body]\<rparr>)"
  | (write_locked) p hdr payload k where "pc = WR_lock p hdr payload k" "\<not> peer_writeMu (gv_peers s ! p)"
      "q = (WR_header p hdr payload k, upd_peer p (peer_writeMu_update (\<lambda>_. True)) s)"
  | (header) p hdr payload k u where "pc = WR_header p hdr payload k" "conns_moved s u" "q = (WR_payload p payload k, u)"
  | (written) p hdr payload k u failed where "pc = WR_header p hdr payload k \<or> pc = WR_payload p payload k" "conns_moved s u"
      "q = (after_write failed p k, upd_peer p (peer_writeMu_update (\<lambda>_. False)) u)"
  | (close_failed) p u where "pc = SR_close p" "conns_moved s u" "q = (SR_release p, u)"
  | (release) p where "pc = SR_release p"
      "q = (SR_done p, s\<lparr>gv_used := (if gv_sem s = None then gv_used s else gv_used s - 1)\<rparr>)"
  | (served) p where "pc = SR_done p" "q = (S_end, upd_peer p (peer_inflight_update (\<lambda>n. n - 1)) s)"
  | (broadcast) p ps mid payload hdr where "pc = BC_next (p # ps) mid payload"
      "q = (WR_lock p hdr payload (AfterBroadcast ps mid payload), s)"
  | (broadcast_end) mid payload where "pc = BC_next [] mid payload" "q = (S_end, s)"
  | (shutdown) pc' u where "shutdown_pc pc" "shutdown_pc pc'" "q = (pc', u)"
      "gv_gos u = gv_gos s" "gv_sessions u = gv_sessions s" "gv_sem u = gv_sem s" "gv_used u = gv_used s"
      "gv_done s \<longrightarrow> gv_done u" "length (gv_peers u) = length (gv_peers s)" "gv_wg u = gv_wg s"
      "gv_events u = gv_events s \<or> gv_events u = gv_events s @ [SvShutdown] \<and> gv_wg s = 0"
      "\<forall>p < length (gv_peers s). peer_view (gv_peers u ! p) = peer_view (gv_peers s ! p)" "gv_nextConnID u = gv_nextConnID s"
proof -
  note eq = assms [symmetric]
  show ?thesis
  proof (cases pc)
    case AL_accept
    show ?thesis
    proof (cases "gv_listening s \<and> (\<exists>x. r = Inr x)")
      case True
      then obtain c addr where "r = Inr (c, addr)" "gv_listening s" by auto
      with AL_accept eq show ?thesis by (intro accept) (simp_all add: acceptLoop_accept_def Let_def)
    next
      case False
      with AL_accept eq have "q = (if gv_done s then AL_done else AL_accept, s)"
        by (cases r; cases "gv_listening s") (auto simp: acceptLoop_accept_def)
      with AL_accept accept_none show ?thesis by (cases "gv_done s") simp_all
    qed
  next
    case (AL_register p)
    with eq show ?thesis by (intro register) (simp_all add: acceptLoop_register_def Let_def)
  next
    case (AL_spawn p)
    with eq show ?thesis by (intro spawn) (simp_all add: acceptLoop_spawn_def)
  next
    case AL_done
    with eq show ?thesis by (intro wg_done) simp_all
  next
    case (HC_connect p)
    with eq show ?thesis
      by (intro connect [of p "fst q" "if gv_onConnect s then [SvConnect p] else []"])
        (auto simp: handleConn_connect_def gv_log_def Let_def)
  next
    case (HC_handshake p)
    with eq have q: "handleConn_handshake N p s = q" by simp
    from handleConn_handshake_cases [of s N p, unfolded q] show ?thesis
      by (elim exE conjE disjE) (rule hs [OF disjI1 [OF HC_handshake]], simp_all)+
  next
    case (HC_write p)
    obtain e u where w: "peer_Write N p (gv_handshakeHeader s) s = (e, u)" by fastforce
    with HC_write eq have "q = (if e = None then HC_read p else HC_wait p, u)" by (cases e) (simp_all add: handleConn_write_def)
    with conns_moved_Write [OF w] show ?thesis by (intro hs [OF disjI2 [OF HC_write]]) auto
  next
    case (HC_read p)
    with eq have q: "handleConn_read N p s = q" by simp
    from handleConn_read_cases [of s N p, unfolded q] show ?thesis
      by (elim exE conjE disjE) (rule read_end [OF HC_read], assumption+, rule request [OF HC_read], assumption+)
  next
    case (HC_sem p hdr payload)
    then show ?thesis using eq
      by (cases "gv_sem s") (auto simp: handleConn_sem_def Let_def intro: abandon acquire split: if_splits)
  next
    case (HC_go p hdr payload)
    with eq show ?thesis by (intro start) (simp_all add: handleConn_go_def Let_def)
  next
    case (HC_wait p)
    with eq show ?thesis
      by (intro sign_off [of p "if gv_onDisconnect s then [SvDisconnect p] else []"])
        (auto simp: handleConn_wait_def gv_log_def split: if_splits)
  next
    case (HC_delete p)
    with eq show ?thesis by (intro delete) (simp_all add: handleConn_delete_def)
  next
    case (HC_close p)
    with eq show ?thesis by (intro close [OF HC_close conns_moved_Close]) simp
  next
    case (HC_done p)
    with eq show ?thesis by (intro wg_done) simp_all
  next
    case (SR_serve p hdr payload)
    with eq have q: "serveRequest p hdr payload s = q" by simp
    from serveRequest_cases [of p hdr payload s, unfolded q] show ?thesis
      by (elim disjE exE conjE) 
        (rule panic [OF SR_serve], assumption, rule serve [OF SR_serve], rule disjI1, assumption+,
         rule serve [OF SR_serve], rule disjI2, blast, assumption)
  next
    case (WR_lock p hdr payload k)
    with eq show ?thesis by (intro write_locked) (simp_all split: if_splits)
  next
    case (WR_header p hdr payload k)
    with eq have q: "write_header N p hdr payload k s = q" by simp
    from write_header_cases [of s N p hdr payload k, unfolded q] show ?thesis
      by (elim disjE exE conjE)
        (rule header [OF WR_header], assumption, simp, rule written [OF disjI1 [OF WR_header]], assumption, simp)
  next
    case (WR_payload p payload k)
    with eq have q: "write_payload N p payload k s = q" by simp
    from write_payload_cases [of s N p payload k, unfolded q] show ?thesis
      by (elim exE conjE) (rule written [OF disjI2 [OF WR_payload]], assumption, simp)
  next
    case (SR_close p)
    with eq show ?thesis by (intro close_failed [OF SR_close conns_moved_Close]) simp
  next
    case (SR_release p)
    with eq show ?thesis by (intro release) (cases "gv_sem s"; simp)+
  next
    case (SR_done p)
    with eq show ?thesis by (intro served) simp_all
  next
    case (BC_next ps mid payload)
    with eq show ?thesis by (cases ps) (auto intro: broadcast broadcast_end)
  next
    case SH_sessions
    with eq conns_moved_fields [OF conns_moved_sessions [of s N "gv_sessions s"]] show ?thesis
      by (intro shutdown [of SH_wait "snd q"]) simp_all
  qed (use eq in \<open>auto simp: gv_log_def intro!: shutdown [of "fst q" "snd q"] split: if_splits\<close>)
qed

subsection \<open>Counting goroutines\<close>

definition cnt :: "(srv_pc \<Rightarrow> bool) \<Rightarrow> ('c, 'w) go_server \<Rightarrow> nat" where
  "cnt P s = length (filter P (gv_gos s))"

text \<open>A goroutine that serves a request of connection \<open>p\<close>, and one that has a slot of the semaphore.\<close>

fun serving :: "nat \<Rightarrow> srv_pc \<Rightarrow> bool" where
  "serving p (SR_serve q hdr payload) = (q = p)"
| "serving p (WR_lock q hdr payload k) = (q = p \<and> k = AfterResponse)"
| "serving p (WR_header q hdr payload k) = (q = p \<and> k = AfterResponse)"
| "serving p (WR_payload q payload k) = (q = p \<and> k = AfterResponse)"
| "serving p (SR_close q) = (q = p)"
| "serving p (SR_release q) = (q = p)"
| "serving p (SR_done q) = (q = p)"
| "serving p _ = False"

fun has_slot :: "srv_pc \<Rightarrow> bool" where
  "has_slot (HC_go p hdr payload) = True"
| "has_slot (SR_serve p hdr payload) = True"
| "has_slot (WR_lock p hdr payload k) = (k = AfterResponse)"
| "has_slot (WR_header p hdr payload k) = (k = AfterResponse)"
| "has_slot (WR_payload p payload k) = (k = AfterResponse)"
| "has_slot (SR_close p) = True"
| "has_slot (SR_release p) = True"
| "has_slot _ = False"

text \<open>The goroutine that accepted or handles connection \<open>p\<close>, as long as it has not signed off; and after.\<close>

fun active :: "nat \<Rightarrow> srv_pc \<Rightarrow> bool" where
  "active p (AL_register q) = (q = p)"
| "active p (AL_spawn q) = (q = p)"
| "active p (HC_connect q) = (q = p)"
| "active p (HC_handshake q) = (q = p)"
| "active p (HC_write q) = (q = p)"
| "active p (HC_read q) = (q = p)"
| "active p (HC_sem q hdr payload) = (q = p)"
| "active p (HC_go q hdr payload) = (q = p)"
| "active p (HC_wait q) = (q = p)"
| "active p _ = False"

text \<open>The connections a goroutine refers to.\<close>

fun pc_peers :: "srv_pc \<Rightarrow> nat set" where
  "pc_peers (AL_register p) = {p}"
| "pc_peers (AL_spawn p) = {p}"
| "pc_peers (HC_connect p) = {p}"
| "pc_peers (HC_handshake p) = {p}"
| "pc_peers (HC_write p) = {p}"
| "pc_peers (HC_read p) = {p}"
| "pc_peers (HC_sem p hdr payload) = {p}"
| "pc_peers (HC_go p hdr payload) = {p}"
| "pc_peers (HC_wait p) = {p}"
| "pc_peers (HC_delete p) = {p}"
| "pc_peers (HC_close p) = {p}"
| "pc_peers (HC_done p) = {p}"
| "pc_peers (SR_serve p hdr payload) = {p}"
| "pc_peers (WR_lock p hdr payload k) = {p} \<union> (case k of AfterBroadcast ps _ _ \<Rightarrow> set ps | _ \<Rightarrow> {})"
| "pc_peers (WR_header p hdr payload k) = {p} \<union> (case k of AfterBroadcast ps _ _ \<Rightarrow> set ps | _ \<Rightarrow> {})"
| "pc_peers (WR_payload p payload k) = {p} \<union> (case k of AfterBroadcast ps _ _ \<Rightarrow> set ps | _ \<Rightarrow> {})"
| "pc_peers (SR_close p) = {p}"
| "pc_peers (SR_release p) = {p}"
| "pc_peers (SR_done p) = {p}"
| "pc_peers (BC_next ps mid payload) = set ps"
| "pc_peers _ = {}"

text \<open>The requests that were read and not yet answered.\<close>

fun in_progress :: "srv_pc \<Rightarrow> (nat \<times> Go_FrameHeader \<times> bytes) multiset" where
  "in_progress (HC_sem p hdr payload) = {#(p, hdr, payload)#}"
| "in_progress (HC_go p hdr payload) = {#(p, hdr, payload)#}"
| "in_progress (SR_serve p hdr payload) = {#(p, hdr, payload)#}"
| "in_progress _ = {#}"

fun ev_request :: "srv_event \<Rightarrow> (nat \<times> Go_FrameHeader \<times> bytes) multiset" where
  "ev_request (SvRequest p hdr payload) = {#(p, hdr, payload)#}"
| "ev_request _ = {#}"

fun ev_answered :: "srv_event \<Rightarrow> (nat \<times> Go_FrameHeader \<times> bytes) multiset" where
  "ev_answered (SvResponse p hdr payload rhdr body) = {#(p, hdr, payload)#}"
| "ev_answered _ = {#}"

fun ev_abandoned :: "srv_event \<Rightarrow> (nat \<times> Go_FrameHeader \<times> bytes) multiset" where
  "ev_abandoned (SvAbandoned p hdr payload) = {#(p, hdr, payload)#}"
| "ev_abandoned _ = {#}"

definition go_requests :: "('c, 'w) go_server \<Rightarrow> (nat \<times> Go_FrameHeader \<times> bytes) multiset" where
  "go_requests s = (\<Sum>e\<leftarrow>gv_events s. ev_request e)"

definition go_answered :: "('c, 'w) go_server \<Rightarrow> (nat \<times> Go_FrameHeader \<times> bytes) multiset" where
  "go_answered s = (\<Sum>e\<leftarrow>gv_events s. ev_answered e)"

definition go_abandoned :: "('c, 'w) go_server \<Rightarrow> (nat \<times> Go_FrameHeader \<times> bytes) multiset" where
  "go_abandoned s = (\<Sum>e\<leftarrow>gv_events s. ev_abandoned e)"

definition go_in_progress :: "('c, 'w) go_server \<Rightarrow> (nat \<times> Go_FrameHeader \<times> bytes) multiset" where
  "go_in_progress s = (\<Sum>pc\<leftarrow>gv_gos s. in_progress pc)"

lemmas request_counts = go_requests_def go_answered_def go_abandoned_def

subsection \<open>One turn\<close>

lemma after_write_simps [simp]:
  "serving p (after_write failed q k) \<longleftrightarrow> q = p \<and> k = AfterResponse" "has_slot (after_write failed q k) \<longleftrightarrow> k = AfterResponse"
  "\<not> active p (after_write failed q k)" "in_progress (after_write failed q k) = {#}"
  by (cases k; cases failed; simp)+

lemma after_write_peers:
  "pc_peers (after_write failed q k) \<subseteq> insert q (case k of AfterBroadcast ps _ _ \<Rightarrow> set ps | _ \<Rightarrow> {})"
  by (cases k; cases failed) auto

lemma shutdown_pc_simps [simp]:
  assumes "shutdown_pc pc"
  shows "\<not> serving p pc" "\<not> has_slot pc" "\<not> active p pc" "in_progress pc = {#}" "pc_peers pc = {}"
  using assms by (cases pc; simp)+

lemma nth_upd_peer:
  "p < length (gv_peers s) \<Longrightarrow> gv_peers (upd_peer q f s) ! p = (if q = p then f (gv_peers s ! p) else gv_peers s ! p)"
  by (auto simp: upd_peer_def)

lemma turn_gos:
  "gv_turn N r b pc s = Some (pc', t) \<Longrightarrow>
   gv_gos t = gv_gos s \<or> (\<exists>p. pc = AL_spawn p \<and> pc' = AL_accept \<and> gv_gos t = gv_gos s @ [HC_connect p]) \<or>
   (\<exists>p hdr payload. pc = HC_go p hdr payload \<and> pc' = HC_read p \<and> gv_gos t = gv_gos s @ [SR_serve p hdr payload])"
  by (cases rule: gv_turn_cases) (auto simp: conns_moved_fields)

lemma inflight_turn:
  assumes "gv_turn N r b pc s = Some (pc', t)" and "gv_gos t = gv_gos s @ new" and "p < length (gv_peers s)"
    and "serving p pc \<longrightarrow> peer_inflight (gv_peers s ! p) > 0"
  shows "peer_inflight (gv_peers t ! p) + of_bool (serving p pc) =
    peer_inflight (gv_peers s ! p) + of_bool (serving p pc') + length (filter (serving p) new)"
  using assms(1)
  by (cases rule: gv_turn_cases)
    (use assms(2-4) in \<open>auto simp: conns_moved_fields nth_upd_peer nth_append peer_view_def\<close>)

lemma slot_turn:
  assumes "gv_turn N r b pc s = Some (pc', t)" and "gv_gos t = gv_gos s @ new" and "gv_sem s = Some n"
    and "has_slot pc \<longrightarrow> gv_used s > 0"
  shows "gv_used t + of_bool (has_slot pc) = gv_used s + of_bool (has_slot pc') + length (filter has_slot new)"
  using assms(1) by (cases rule: gv_turn_cases) (use assms(2-4) in \<open>auto simp: conns_moved_fields\<close>)

lemma used_turn:
  assumes "gv_turn N r b pc s = Some (pc', t)" and "gv_sem s = Some n" and "gv_used s \<le> n"
  shows "gv_used t \<le> n"
  using assms(1) by (cases rule: gv_turn_cases) (use assms(2,3) in \<open>auto simp: conns_moved_fields\<close>)

lemma requests_turn:
  assumes "gv_turn N r b pc s = Some (pc', t)" and "gv_gos t = gv_gos s @ new"
  shows "go_requests t + in_progress pc + go_answered s + go_abandoned s =
     go_requests s + in_progress pc' + (\<Sum>q\<leftarrow>new. in_progress q) + go_answered t + go_abandoned t"
  using assms(1)
  by (cases rule: gv_turn_cases)
    (use assms(2) in \<open>auto simp: conns_moved_fields request_counts\<close>)

lemma peers_turn:
  assumes "gv_turn N r b pc s = Some (pc', t)" and "pc_peers pc \<subseteq> {..<length (gv_peers s)}"
    and "snd ` set (gv_sessions s) \<subseteq> {..<length (gv_peers s)}"
  shows "length (gv_peers s) \<le> length (gv_peers t) \<and> pc_peers pc' \<subseteq> {..<length (gv_peers t)} \<and>
    snd ` set (gv_sessions t) \<subseteq> {..<length (gv_peers t)} \<and> gv_sem t = gv_sem s \<and> (gv_done s \<longrightarrow> gv_done t)"
  using assms(1)
proof (cases rule: gv_turn_cases)
  case (written p hdr payload k u failed)
  have "pc_peers pc' \<subseteq> {..<length (gv_peers s)}"
    using written after_write_peers [of failed p k] assms(2) by (cases k) auto
  with written assms(3) show ?thesis by (simp add: conns_moved_fields)
qed (use assms(2,3) in \<open>auto simp: conns_moved_fields\<close>)

text \<open>Only \<open>accept\<close> brings in the handler of a connection, and the connection is new.\<close>

lemma active_turn:
  assumes "gv_turn N r b pc s = Some (pc', t)" and "gv_gos t = gv_gos s @ new"
  shows "of_bool (active p pc') + length (filter (active p) new) \<le> of_bool (active p pc) + of_bool (p = length (gv_peers s) \<and> pc = AL_accept)"
  using assms(1) by (cases rule: gv_turn_cases) (use assms(2) in \<open>auto simp: conns_moved_fields\<close>)

lemma fresh_turn:
  assumes "gv_turn N r b pc s = Some (pc', t)" and "pc = AL_accept" and "active p pc'"
  shows "length (gv_peers t) = Suc (length (gv_peers s))"
  using assms(1) by (cases rule: gv_turn_cases) (use assms(2,3) in auto)

lemma serving_active_turn:
  assumes "gv_turn N r b pc s = Some (pc', t)" and "gv_gos t = gv_gos s @ new" and "serving p pc' \<or> (\<exists>q \<in> set new. serving p q)"
  shows "serving p pc \<or> active p pc"
  using assms(1)
  by (cases rule: gv_turn_cases) (use assms(2,3) in \<open>auto simp: conns_moved_fields split: if_splits\<close>)

lemma fresh_inflight:
  assumes "gv_turn N r b pc s = Some (pc', t)" and "\<not> p < length (gv_peers s)" and "p < length (gv_peers t)"
  shows "peer_inflight (gv_peers t ! p) = 0"
  using assms(1)
  by (cases rule: gv_turn_cases) (use assms(2,3) in \<open>auto simp: conns_moved_fields nth_append\<close>)

lemma events_turn:
  assumes "gv_turn N r b pc s = Some (pc', t)"
  shows "\<exists>es. gv_events t = gv_events s @ es \<and>
    (SvDisconnect p \<in> set es \<longrightarrow> pc = HC_wait p \<and> pc' = HC_delete p \<and> peer_inflight (gv_peers s ! p) = 0 \<and> gv_gos t = gv_gos s)"
    and "(\<forall>e \<in> set (gv_events t). e \<in> set (gv_events s) \<or> ev_abandoned e = {#}) \<or> gv_done t"
    and "e \<in> set (gv_events t) \<Longrightarrow> e \<in> set (gv_events s) \<or> ev_answered e = {#} \<or>
      (\<exists>p hdr payload code body. e = SvResponse p hdr payload (go_response_header hdr code body) body)"
  using assms by (cases rule: gv_turn_cases; auto simp: conns_moved_fields)+

subsection \<open>Every reachable state\<close>

text \<open>Peers in range, wait groups and semaphore count what they should, requests are accounted for.\<close>

definition gv_peers_inv :: "('c, 'w) go_server \<Rightarrow> bool" where
  "gv_peers_inv s \<longleftrightarrow>
     (\<forall>pc \<in> set (gv_gos s). pc_peers pc \<subseteq> {..<length (gv_peers s)}) \<and> snd ` set (gv_sessions s) \<subseteq> {..<length (gv_peers s)}"

definition gv_count_inv :: "('c, 'w) go_server \<Rightarrow> bool" where
  "gv_count_inv s \<longleftrightarrow>
     (\<forall>p < length (gv_peers s). peer_inflight (gv_peers s ! p) = cnt (serving p) s) \<and>
     (\<forall>n. gv_sem s = Some n \<longrightarrow> gv_used s = cnt has_slot s \<and> gv_used s \<le> n)"

definition gv_request_inv :: "('c, 'w) go_server \<Rightarrow> bool" where
  "gv_request_inv s \<longleftrightarrow>
     go_requests s = go_in_progress s + go_answered s + go_abandoned s \<and>
     (go_abandoned s \<noteq> {#} \<longrightarrow> gv_done s) \<and>
     (\<forall>e \<in> set (gv_events s). ev_answered e \<noteq> {#} \<longrightarrow>
        (\<exists>p hdr payload code body. e = SvResponse p hdr payload (go_response_header hdr code body) body))"

definition gv_life_inv :: "('c, 'w) go_server \<Rightarrow> bool" where
  "gv_life_inv s \<longleftrightarrow>
     (\<forall>p. cnt (active p) s \<le> 1) \<and>
     (\<forall>p. SvDisconnect p \<in> set (gv_events s) \<longrightarrow>
        p < length (gv_peers s) \<and> cnt (active p) s = 0 \<and> cnt (serving p) s = 0)"

definition gv_inv :: "('c, 'w) go_server \<Rightarrow> bool" where
  "gv_inv s \<longleftrightarrow> gv_peers_inv s \<and> gv_count_inv s \<and> gv_request_inv s \<and> gv_life_inv s"

lemma cnt_run:
  assumes "j < length (gv_gos s)" and "gv_gos t = gv_gos s @ new"
  shows "cnt P (t\<lparr>gv_gos := (gv_gos t)[j := pc]\<rparr>) + of_bool (P (gv_gos s ! j)) =
    cnt P s + of_bool (P pc) + length (filter P new)"
  using length_filter_upd [of j "gv_gos t" P pc] assms by (simp add: cnt_def nth_append)

lemma cnt_pos: "pc \<in> set (gv_gos s) \<Longrightarrow> P pc \<Longrightarrow> cnt P s > 0"
  by (auto simp: cnt_def filter_empty_conv)

lemma active_peers: "active p pc \<Longrightarrow> p \<in> pc_peers pc"
  by (cases pc) auto

lemma turn_new:
  "gv_turn N r b pc s = Some (pc', t) \<Longrightarrow> \<exists>new. gv_gos t = gv_gos s @ new \<and> (\<forall>q \<in> set new. pc_peers q = pc_peers pc)"
  using turn_gos [of N r b pc s pc' t] by auto

lemma gv_peers_run:
  assumes "gv_peers_inv s" and j: "j < length (gv_gos s)" and turn: "gv_turn N r b (gv_gos s ! j) s = Some (pc, t)"
  shows "gv_peers_inv (t\<lparr>gv_gos := (gv_gos t)[j := pc]\<rparr>)"
proof -
  from turn_new [OF turn] obtain new where new: "gv_gos t = gv_gos s @ new" "\<forall>q \<in> set new. pc_peers q = pc_peers (gv_gos s ! j)"
    by blast
  have mem: "gv_gos s ! j \<in> set (gv_gos s)" using j by simp
  with assms(1) peers_turn [OF turn] have p: "length (gv_peers s) \<le> length (gv_peers t)"
    "pc_peers pc \<subseteq> {..<length (gv_peers t)}" "snd ` set (gv_sessions t) \<subseteq> {..<length (gv_peers t)}"
    by (auto simp: gv_peers_inv_def)
  have "pc_peers q \<subseteq> {..<length (gv_peers t)}" if q: "q \<in> set ((gv_gos t)[j := pc])" for q
  proof -
    from q set_update_subset_insert [of "gv_gos t" j pc] new have "q = pc \<or> q \<in> set (gv_gos s) \<or> pc_peers q = pc_peers (gv_gos s ! j)"
      by auto
    moreover have "pc_peers q' \<subseteq> {..<length (gv_peers t)}" if "q' \<in> set (gv_gos s)" for q'
      using assms(1) that p(1) by (fastforce simp: gv_peers_inv_def)
    ultimately show ?thesis using p(2) mem by metis
  qed
  with p(3) show ?thesis by (simp add: gv_peers_inv_def)
qed

lemma gv_count_run:
  assumes "gv_peers_inv s" and "gv_count_inv s" and j: "j < length (gv_gos s)"
    and turn: "gv_turn N r b (gv_gos s ! j) s = Some (pc, t)"
  shows "gv_count_inv (t\<lparr>gv_gos := (gv_gos t)[j := pc]\<rparr>)" (is "gv_count_inv ?t")
proof -
  from turn_new [OF turn] obtain new where new: "gv_gos t = gv_gos s @ new" "\<forall>q \<in> set new. pc_peers q = pc_peers (gv_gos s ! j)"
    by blast
  have mem: "gv_gos s ! j \<in> set (gv_gos s)" using j by simp
  note cr = cnt_run [OF j new(1), where pc = pc]
  have "peer_inflight (gv_peers t ! p) = cnt (serving p) ?t" if "p < length (gv_peers t)" for p
  proof (cases "p < length (gv_peers s)")
    case True
    have "serving p (gv_gos s ! j) \<longrightarrow> peer_inflight (gv_peers s ! p) > 0"
      using assms(2) True cnt_pos [OF mem, of "serving p"] by (simp add: gv_count_inv_def)
    from inflight_turn [OF turn new(1) True this] cr [of "serving p"] assms(2) True show ?thesis
      by (simp add: gv_count_inv_def)
  next
    case False
    have no: "\<not> serving p q" if "pc_peers q \<subseteq> {..<length (gv_peers s)}" for q using that False by (cases q) auto
    have "cnt (serving p) s = 0" "\<not> serving p (gv_gos s ! j)" "\<not> (\<exists>q \<in> set new. serving p q)"
      using assms(1) no mem new(2) by (auto simp: gv_peers_inv_def cnt_def filter_empty_conv)
    moreover have "\<not> active p (gv_gos s ! j)"
      using assms(1) mem False active_peers [of p "gv_gos s ! j"] by (auto simp: gv_peers_inv_def)
    ultimately have "cnt (serving p) ?t = 0"
      using cr [of "serving p"] serving_active_turn [OF turn new(1), of p] by (auto simp: filter_empty_conv)
    moreover have "peer_inflight (gv_peers t ! p) = 0" using fresh_inflight [OF turn False that] .
    ultimately show ?thesis by simp
  qed
  moreover have "gv_used t = cnt has_slot ?t \<and> gv_used t \<le> n" if "gv_sem t = Some n" for n
  proof -
    have sem: "gv_sem s = Some n" using peers_turn [OF turn] assms(1) mem that by (auto simp: gv_peers_inv_def)
    then have used: "gv_used s = cnt has_slot s" "gv_used s \<le> n" using assms(2) by (auto simp: gv_count_inv_def)
    then have "has_slot (gv_gos s ! j) \<longrightarrow> gv_used s > 0" using cnt_pos [OF mem, of has_slot] by simp
    from slot_turn [OF turn new(1) sem this] cr [of has_slot] used used_turn [OF turn sem used(2)] show ?thesis by simp
  qed
  ultimately show ?thesis unfolding gv_count_inv_def by force
qed

lemma sum_list_mset_empty: "(\<Sum>x\<leftarrow>xs. f x) = {#} \<longleftrightarrow> (\<forall>x \<in> set xs. f x = {#})"
  by (induction xs) simp_all

lemma requests_balance:
  fixes A A' B B' C C' J J' K :: "'a multiset"
  assumes "A' + J + B = A + J' + K + B'" and "C' + J = C + K + J'" and "A = C + B"
  shows "A' = C' + B'"
proof -
  have "A' + J + B = C' + B' + J + B"
  proof -
    have "A' + J + B = C + K + J' + B + B'" using assms(1,3) by (simp add: ac_simps)
    also have "\<dots> = C' + J + B + B'" by (simp only: assms(2))
    finally show ?thesis by (simp add: ac_simps)
  qed
  then show ?thesis by simp
qed

lemma gv_request_run:
  assumes "gv_peers_inv s" and "gv_request_inv s" and j: "j < length (gv_gos s)"
    and turn: "gv_turn N r b (gv_gos s ! j) s = Some (pc, t)"
  shows "gv_request_inv (t\<lparr>gv_gos := (gv_gos t)[j := pc]\<rparr>)" (is "gv_request_inv ?t")
proof -
  from turn_new [OF turn] obtain new where new: "gv_gos t = gv_gos s @ new" by blast
  have mem: "gv_gos s ! j \<in> set (gv_gos s)" using j by simp
  let ?I = "\<lambda>gs. \<Sum>q\<leftarrow>gs. in_progress q"
  have len: "j < length (gv_gos t)" and nth: "gv_gos t ! j = gv_gos s ! j" using j new by (simp_all add: nth_append)
  have "go_requests t + in_progress (gv_gos s ! j) + (go_answered s + go_abandoned s) =
      go_requests s + in_progress pc + ?I new + (go_answered t + go_abandoned t)"
    using requests_turn [OF turn new] by (simp add: ac_simps)
  moreover have "?I ((gv_gos t)[j := pc]) + in_progress (gv_gos s ! j) = ?I (gv_gos s) + ?I new + in_progress pc"
    using sum_list_upd [OF len, of in_progress pc] by (simp add: nth) (simp add: new)
  moreover have "go_requests s = ?I (gv_gos s) + (go_answered s + go_abandoned s)"
    using assms(2) by (simp add: gv_request_inv_def go_in_progress_def ac_simps)
  ultimately have "go_requests t = ?I ((gv_gos t)[j := pc]) + (go_answered t + go_abandoned t)"
    by (rule requests_balance)
  then have "go_requests ?t = go_in_progress ?t + go_answered ?t + go_abandoned ?t"
    by (simp add: go_in_progress_def request_counts ac_simps)
  moreover have "go_abandoned ?t \<noteq> {#} \<longrightarrow> gv_done ?t"
  proof
    assume "go_abandoned ?t \<noteq> {#}"
    then obtain e where "e \<in> set (gv_events t)" "ev_abandoned e \<noteq> {#}"
      by (auto simp: go_abandoned_def sum_list_mset_empty)
    with events_turn(2) [OF turn] consider "e \<in> set (gv_events s)" | "gv_done t" by blast
    then show "gv_done ?t"
    proof cases
      case 1
      with \<open>ev_abandoned e \<noteq> {#}\<close> have "go_abandoned s \<noteq> {#}" by (auto simp: go_abandoned_def sum_list_mset_empty)
      with assms(1,2) peers_turn [OF turn] mem show ?thesis by (auto simp: gv_request_inv_def gv_peers_inv_def)
    qed simp
  qed
  moreover have "\<forall>e \<in> set (gv_events ?t). ev_answered e \<noteq> {#} \<longrightarrow>
        (\<exists>p hdr payload code body. e = SvResponse p hdr payload (go_response_header hdr code body) body)"
    using events_turn(3) [OF turn] assms(2) by (fastforce simp: gv_request_inv_def)
  ultimately show ?thesis by (simp add: gv_request_inv_def)
qed

lemma gv_life_run:
  assumes "gv_peers_inv s" and "gv_count_inv s" and "gv_life_inv s" and j: "j < length (gv_gos s)"
    and turn: "gv_turn N r b (gv_gos s ! j) s = Some (pc, t)"
  shows "gv_life_inv (t\<lparr>gv_gos := (gv_gos t)[j := pc]\<rparr>)" (is "gv_life_inv ?t")
proof -
  from turn_new [OF turn] obtain new where new: "gv_gos t = gv_gos s @ new" by blast
  have mem: "gv_gos s ! j \<in> set (gv_gos s)" using j by simp
  have len: "length (gv_peers s) \<le> length (gv_peers t)" using peers_turn [OF turn] assms(1) mem by (auto simp: gv_peers_inv_def)
  note cr = cnt_run [OF j new, where pc = pc]
  have none: "cnt (active p) s = 0" if "\<not> p < length (gv_peers s)" for p
    using that assms(1) active_peers by (fastforce simp: gv_peers_inv_def cnt_def filter_empty_conv)
  have le: "cnt (active p) ?t \<le> cnt (active p) s + of_bool (p = length (gv_peers s) \<and> gv_gos s ! j = AL_accept)" for p
    using cr [of "active p"] active_turn [OF turn new, of p] by linarith
  have "cnt (active p) ?t \<le> 1" for p
    using le [of p] none [of p] assms(3) by (cases "p < length (gv_peers s)") (auto simp: gv_life_inv_def of_bool_def intro: order_trans split: if_splits)
  moreover have "p < length (gv_peers t) \<and> cnt (active p) ?t = 0 \<and> cnt (serving p) ?t = 0" if "SvDisconnect p \<in> set (gv_events ?t)" for p
  proof -
    from events_turn(1) [OF turn, of p] that consider (old) "SvDisconnect p \<in> set (gv_events s)"
      | (now) "gv_gos s ! j = HC_wait p" "pc = HC_delete p" "peer_inflight (gv_peers s ! p) = 0" "gv_gos t = gv_gos s"
      by auto
    then show ?thesis
    proof cases
      case old
      then have p: "p < length (gv_peers s)" "cnt (active p) s = 0" "cnt (serving p) s = 0"
        using assms(3) by (auto simp: gv_life_inv_def)
      then have "\<not> serving p (gv_gos s ! j)" "\<not> active p (gv_gos s ! j)"
        using mem by (auto simp: cnt_def filter_empty_conv)
      then have "cnt (serving p) ?t = 0"
        using serving_active_turn [OF turn new, of p] cr [of "serving p"] p(3) by (auto simp: filter_empty_conv)
      with le [of p] p len show ?thesis by simp
    next
      case now
      have p: "p < length (gv_peers s)" using assms(1) mem now(1) by (force simp: gv_peers_inv_def)
      have "cnt (serving p) s = 0" using assms(2) p now(3) by (simp add: gv_count_inv_def)
      moreover have "cnt (active p) s \<le> 1" using assms(3) by (simp add: gv_life_inv_def)
      ultimately show ?thesis
        using cr [of "active p"] cr [of "serving p"] now(1,2,4) new p len by simp
    qed
  qed
  ultimately show ?thesis by (simp add: gv_life_inv_def)
qed

lemma gv_inv_same:
  assumes "gv_inv s" and "gv_gos t = gv_gos s @ new" and "gv_sessions t = gv_sessions s" and "gv_events t = gv_events s"
    and "gv_sem t = gv_sem s" and "gv_used t = gv_used s" and "gv_done t = gv_done s" and "length (gv_peers t) = length (gv_peers s)"
    and "\<And>p. p < length (gv_peers s) \<Longrightarrow> peer_inflight (gv_peers t ! p) = peer_inflight (gv_peers s ! p)"
    and "\<And>q p. q \<in> set new \<Longrightarrow> pc_peers q \<subseteq> {..<length (gv_peers s)} \<and> \<not> serving p q \<and> \<not> has_slot q \<and> \<not> active p q \<and>
      in_progress q = {#}"
  shows "gv_inv t"
proof -
  have cnt: "cnt (serving p) t = cnt (serving p) s" "cnt has_slot t = cnt has_slot s" "cnt (active p) t = cnt (active p) s" for p
    using assms(2,10) by (auto simp: cnt_def filter_empty_conv)
  have "map in_progress new = map (\<lambda>_. {#}) new" using assms(10) by simp
  then have "(\<Sum>q\<leftarrow>new. in_progress q) = {#}" by (simp only: sum_list_0)
  then have "go_in_progress t = go_in_progress s" using assms(2) by (simp add: go_in_progress_def)
  with assms cnt show ?thesis
    by (auto simp: gv_inv_def gv_peers_inv_def gv_count_inv_def gv_request_inv_def gv_life_inv_def request_counts)
qed

lemma gv_inv_spawn:
  assumes "gv_inv s" and "pc_peers q \<subseteq> {..<length (gv_peers s)}" and "in_progress q = {#}" and "\<not> has_slot q"
    and "\<And>p. \<not> serving p q \<and> \<not> active p q"
  shows "gv_inv (gv_spawn q s)"
  using assms by - (rule gv_inv_same [of s _ "[q]"], simp_all add: gv_spawn_def)

lemma gv_inv_step: "gv_step N s t \<Longrightarrow> gv_inv s \<Longrightarrow> gv_inv t"
proof (induction rule: gv_step.induct)
  case (run s j r b pc t)
  then have inv: "gv_peers_inv s" "gv_count_inv s" "gv_request_inv s" "gv_life_inv s" by (simp_all add: gv_inv_def)
  show ?case
    unfolding gv_inv_def
    by (intro conjI gv_peers_run [OF inv(1) run(2,3)] gv_count_run [OF inv(1,2) run(2,3)]
        gv_request_run [OF inv(1,3) run(2,3)] gv_life_run [OF inv(1,2,4) run(2,3)])
next
  case (send s p mid payload)
  then show ?case unfolding Peer_Send_def by - (rule gv_inv_spawn, simp_all)
next
  case (broadcast s ps mid payload)
  then have "set ps \<subseteq> {..<length (gv_peers s)}"
    by (auto simp: gv_inv_def gv_peers_inv_def Go_GetConnections_def)
  with broadcast show ?case unfolding Go_Broadcast_def by - (rule gv_inv_spawn, simp_all)
next
  case (peer_close s p)
  from conns_moved_fields [OF conns_moved_Close [of s N p]] peer_close show ?case
    by - (rule gv_inv_same [of s _ "[]"], simp_all)
next
  case (network s p c)
  from conns_moved_fields [OF conns_moved_peer [of s p "\<lambda>_. c"]] network show ?case
    by - (rule gv_inv_same [of s _ "[]"], simp_all)
next
  case (register_method s mid handler)
  then show ?case by - (rule gv_inv_same [of s _ "[]"], simp_all add: Go_RegisterMethod_def)
next
  case (shutdown s)
  then show ?case unfolding Go_Shutdown_def by - (rule gv_inv_spawn, simp_all)
next
  case (wait s)
  then show ?case unfolding Go_Wait_def by - (rule gv_inv_spawn, simp_all)
qed

lemma fold_register:
  assumes "\<And>mid h s. f (Go_RegisterMethod mid h s) = f s"
  shows "f (fold (fold (\<lambda>(mid, handler). Go_RegisterMethod mid handler)) svcs s) = f s"
proof -
  have sv: "f (fold (\<lambda>(mid, handler). Go_RegisterMethod mid handler) sv s) = f s" for sv s
    by (induction sv arbitrary: s) (auto simp: assms)
  show ?thesis by (induction svcs arbitrary: s) (auto simp: sv)
qed

lemma gv_inv_init:
  assumes "gv_init s"
  shows "gv_inv s"
proof -
  obtain listen b w where "Go_BuildAndStart listen b w = Inr s" using assms by (auto simp: gv_init_def)
  then have "gv_peers s = [] \<and> gv_gos s = [AL_accept] \<and> gv_sessions s = [] \<and> gv_events s = [] \<and> gv_used s = 0"
    by (auto simp: Go_BuildAndStart_def Let_def fold_register [of gv_peers] fold_register [of gv_gos]
        fold_register [of gv_sessions] fold_register [of gv_events] fold_register [of gv_used] Go_RegisterMethod_def
        split: option.splits)
  then show ?thesis
    by (simp add: gv_inv_def gv_peers_inv_def gv_count_inv_def gv_request_inv_def gv_life_inv_def cnt_def
        go_requests_def go_in_progress_def go_answered_def go_abandoned_def)
qed

interpretation gsv: inductive_invariant gv_init "gv_step N" gv_inv
  by unfold_locales (erule gv_inv_init, rule gv_inv_step)

end
