(* ===== verification/Go_Server_Calls.thy ===== *)
theory Go_Server_Calls
  imports Go_Server_Inv
begin

text \<open>
  What the Go server promises of the requests it has read, of the connections it has accepted and of
  \<open>Shutdown\<close>, and two runs of it. Beyond the bookkeeping of \<open>Go_Server_Inv\<close> this needs who holds the
  \<open>writeMu\<close> of a connection, who the wait group of the server counts, and that a connection with requests
  in flight still has its handler.
\<close>

subsection \<open>Locks and wait groups\<close>

text \<open>A goroutine between \<open>writeMu.Lock()\<close> and \<open>writeMu.Unlock()\<close>, and one that owes the server a \<open>wg.Done()\<close>.\<close>

fun writing :: "nat \<Rightarrow> srv_pc \<Rightarrow> bool" where
  "writing p (WR_header q hdr payload k) = (q = p)"
| "writing p (WR_payload q payload k) = (q = p)"
| "writing p _ = False"

fun in_wg :: "srv_pc \<Rightarrow> bool" where
  "in_wg AL_accept = True"
| "in_wg (AL_register p) = True"
| "in_wg (AL_spawn p) = True"
| "in_wg AL_done = True"
| "in_wg (HC_connect p) = True"
| "in_wg (HC_handshake p) = True"
| "in_wg (HC_write p) = True"
| "in_wg (HC_read p) = True"
| "in_wg (HC_sem p hdr payload) = True"
| "in_wg (HC_go p hdr payload) = True"
| "in_wg (HC_wait p) = True"
| "in_wg (HC_delete p) = True"
| "in_wg (HC_close p) = True"
| "in_wg (HC_done p) = True"
| "in_wg _ = False"

lemma after_write_ends [simp]: "\<not> writing p (after_write failed q k) \<and> \<not> in_wg (after_write failed q k)"
  by (cases k; cases failed; simp)

lemma shutdown_pc_ends [simp]: "shutdown_pc pc \<Longrightarrow> \<not> writing p pc \<and> \<not> in_wg pc"
  by (cases pc; simp)

lemma active_in_wg: "active p pc \<Longrightarrow> in_wg pc"
  by (cases pc) simp_all

lemma lock_turn:
  assumes "gv_turn N r b pc s = Some (pc', t)" and "gv_gos t = gv_gos s @ new" and "p < length (gv_peers s)"
    and "writing p pc \<longrightarrow> peer_writeMu (gv_peers s ! p)"
  shows "of_bool (peer_writeMu (gv_peers t ! p)) + of_bool (writing p pc) =
    of_bool (peer_writeMu (gv_peers s ! p)) + of_bool (writing p pc') + length (filter (writing p) new)"
  using assms(1)
  by (cases rule: gv_turn_cases)
    (use assms(2-4) in \<open>auto simp: conns_moved_fields nth_upd_peer nth_append peer_view_def\<close>)

lemma fresh_lock:
  assumes "gv_turn N r b pc s = Some (pc', t)" and "\<not> p < length (gv_peers s)" and "p < length (gv_peers t)"
    and "pc_peers pc \<subseteq> {..<length (gv_peers s)}" and "gv_gos t = gv_gos s @ new"
  shows "\<not> peer_writeMu (gv_peers t ! p) \<and> \<not> writing p pc' \<and> \<not> writing p pc \<and> filter (writing p) new = []"
  using assms(1)
  by (cases rule: gv_turn_cases) (use assms(2-5) in \<open>auto simp: conns_moved_fields nth_append\<close>)

lemma wg_turn:
  assumes "gv_turn N r b pc s = Some (pc', t)" and "gv_gos t = gv_gos s @ new" and "in_wg pc \<longrightarrow> gv_wg s > 0"
  shows "gv_wg t + of_bool (in_wg pc) = gv_wg s + of_bool (in_wg pc') + length (filter in_wg new)"
  using assms(1)
  by (cases rule: gv_turn_cases) (use assms(2-3) in \<open>auto simp: conns_moved_fields\<close>)

text \<open>A handler leaves its connection only when no request is in flight.\<close>

lemma guard_turn:
  assumes "gv_turn N r b pc s = Some (pc', t)" and "gv_gos t = gv_gos s @ new"
    and "active p pc" and "\<not> active p pc'" and "filter (active p) new = []"
  shows "peer_inflight (gv_peers s ! p) = 0 \<and> pc = HC_wait p \<and> pc' = HC_delete p \<and> new = []"
  using assms(1)
  by (cases rule: gv_turn_cases) (use assms(2-5) in \<open>auto simp: conns_moved_fields split: if_splits\<close>)

lemma shutdown_turn:
  assumes "gv_turn N r b pc s = Some (pc', t)" and "SvShutdown \<in> set (gv_events t)"
  shows "SvShutdown \<in> set (gv_events s) \<or> gv_wg s = 0 \<and> shutdown_pc pc"
  using assms(1)
  by (cases rule: gv_turn_cases) (use assms(2) in \<open>auto dest!: conns_moved_fields(7)\<close>)

lemma in_wg_turn:
  assumes "gv_turn N r b pc s = Some (pc', t)" and "gv_gos t = gv_gos s @ new" and "\<not> in_wg pc"
  shows "\<not> in_wg pc' \<and> filter in_wg new = []"
  using assms(1)
  by (cases rule: gv_turn_cases) (use assms(2,3) in \<open>auto simp: conns_moved_fields\<close>)

text \<open>Only a server with a semaphore makes a goroutine wait for it.\<close>

fun at_sem :: "srv_pc \<Rightarrow> bool" where
  "at_sem (HC_sem p hdr payload) = True"
| "at_sem _ = False"

lemma at_sem_turn:
  assumes "gv_turn N r b pc s = Some (pc', t)" and "gv_gos t = gv_gos s @ new" and "at_sem pc' \<or> (\<exists>q \<in> set new. at_sem q)"
  shows "gv_sem s \<noteq> None"
proof -
  have ends: "\<not> at_sem (after_write failed q k)" "shutdown_pc x \<Longrightarrow> \<not> at_sem x" for failed q k x
    by (cases k; cases failed; simp) (cases x; simp)
  show ?thesis
    using assms(1) by (cases rule: gv_turn_cases) (use assms(2,3) in \<open>auto simp: ends conns_moved_fields split: if_splits\<close>)
qed

subsection \<open>Every reachable state\<close>

definition gv_lock_inv :: "('c, 'w) go_server \<Rightarrow> bool" where
  "gv_lock_inv s \<longleftrightarrow> (\<forall>p < length (gv_peers s). of_bool (peer_writeMu (gv_peers s ! p)) = cnt (writing p) s)"

definition gv_guard_inv :: "('c, 'w) go_server \<Rightarrow> bool" where
  "gv_guard_inv s \<longleftrightarrow> (\<forall>p. cnt (serving p) s > 0 \<longrightarrow> cnt (active p) s > 0)"

definition gv_wg_inv :: "('c, 'w) go_server \<Rightarrow> bool" where
  "gv_wg_inv s \<longleftrightarrow>
     gv_wg s = cnt in_wg s \<and> gv_sem s \<noteq> Some 0 \<and> (\<forall>pc \<in> set (gv_gos s). at_sem pc \<longrightarrow> gv_sem s \<noteq> None) \<and>
     (SvShutdown \<in> set (gv_events s) \<longrightarrow> cnt in_wg s = 0)"

definition gv_full_inv :: "('c, 'w) go_server \<Rightarrow> bool" where
  "gv_full_inv s \<longleftrightarrow> gv_inv s \<and> gv_lock_inv s \<and> gv_guard_inv s \<and> gv_wg_inv s"

lemma gv_lock_run:
  assumes "gv_peers_inv s" and "gv_lock_inv s" and j: "j < length (gv_gos s)"
    and turn: "gv_turn N r b (gv_gos s ! j) s = Some (pc, t)"
  shows "gv_lock_inv (t\<lparr>gv_gos := (gv_gos t)[j := pc]\<rparr>)" (is "gv_lock_inv ?t")
proof -
  from turn_new [OF turn] obtain new where new: "gv_gos t = gv_gos s @ new" by blast
  have mem: "gv_gos s ! j \<in> set (gv_gos s)" using j by simp
  have "of_bool (peer_writeMu (gv_peers t ! p)) = cnt (writing p) ?t" if "p < length (gv_peers t)" for p
  proof (cases "p < length (gv_peers s)")
    case True
    then have inv: "of_bool (peer_writeMu (gv_peers s ! p)) = cnt (writing p) s" using assms(2) by (simp add: gv_lock_inv_def)
    then have "writing p (gv_gos s ! j) \<longrightarrow> peer_writeMu (gv_peers s ! p)"
      using cnt_pos [OF mem, of "writing p"] by (cases "peer_writeMu (gv_peers s ! p)") auto
    from lock_turn [OF turn new True this] cnt_run [OF j new, of "writing p" pc] inv show ?thesis by linarith
  next
    case False
    have peers: "pc_peers q \<subseteq> {..<length (gv_peers s)}" if "q \<in> set (gv_gos s)" for q
      using assms(1) that by (auto simp: gv_peers_inv_def)
    have "writing p q \<Longrightarrow> p \<in> pc_peers q" for q by (cases q) auto
    with peers False have "cnt (writing p) s = 0" by (auto simp: cnt_def filter_empty_conv)
    with fresh_lock [OF turn False that peers [OF mem] new] cnt_run [OF j new, of "writing p" pc] show ?thesis by simp
  qed
  then show ?thesis by (simp add: gv_lock_inv_def)
qed

lemma gv_guard_run:
  assumes "gv_inv s" and "gv_guard_inv s" and j: "j < length (gv_gos s)"
    and turn: "gv_turn N r b (gv_gos s ! j) s = Some (pc, t)"
  shows "gv_guard_inv (t\<lparr>gv_gos := (gv_gos t)[j := pc]\<rparr>)" (is "gv_guard_inv ?t")
  unfolding gv_guard_inv_def
proof (intro allI impI, rule ccontr)
  fix p
  assume on: "cnt (serving p) ?t > 0" and off: "\<not> cnt (active p) ?t > 0"
  from turn_new [OF turn] obtain new where new: "gv_gos t = gv_gos s @ new" by blast
  have mem: "gv_gos s ! j \<in> set (gv_gos s)" using j by simp
  note cr = cnt_run [OF j new, where pc = pc]
  show False
  proof (cases "cnt (active p) s")
    case 0
    with assms(2) have "cnt (serving p) s = 0" by (auto simp: gv_guard_inv_def)
    moreover from this 0 have "\<not> serving p (gv_gos s ! j)" "\<not> active p (gv_gos s ! j)"
      using cnt_pos [OF mem, of "serving p"] cnt_pos [OF mem, of "active p"] by auto
    ultimately show False
      using serving_active_turn [OF turn new, of p] cr [of "serving p"] on by (auto simp: filter_empty_conv)
  next
    case (Suc n)
    then have act: "active p (gv_gos s ! j)" "\<not> active p pc" "filter (active p) new = []"
      using cr [of "active p"] off by (auto simp: of_bool_def split: if_splits)
    from guard_turn [OF turn new this] have left: "peer_inflight (gv_peers s ! p) = 0" "pc = HC_delete p" "new = []"
      "gv_gos s ! j = HC_wait p" by auto
    have "p < length (gv_peers s)"
      using active_peers [OF act(1)] mem assms(1) by (auto simp: gv_inv_def gv_peers_inv_def)
    then have "cnt (serving p) s = 0" using assms(1) left(1) by (simp add: gv_inv_def gv_count_inv_def)
    with left on cr [of "serving p"] show False by simp
  qed
qed

lemma gv_wg_run:
  assumes "gv_peers_inv s" and "gv_wg_inv s" and j: "j < length (gv_gos s)"
    and turn: "gv_turn N r b (gv_gos s ! j) s = Some (pc, t)"
  shows "gv_wg_inv (t\<lparr>gv_gos := (gv_gos t)[j := pc]\<rparr>)" (is "gv_wg_inv ?t")
proof -
  from turn_new [OF turn] obtain new where new: "gv_gos t = gv_gos s @ new" by blast
  have mem: "gv_gos s ! j \<in> set (gv_gos s)" using j by simp
  note cr = cnt_run [OF j new, of in_wg pc]
  have wg: "gv_wg s = cnt in_wg s" using assms(2) by (simp add: gv_wg_inv_def)
  have pos: "in_wg (gv_gos s ! j) \<longrightarrow> cnt in_wg s > 0" using cnt_pos [OF mem, of in_wg] by simp
  have "gv_wg t = cnt in_wg ?t" using wg_turn [OF turn new] pos wg cr by simp
  moreover have "gv_sem t = gv_sem s" using peers_turn [OF turn] assms(1) mem by (auto simp: gv_peers_inv_def)
  moreover have "cnt in_wg ?t = 0" if "SvShutdown \<in> set (gv_events t)"
  proof -
    from shutdown_turn [OF turn that] assms(2) have "cnt in_wg s = 0" by (auto simp: gv_wg_inv_def)
    with in_wg_turn [OF turn new] pos cr show ?thesis by auto
  qed
  moreover have "gv_sem s \<noteq> None" if "q \<in> set ((gv_gos t)[j := pc])" "at_sem q" for q
  proof -
    from that(1) set_update_subset_insert [of "gv_gos t" j pc] new have "q = pc \<or> q \<in> set new \<or> q \<in> set (gv_gos s)" by auto
    with at_sem_turn [OF turn new] that(2) assms(2) show ?thesis by (auto simp: gv_wg_inv_def)
  qed
  ultimately show ?thesis using assms(2) by (simp add: gv_wg_inv_def)
qed

lemma gv_full_spawn:
  assumes "gv_full_inv s" and "\<And>p. \<not> writing p q \<and> \<not> serving p q" and "\<not> in_wg q \<and> \<not> at_sem q" and "gv_inv (gv_spawn q s)"
  shows "gv_full_inv (gv_spawn q s)"
  using assms by (auto simp: gv_full_inv_def gv_spawn_def gv_lock_inv_def gv_guard_inv_def gv_wg_inv_def cnt_def)

lemma gv_full_moved: "gv_full_inv s \<Longrightarrow> conns_moved s u \<Longrightarrow> gv_inv u \<Longrightarrow> gv_full_inv u"
  by (simp add: gv_full_inv_def gv_lock_inv_def gv_guard_inv_def gv_wg_inv_def cnt_def conns_moved_fields)

lemma gv_full_step: "gv_step N s t \<Longrightarrow> gv_full_inv s \<Longrightarrow> gv_full_inv t"
proof (induction rule: gv_step.induct)
  case (run s j r b pc t)
  then have inv: "gv_inv s" "gv_peers_inv s" "gv_lock_inv s" "gv_guard_inv s" "gv_wg_inv s"
    by (simp_all add: gv_full_inv_def gv_inv_def)
  show ?case
    unfolding gv_full_inv_def
    by (intro conjI gv_inv_step [OF gv_step.run [OF run(1-3)] inv(1)] gv_lock_run [OF inv(2,3) run(2,3)]
        gv_guard_run [OF inv(1,4) run(2,3)] gv_wg_run [OF inv(2,5) run(2,3)])
next
  case (send s p mid payload)
  then have "gv_inv s" by (simp add: gv_full_inv_def)
  from gv_full_spawn [OF send(3) _ _ gv_inv_step [OF gv_step.send [OF send(1,2)] this, unfolded Peer_Send_def]] show ?case
    by (simp add: Peer_Send_def)
next
  case (broadcast s ps mid payload)
  then have "gv_inv s" by (simp add: gv_full_inv_def)
  from gv_full_spawn [OF broadcast(4) _ _ gv_inv_step [OF gv_step.broadcast [OF broadcast(1-3)] this, unfolded Go_Broadcast_def]]
  show ?case by (simp add: Go_Broadcast_def)
next
  case (peer_close s p)
  then have "gv_inv s" by (simp add: gv_full_inv_def)
  from gv_full_moved [OF peer_close(3) conns_moved_Close gv_inv_step [OF gv_step.peer_close [OF peer_close(1,2)] this]]
  show ?case .
next
  case (network s p c)
  then have "gv_inv s" by (simp add: gv_full_inv_def)
  from gv_full_moved [OF network(3) conns_moved_peer gv_inv_step [OF gv_step.network [OF network(1,2)] this]] show ?case .
next
  case (register_method s mid handler)
  then have "gv_inv s" by (simp add: gv_full_inv_def)
  from gv_inv_step [OF gv_step.register_method [OF register_method(1)] this] have "gv_inv (Go_RegisterMethod mid handler s)" .
  with register_method(2) show ?case
    by (simp add: gv_full_inv_def gv_lock_inv_def gv_guard_inv_def gv_wg_inv_def cnt_def Go_RegisterMethod_def)
next
  case (shutdown s)
  then have "gv_inv s" by (simp add: gv_full_inv_def)
  from gv_full_spawn [OF shutdown(2) _ _ gv_inv_step [OF gv_step.shutdown [OF shutdown(1)] this, unfolded Go_Shutdown_def]]
  show ?case by (simp add: Go_Shutdown_def)
next
  case (wait s)
  then have "gv_inv s" by (simp add: gv_full_inv_def)
  from gv_full_spawn [OF wait(2) _ _ gv_inv_step [OF gv_step.wait [OF wait(1)] this, unfolded Go_Wait_def]]
  show ?case by (simp add: Go_Wait_def)
qed

lemma gv_full_init:
  assumes "gv_init s"
  shows "gv_full_inv s"
proof -
  obtain listen b w where "Go_BuildAndStart listen b w = Inr s" using assms by (auto simp: gv_init_def)
  then have "gv_peers s = [] \<and> gv_gos s = [AL_accept] \<and> gv_wg s = 1 \<and> gv_events s = [] \<and> gv_sem s \<noteq> Some 0"
    by (auto simp: Go_BuildAndStart_def Let_def fold_register [of gv_peers] fold_register [of gv_gos]
        fold_register [of gv_wg] fold_register [of gv_events] fold_register [of gv_sem] Go_RegisterMethod_def
        split: option.splits if_splits)
  with gv_inv_init [OF assms] show ?thesis
    by (simp add: gv_full_inv_def gv_lock_inv_def gv_guard_inv_def gv_wg_inv_def cnt_def)
qed

interpretation gsf: inductive_invariant gv_init "gv_step N" gv_full_inv
  by unfold_locales (erule gv_full_init, rule gv_full_step)

subsection \<open>No deadlock\<close>

fun gv_blocked :: "('c, 'w) go_server \<Rightarrow> srv_pc \<Rightarrow> bool" where
  "gv_blocked s (HC_sem p hdr payload) = (\<not> gv_done s \<and> (case gv_sem s of Some n \<Rightarrow> n \<le> gv_used s | None \<Rightarrow> True))"
| "gv_blocked s (HC_wait p) = (peer_inflight (gv_peers s ! p) > 0)"
| "gv_blocked s (WR_lock p hdr payload k) = peer_writeMu (gv_peers s ! p)"
| "gv_blocked s SH_wait = (gv_wg s > 0)"
| "gv_blocked s WT_wait = (gv_wg s > 0)"
| "gv_blocked s S_end = True"
| "gv_blocked s _ = False"

lemma gv_turn_blocked: "gv_turn N r b pc s = None \<longleftrightarrow> gv_blocked s pc"
  by (cases pc) (simp_all add: handleConn_sem_def handleConn_wait_def Let_def split: option.split list.split)

lemma gv_blocked_shape:
  assumes "gv_blocked s pc"
  obtains p hdr payload where "pc = HC_sem p hdr payload" | p where "pc = HC_wait p" "gv_blocked s (HC_wait p)"
    | p hdr payload k where "pc = WR_lock p hdr payload k" | "pc \<in> {SH_wait, WT_wait, S_end}"
  using assms by (cases pc) auto

lemma no_slot_no_serving:
  assumes "gv_full_inv s" and "\<forall>pc \<in> set (gv_gos s). pc = AL_accept \<or> gv_blocked s pc" and "pc \<in> set (gv_gos s)"
  shows "\<not> has_slot pc \<and> \<not> serving p pc \<and> pc \<noteq> WR_lock q hdr payload k"
proof -
  have "pc \<noteq> WR_lock q hdr payload k" for q hdr payload k
  proof
    assume pc: "pc = WR_lock q hdr payload k"
    have "pc_peers pc \<subseteq> {..<length (gv_peers s)}"
      using assms(1,3) by (simp add: gv_full_inv_def gv_inv_def gv_peers_inv_def)
    then have "q < length (gv_peers s)" by (simp add: pc)
    moreover have "peer_writeMu (gv_peers s ! q)" using assms(2) bspec [OF assms(2,3)] pc by simp
    moreover have "\<forall>p < length (gv_peers s). of_bool (peer_writeMu (gv_peers s ! p)) = cnt (writing p) s"
      using assms(1) by (simp add: gv_full_inv_def gv_lock_inv_def)
    ultimately have "cnt (writing q) s > 0" by (metis (full_types) of_bool_eq(2) zero_less_one)
    then obtain x where "x \<in> set (gv_gos s)" "writing q x" by (auto simp: cnt_def filter_empty_conv)
    moreover from this(1) assms(2) have "x = AL_accept \<or> gv_blocked s x" by blast
    ultimately show False by - (cases x; simp)
  qed
  moreover have "pc = AL_accept \<or> gv_blocked s pc" using assms(2,3) by blast
  ultimately show ?thesis by - (cases pc; simp)
qed

lemma all_blocked_server:
  assumes "gv_full_inv s" and "\<forall>pc \<in> set (gv_gos s). pc = AL_accept \<or> gv_blocked s pc"
  shows "set (gv_gos s) \<subseteq> {AL_accept, SH_wait, WT_wait, S_end}"
    and "AL_accept \<notin> set (gv_gos s) \<Longrightarrow> set (gv_gos s) \<subseteq> {S_end}"
proof -
  have "cnt has_slot s = 0" "cnt (serving p) s = 0" for p
    using no_slot_no_serving [OF assms] by (auto simp: cnt_def filter_empty_conv)
  then have idle: "gv_sem s = Some n \<Longrightarrow> gv_used s = 0 \<and> n > 0"
    "p < length (gv_peers s) \<Longrightarrow> peer_inflight (gv_peers s ! p) = 0" for p n
    using assms(1) by (auto simp: gv_full_inv_def gv_inv_def gv_count_inv_def gv_wg_inv_def)
  show *: "set (gv_gos s) \<subseteq> {AL_accept, SH_wait, WT_wait, S_end}"
  proof
    fix pc
    assume pc: "pc \<in> set (gv_gos s)"
    have at_sem: "gv_sem s \<noteq> None" if "pc = HC_sem p hdr payload" for p hdr payload
      using assms(1) pc that by (fastforce simp: gv_full_inv_def gv_wg_inv_def)
    have waits: "peer_inflight (gv_peers s ! p) = 0" if "pc = HC_wait p" for p
    proof -
      have "pc_peers pc \<subseteq> {..<length (gv_peers s)}" using assms(1) pc by (auto simp: gv_full_inv_def gv_inv_def gv_peers_inv_def)
      with that idle(2) show ?thesis by simp
    qed
    have not_lock: "pc \<noteq> WR_lock q hdr payload k" for q hdr payload k
      using no_slot_no_serving [OF assms pc] by blast
    from assms(2) pc consider "pc = AL_accept" | "gv_blocked s pc" by blast
    then show "pc \<in> {AL_accept, SH_wait, WT_wait, S_end}"
    proof cases
      case 2
      then show ?thesis
      proof (cases rule: gv_blocked_shape)
        case (1 p hdr payload)
        with 2 at_sem [OF 1] idle(1) show ?thesis by (auto split: option.splits)
      next
        case (2 p)
        with waits [OF 2(1)] show ?thesis by simp
      qed (use not_lock in blast)+
    qed simp
  qed
  assume "AL_accept \<notin> set (gv_gos s)"
  with * have "cnt in_wg s = 0" by (auto simp: cnt_def filter_empty_conv)
  then have "gv_wg s = 0" using assms(1) by (simp add: gv_full_inv_def gv_wg_inv_def)
  with * \<open>AL_accept \<notin> set (gv_gos s)\<close> assms(2) show "set (gv_gos s) \<subseteq> {S_end}" by fastforce
qed

subsection \<open>Runs\<close>

text \<open>The next step of the goroutine at position \<open>j\<close>, if it has one; \<open>r\<close> is what \<open>Accept\<close> returns.\<close>

definition gv_do :: "'c net \<Rightarrow> string + ('c \<times> string) \<Rightarrow> nat \<Rightarrow> ('c, 'w) go_server \<Rightarrow> ('c, 'w) go_server" where
  "gv_do N r j s =
     (if \<not> gv_crashed s \<and> j < length (gv_gos s)
      then case gv_turn N r False (gv_gos s ! j) s of Some (pc, t) \<Rightarrow> t\<lparr>gv_gos := (gv_gos t)[j := pc]\<rparr> | None \<Rightarrow> s
      else s)"

lemma gv_do_star: "(gv_step N)\<^sup>*\<^sup>* s (gv_do N r j s)"
  by (auto simp: gv_do_def intro: gv_step.run split: option.split)

lemma gv_dos_star: "(gv_step N)\<^sup>*\<^sup>* s (fold (gv_do N r) js s)"
  by (induction js arbitrary: s) (auto intro: rtranclp_trans gv_do_star)

lemma gv_dos_reach: "reachable gv_init (gv_step N) s \<Longrightarrow> reachable gv_init (gv_step N) (fold (gv_do N r) js s)"
  using gv_dos_star [of N s r js] by (rule reachable_star)

text \<open>
  An echo server with one slot. A client connects and sends two requests; the first is being served,
  the second waits for the slot.
\<close>

definition echo :: "unit go_handler" where
  "echo ctx req w = (Some (req, StatusOK, ctx), w)"

definition demo_sv_builder :: "unit Go_ServerBuilder" where
  "demo_sv_builder =
     SetMaxConcurrentRequests 1 (Go_SetOnDisconnect True (Go_RegisterService [(9, echo)] NewServerBuilder))"

definition demo_sv_start :: "(pipe, unit) go_server" where
  "demo_sv_start = (case Go_BuildAndStart (\<lambda>_ _. None) demo_sv_builder () of Inr s \<Rightarrow> s | Inl e \<Rightarrow> undefined)"

definition demo_sv_request :: "u32 \<Rightarrow> Go_FrameHeader" where
  "demo_sv_request k = \<lparr>fh_Type = FrameRequest, fh_StatusCode = 0, fh_CallID = k, fh_MethodID = 9, fh_PayloadSize = 1\<rparr>"

definition demo_sv_client :: pipe where
  "demo_sv_client =
     \<lparr>p_rx = bytes_of_string ''pc1'' @ Go_Serialize (demo_sv_request 5) @ [1] @ Go_Serialize (demo_sv_request 6) @ [2],
      p_tx = [], p_room = 100\<rparr>"

definition demo_sv_busy :: "(pipe, unit) go_server" where
  "demo_sv_busy = fold (gv_do pipe_net (Inr (demo_sv_client, ''client''))) ([0, 0, 0] @ replicate 7 1) demo_sv_start"

text \<open>Both are answered, the client is gone and its handler has signed off.\<close>

definition demo_sv_left :: "(pipe, unit) go_server" where
  "demo_sv_left = fold (gv_do pipe_net (Inl ''closed'')) (replicate 6 2 @ [1, 1] @ replicate 6 3 @ [1, 1]) demo_sv_busy"

text \<open>\<open>Shutdown\<close> has returned.\<close>

definition demo_sv_down :: "(pipe, unit) go_server" where
  "demo_sv_down = fold (gv_do pipe_net (Inl ''closed'')) (replicate 4 4 @ [1, 1, 1, 0, 0, 4]) (Go_Shutdown demo_sv_left)"

lemma demo_sv_start_reach: "reachable gv_init (gv_step pipe_net) demo_sv_start"
proof (rule reachable.start)
  have "Go_BuildAndStart (\<lambda>_ _. None) demo_sv_builder () = Inr demo_sv_start"
    by (simp add: demo_sv_start_def Go_BuildAndStart_def Let_def)
  then show "gv_init demo_sv_start" unfolding gv_init_def by blast
qed

lemma demo_sv_busy_reach: "reachable gv_init (gv_step pipe_net) demo_sv_busy"
  unfolding demo_sv_busy_def by (rule gv_dos_reach [OF demo_sv_start_reach])

lemma demo_sv_left_reach: "reachable gv_init (gv_step pipe_net) demo_sv_left"
  unfolding demo_sv_left_def by (rule gv_dos_reach [OF demo_sv_busy_reach])

lemma demo_sv_left_crashed: "\<not> gv_crashed demo_sv_left"
  by code_simp

lemma demo_sv_down_reach: "reachable gv_init (gv_step pipe_net) demo_sv_down"
  unfolding demo_sv_down_def
  by (rule gv_dos_reach, rule reachable.step [OF demo_sv_left_reach], rule gv_step.shutdown [OF demo_sv_left_crashed])


lemma demo_sv_left_facts:
  "go_requests demo_sv_left = {#(0, demo_sv_request 5, [1]), (0, demo_sv_request 6, [2])#}"
  "SvDisconnect 0 \<in> set (gv_events demo_sv_left)"
  by code_simp+

lemma demo_sv_down_facts:
  "go_requests demo_sv_down = {#(0, demo_sv_request 5, [1]), (0, demo_sv_request 6, [2])#}"
  "SvShutdown \<in> set (gv_events demo_sv_down)" "gv_gos demo_sv_down = [S_end, S_end, S_end, S_end, S_end]"
  by code_simp+

subsection \<open>Promises\<close>



text \<open>
  C20. \<open>onDisconnect\<close> is the last word on a connection: once it was called for \<open>p\<close>, no goroutine accepts,
  reads or serves requests of \<open>p\<close>, and every request that came over \<open>p\<close> was answered or abandoned.
\<close>

theorem go_server_disconnect:
  assumes "reachable gv_init (gv_step N) s" and "SvDisconnect p \<in> set (gv_events s)"
  shows "cnt (active p) s = 0 \<and> cnt (serving p) s = 0 \<and>
    count (go_requests s) (p, hdr, payload) = count (go_answered s) (p, hdr, payload) + count (go_abandoned s) (p, hdr, payload)"
proof -
  have inv: "gv_inv s" using gsv.invar_reachable [OF assms(1)] .
  then have none: "cnt (active p) s = 0" "cnt (serving p) s = 0" using assms(2) by (auto simp: gv_inv_def gv_life_inv_def)
  then have "(p, hdr, payload) \<notin># in_progress pc" if "pc \<in> set (gv_gos s)" for pc
    using that by (cases pc) (auto simp: cnt_def filter_empty_conv)
  moreover have "count (\<Sum>q\<leftarrow>gs. in_progress q) x = (\<Sum>q\<leftarrow>gs. count (in_progress q) x)" for gs x
    by (induction gs) simp_all
  ultimately have "count (go_in_progress s) (p, hdr, payload) = 0" by (simp add: go_in_progress_def not_in_iff)
  with inv none show ?thesis by (simp add: gv_inv_def gv_request_inv_def)
qed

theorem go_server_disconnect_witness:
  "cnt (serving 0) demo_sv_left = 0 \<and>
   1 = count (go_answered demo_sv_left) (0, demo_sv_request 5, [1]) + count (go_abandoned demo_sv_left) (0, demo_sv_request 5, [1])"
  using go_server_disconnect [OF demo_sv_left_reach demo_sv_left_facts(2), of "demo_sv_request 5" "[1]"]
  by (simp add: demo_sv_left_facts demo_sv_request_def)

text \<open>
  C21. When \<open>Shutdown\<close> returns, the server is at rest: the accept loop and every connection handler have
  ended, no request is being served, and every request that was read has been answered or abandoned.
\<close>

theorem go_server_shutdown:
  assumes "reachable gv_init (gv_step N) s" and "SvShutdown \<in> set (gv_events s)"
  shows "cnt in_wg s = 0 \<and> cnt (serving p) s = 0 \<and> go_requests s = go_answered s + go_abandoned s"
proof -
  have inv: "gv_full_inv s" using gsf.invar_reachable [OF assms(1)] .
  then have wg: "cnt in_wg s = 0" using assms(2) by (simp add: gv_full_inv_def gv_wg_inv_def)
  then have "cnt (active q) s = 0" for q using active_in_wg by (auto simp: cnt_def filter_empty_conv)
  with inv have served: "cnt (serving q) s = 0" for q by (auto simp: gv_full_inv_def gv_guard_inv_def)
  have "in_progress pc = {#}" if "pc \<in> set (gv_gos s)" for pc
  proof (cases pc)
    case (SR_serve q hdr payload)
    with served [of q] that show ?thesis by (auto simp: cnt_def filter_empty_conv)
  qed (use wg that in \<open>auto simp: cnt_def filter_empty_conv\<close>)
  then have "go_in_progress s = {#}" by (simp add: go_in_progress_def sum_list_mset_empty)
  with wg served inv show ?thesis by (simp add: gv_full_inv_def gv_inv_def gv_request_inv_def)
qed

theorem go_server_shutdown_witness:
  "SvShutdown \<in> set (gv_events demo_sv_down) \<and> cnt in_wg demo_sv_down = 0 \<and>
   {#(0, demo_sv_request 5, [1]), (0, demo_sv_request 6, [2])#} = go_answered demo_sv_down + go_abandoned demo_sv_down"
  using go_server_shutdown [OF demo_sv_down_reach demo_sv_down_facts(2)] by (simp add: demo_sv_down_facts)



text \<open>
  C24. The goroutines of the server do not block each other for good: if in a reachable state all but
  the accept loop are blocked, then none of them waits for a slot, for a lock or for requests in
  flight; and if the accept loop has ended too, all goroutines have.
\<close>

theorem go_server_no_deadlock:
  assumes "reachable gv_init (gv_step N) s"
    and "\<forall>pc \<in> set (gv_gos s). pc = AL_accept \<or> gv_turn N r b pc s = None"
  shows "set (gv_gos s) \<subseteq> {AL_accept, SH_wait, WT_wait, S_end} \<and>
    (AL_accept \<notin> set (gv_gos s) \<longrightarrow> set (gv_gos s) \<subseteq> {S_end})"
  using all_blocked_server [OF gsf.invar_reachable [OF assms(1)]] assms(2) by (auto simp: gv_turn_blocked)

theorem go_server_no_deadlock_witness:
  "gv_gos demo_sv_down \<noteq> [] \<and> set (gv_gos demo_sv_down) \<subseteq> {S_end}"
  using go_server_no_deadlock [OF demo_sv_down_reach, of "Inl []" False] by (simp add: demo_sv_down_facts)

subsection \<open>Races\<close>









end
