(* ===== verification/Go_Server_Shutdown.thy ===== *)
theory Go_Server_Shutdown
  imports Go_Server_Calls
begin

text \<open>
  The end of a Go server: once \<open>Shutdown\<close> has closed the listener and every connection, the goroutines
  of the server come to their ends and \<open>Shutdown\<close> returns.
\<close>

subsection \<open>Closed connections\<close>

text \<open>\<open>Shutdown\<close> has begun, the listener is closed, and so is every connection.\<close>

definition gv_shut :: "('c \<Rightarrow> bool) \<Rightarrow> ('c, 'w) go_server \<Rightarrow> bool" where
  "gv_shut closed s \<longleftrightarrow> gv_done s \<and> \<not> gv_listening s \<and> (\<forall>x \<in> set (gv_peers s). closed (peer_conn x))"

lemma gv_shut_upd:
  assumes "gv_shut closed s" and "\<And>x. closed (peer_conn x) \<Longrightarrow> closed (peer_conn (f x))"
  shows "gv_shut closed (upd_peer p f s)"
proof (cases "p < length (gv_peers s)")
  case True
  then have "closed (peer_conn (f (gv_peers s ! p)))" using assms by (simp add: gv_shut_def)
  with assms(1) set_update_subset_insert [of "gv_peers s" p "f (gv_peers s ! p)"] show ?thesis
    by (auto simp: gv_shut_def upd_peer_def)
next
  case False
  with assms(1) show ?thesis by (simp add: gv_shut_def upd_peer_def list_update_beyond)
qed

lemma gv_shut_conn:
  assumes "gv_shut closed s" and "closed c"
  shows "gv_shut closed (upd_peer p (peer_conn_update (\<lambda>_. c)) s)"
  by (rule gv_shut_upd [OF assms(1)]) (simp add: assms(2))

lemma gv_shut_Close:
  assumes "closed_conn N closed" and "gv_shut closed s"
  shows "gv_shut closed (peer_Close N p s)"
  unfolding peer_Close_def by (rule gv_shut_upd [OF assms(2)]) (use assms(1) in \<open>simp add: closed_conn_def\<close>)

lemma gv_shut_Write:
  assumes "closed_conn N closed" and "gv_shut closed s" and "p < length (gv_peers s)" and "peer_Write N p b s = (e, u)"
  shows "gv_shut closed u"
proof -
  have "closed (peer_conn (gv_peers s ! p))" using assms(2,3) by (simp add: gv_shut_def)
  then have "closed (snd (net_Write N (peer_conn (gv_peers s ! p)) b))" using assms(1) by (simp add: closed_conn_def)
  from gv_shut_conn [OF assms(2) this, of p] assms(4) show ?thesis by (auto simp: peer_Write_def Let_def case_prod_unfold)
qed

lemma gv_shut_sessions:
  assumes "closed_conn N closed"
  shows "gv_shut closed s \<Longrightarrow> gv_shut closed (fold (\<lambda>(k, p). peer_Close N p) ks s)"
proof (induction ks arbitrary: s)
  case (Cons kp ks)
  then show ?case using gv_shut_Close [OF assms, of s "snd kp"] by (simp add: case_prod_unfold)
qed simp

subsection \<open>Winding down\<close>

text \<open>How many turns a goroutine, and the goroutines it starts, have left when everything is closed.\<close>

fun after_work :: "go_after \<Rightarrow> nat" where
  "after_work AfterResponse = 3"
| "after_work AfterSend = 0"
| "after_work (AfterBroadcast ps mid payload) = 1 + 4 * length ps"

fun gv_work_pc :: "srv_pc \<Rightarrow> nat" where
  "gv_work_pc AL_accept = 2"
| "gv_work_pc (AL_register p) = 12"
| "gv_work_pc (AL_spawn p) = 11"
| "gv_work_pc AL_done = 1"
| "gv_work_pc (HC_connect p) = 8"
| "gv_work_pc (HC_handshake p) = 7"
| "gv_work_pc (HC_write p) = 6"
| "gv_work_pc (HC_read p) = 5"
| "gv_work_pc (HC_sem p hdr payload) = 14"
| "gv_work_pc (HC_go p hdr payload) = 13"
| "gv_work_pc (HC_wait p) = 4"
| "gv_work_pc (HC_delete p) = 3"
| "gv_work_pc (HC_close p) = 2"
| "gv_work_pc (HC_done p) = 1"
| "gv_work_pc (SR_serve p hdr payload) = 7"
| "gv_work_pc (WR_lock p hdr payload k) = 3 + after_work k"
| "gv_work_pc (WR_header p hdr payload k) = 2 + after_work k"
| "gv_work_pc (WR_payload p payload k) = 1 + after_work k"
| "gv_work_pc (SR_close p) = 3"
| "gv_work_pc (SR_release p) = 2"
| "gv_work_pc (SR_done p) = 1"
| "gv_work_pc (BC_next ps mid payload) = 1 + 4 * length ps"
| "gv_work_pc SH_check = 5"
| "gv_work_pc SH_done = 4"
| "gv_work_pc SH_listener = 3"
| "gv_work_pc SH_sessions = 2"
| "gv_work_pc SH_wait = 1"
| "gv_work_pc WT_wait = 1"
| "gv_work_pc S_end = 0"

text \<open>A panic ends everything.\<close>

definition gv_work :: "('c, 'w) go_server \<Rightarrow> nat" where
  "gv_work s = (if gv_crashed s then 0 else 1 + (\<Sum>pc\<leftarrow>gv_gos s. gv_work_pc pc))"

text \<open>The steps the goroutines of the server take by themselves.\<close>

inductive gv_run :: "'c net \<Rightarrow> ('c, 'w) go_server \<Rightarrow> ('c, 'w) go_server \<Rightarrow> bool" for N where
  gv_run: "\<not> gv_crashed s \<Longrightarrow> j < length (gv_gos s) \<Longrightarrow> gv_turn N r b (gv_gos s ! j) s = Some (pc, t) \<Longrightarrow>
    gv_run N s (t\<lparr>gv_gos := (gv_gos t)[j := pc]\<rparr>)"

lemma gv_run_step: "gv_run N s t \<Longrightarrow> gv_step N s t"
  by (induction rule: gv_run.induct) (rule gv_step.run)

lemma gv_runs_steps: "(gv_run N)\<^sup>*\<^sup>* s t \<Longrightarrow> (gv_step N)\<^sup>*\<^sup>* s t"
  by (induction rule: rtranclp_induct) (auto dest: gv_run_step)

definition gv_shut_turn :: "('c \<Rightarrow> bool) \<Rightarrow> srv_pc \<Rightarrow> ('c, 'w) go_server \<Rightarrow> srv_pc \<times> ('c, 'w) go_server \<Rightarrow> bool" where
  "gv_shut_turn closed pc s q \<longleftrightarrow>
     gv_shut closed (snd q) \<and>
     (\<exists>new. gv_gos (snd q) = gv_gos s @ new \<and>
        (gv_crashed (snd q) \<or> gv_work_pc (fst q) + (\<Sum>x\<leftarrow>new. gv_work_pc x) < gv_work_pc pc))"

lemma gv_shut_turnI:
  "gv_shut closed u \<Longrightarrow> gv_gos u = gv_gos s \<Longrightarrow> gv_work_pc pc' < gv_work_pc pc \<Longrightarrow> gv_shut_turn closed pc s (pc', u)"
  by (auto simp: gv_shut_turn_def)

lemma after_write_work: "gv_work_pc (after_write failed p k) \<le> after_work k"
  by (cases k) simp_all

lemma write_gos: "peer_Write N p b s = (e, u) \<Longrightarrow> gv_gos u = gv_gos s"
  using conns_moved_fields(1) [OF conns_moved_Write] by blast

lemma gv_shut_handshake:
  assumes "closed_conn N closed" and "gv_shut closed s" and "p < length (gv_peers s)"
  shows "gv_shut_turn closed (HC_handshake p) s (handleConn_handshake N p s)"
proof -
  obtain e b c where r: "net_ReadFull N (peer_conn (gv_peers s ! p)) (replicate (length (gv_handshakeHeader s)) 0) = (e, b, c)"
    by (metis surj_pair)
  have "closed (peer_conn (gv_peers s ! p))" using assms(2,3) by (simp add: gv_shut_def)
  then have "closed (snd (snd (net_ReadFull N (peer_conn (gv_peers s ! p)) (replicate (length (gv_handshakeHeader s)) 0))))"
    using assms(1) by (simp add: closed_conn_def)
  then have "gv_shut closed (upd_peer p (peer_conn_update (\<lambda>_. c)) s)" using gv_shut_conn [OF assms(2)] r by simp
  with r show ?thesis
    by (auto simp: gv_shut_turn_def handleConn_handshake_def Let_def case_prod_unfold gv_shut_def split: option.split)
qed

lemma closed_ReadFrame_conn:
  assumes "closed_conn N closed" and "closed c"
  shows "closed (snd (Go_ReadFrame N c))"
proof -
  have keep: "closed d \<Longrightarrow> closed (snd (snd (net_ReadFull N d buf)))" for d buf using assms(1) by (simp add: closed_conn_def)
  obtain e b d where r: "net_ReadFull N c (replicate FrameHeaderSize 0) = (e, b, d)" by (metis surj_pair)
  have d: "closed d" using keep [OF assms(2)] r by (metis snd_conv)
  have "closed (snd (snd (net_ReadFull N d buf)))" for buf using keep [OF d] .
  with r d show ?thesis by (auto simp: Go_ReadFrame_def Let_def case_prod_unfold split: option.split)
qed

lemma gv_shut_read:
  assumes "closed_conn N closed" and "gv_shut closed s" and "p < length (gv_peers s)"
  shows "gv_shut_turn closed (HC_read p) s (handleConn_read N p s)"
proof -
  let ?c = "peer_conn (gv_peers s ! p)"
  have c: "closed ?c" using assms(2,3) by (simp add: gv_shut_def)
  then obtain err d where r: "Go_ReadFrame N ?c = (Inl err, d)" using closed_Go_ReadFrame [OF assms(1) c] by (metis prod.collapse)
  have "closed d" using closed_ReadFrame_conn [OF assms(1) c] r by simp
  from gv_shut_conn [OF assms(2) this, of p] r show ?thesis
    by (simp add: handleConn_read_def gv_shut_turn_def)
qed


lemma gv_shut_turn:
  assumes "gv_turn N r b pc s = Some q" and "closed_conn N closed" and "gv_shut closed s" and "pc_peers pc \<subseteq> {..<length (gv_peers s)}"
  shows "gv_shut_turn closed pc s q"
proof (cases pc)
  case AL_accept
  with assms(1,3) show ?thesis by (auto simp: acceptLoop_accept_def gv_shut_def intro: gv_shut_turnI)
next
  case (AL_register p)
  with assms(1,3) show ?thesis
    by (auto simp: acceptLoop_register_def Let_def gv_shut_def intro!: gv_shut_turnI)
next
  case (AL_spawn p)
  with assms(1,3) show ?thesis by (auto simp: acceptLoop_spawn_def gv_shut_turn_def gv_shut_def)
next
  case (HC_connect p)
  with assms(1,3) show ?thesis
    by (auto simp: handleConn_connect_def Let_def gv_shut_def gv_log_def intro!: gv_shut_turnI)
next
  case (HC_handshake p)
  with assms(1,4) gv_shut_handshake [OF assms(2,3), of p] show ?thesis by simp
next
  case (HC_write p)
  obtain e u where w: "peer_Write N p (gv_handshakeHeader s) s = (e, u)" by fastforce
  with HC_write assms(1) have "q = (if e = None then HC_read p else HC_wait p, u)" by (cases e) (simp_all add: handleConn_write_def)
  with HC_write gv_shut_Write [OF assms(2,3) _ w] write_gos [OF w] assms(4) show ?thesis by (auto intro: gv_shut_turnI)
next
  case (HC_read p)
  with assms(1,4) gv_shut_read [OF assms(2,3), of p] show ?thesis by simp
next
  case (HC_sem p hdr payload)
  with assms(1,3) show ?thesis
    by (auto simp: handleConn_sem_def Let_def gv_shut_def gv_log_def intro!: gv_shut_turnI split: if_splits)
next
  case (HC_go p hdr payload)
  have "gv_shut closed (upd_peer p (peer_inflight_update Suc) s)" by (rule gv_shut_upd [OF assms(3)]) simp
  with HC_go assms(1) show ?thesis by (auto simp: handleConn_go_def Let_def gv_shut_turn_def gv_shut_def)
next
  case (HC_wait p)
  with assms(1,3) show ?thesis
    by (auto simp: handleConn_wait_def gv_shut_def gv_log_def intro!: gv_shut_turnI split: if_splits)
next
  case (HC_delete p)
  with assms(1,3) show ?thesis by (auto simp: handleConn_delete_def gv_shut_def intro!: gv_shut_turnI)
next
  case (HC_close p)
  with assms(1) gv_shut_Close [OF assms(2,3)] conns_moved_fields(1) [OF conns_moved_Close] show ?thesis
    by (auto intro!: gv_shut_turnI)
next
  case (SR_close p)
  with assms(1) gv_shut_Close [OF assms(2,3)] conns_moved_fields(1) [OF conns_moved_Close] show ?thesis
    by (auto intro!: gv_shut_turnI)
next
  case (SR_serve p hdr payload)
  with assms(1) have q: "q = serveRequest p hdr payload s" by simp
  from serveRequest_cases [of p hdr payload s] show ?thesis
    by (elim disjE exE conjE) (use SR_serve q assms(3) in \<open>simp_all add: gv_shut_turn_def gv_shut_def\<close>)
next
  case (WR_lock p hdr payload k)
  have "gv_shut closed (upd_peer p (peer_writeMu_update (\<lambda>_. True)) s)" by (rule gv_shut_upd [OF assms(3)]) simp
  with WR_lock assms(1) show ?thesis by (auto intro!: gv_shut_turnI split: if_splits)
next
  case (WR_header p hdr payload k)
  obtain e u where w: "peer_Write N p (Go_Serialize hdr) s = (e, u)" by fastforce
  have u: "gv_shut closed u" using gv_shut_Write [OF assms(2,3) _ w] WR_header assms(4) by simp
  have "gv_shut closed (upd_peer p (peer_writeMu_update (\<lambda>_. False)) u)" by (rule gv_shut_upd [OF u]) simp
  with WR_header assms(1) w u write_gos [OF w] after_write_work [of True p k] after_write_work [of False p k] show ?thesis
    by (cases e) (auto simp: write_header_def intro!: gv_shut_turnI)
next
  case (WR_payload p payload k)
  obtain e u where w: "peer_Write N p payload s = (e, u)" by fastforce
  have u: "gv_shut closed u" using gv_shut_Write [OF assms(2,3) _ w] WR_payload assms(4) by simp
  have "gv_shut closed (upd_peer p (peer_writeMu_update (\<lambda>_. False)) u)" by (rule gv_shut_upd [OF u]) simp
  with WR_payload assms(1) w write_gos [OF w] after_write_work [of "e \<noteq> None" p k] show ?thesis
    by (auto simp: write_payload_def intro!: gv_shut_turnI)
next
  case (SR_done p)
  have "gv_shut closed (upd_peer p (peer_inflight_update (\<lambda>n. n - 1)) s)" by (rule gv_shut_upd [OF assms(3)]) simp
  with SR_done assms(1) show ?thesis by (auto intro!: gv_shut_turnI)
next
  case (BC_next ps mid payload)
  with assms(1,3) show ?thesis by (cases ps) (auto intro!: gv_shut_turnI)
next
  case SH_sessions
  with assms(1) gv_shut_sessions [OF assms(2,3), of "gv_sessions s"] conns_moved_fields(1) [OF conns_moved_sessions [of s N "gv_sessions s"]]
  show ?thesis by (auto intro!: gv_shut_turnI)
qed (use assms(1,3) in \<open>auto simp: gv_shut_turn_def gv_shut_def gv_log_def split: if_splits\<close>)


lemma gv_shut_run:
  assumes "closed_conn N closed" and "gv_inv s" and "gv_shut closed s" and "gv_run N s t"
  shows "gv_inv t" and "gv_shut closed t" and "gv_work t < gv_work s"
proof -
  from assms(4) obtain j r b pc u where j: "j < length (gv_gos s)" and turn: "gv_turn N r b (gv_gos s ! j) s = Some (pc, u)"
    and t: "t = u\<lparr>gv_gos := (gv_gos u)[j := pc]\<rparr>" and live: "\<not> gv_crashed s" by (cases rule: gv_run.cases) simp
  from gv_inv_step [OF gv_run_step [OF assms(4)] assms(2)] show "gv_inv t" .
  have "pc_peers (gv_gos s ! j) \<subseteq> {..<length (gv_peers s)}"
    using assms(2) j by (simp add: gv_inv_def gv_peers_inv_def)
  from gv_shut_turn [OF turn assms(1,3) this] have st: "gv_shut_turn closed (gv_gos s ! j) s (pc, u)" .
  then show "gv_shut closed t" by (simp add: gv_shut_turn_def gv_shut_def t)
  from st obtain new where new: "gv_gos u = gv_gos s @ new"
    "gv_crashed u \<or> gv_work_pc pc + (\<Sum>x\<leftarrow>new. gv_work_pc x) < gv_work_pc (gv_gos s ! j)" by (auto simp: gv_shut_turn_def)
  have "(\<Sum>x\<leftarrow>(gv_gos u)[j := pc]. gv_work_pc x) + gv_work_pc (gv_gos s ! j) =
    (\<Sum>x\<leftarrow>gv_gos s. gv_work_pc x) + (\<Sum>x\<leftarrow>new. gv_work_pc x) + gv_work_pc pc"
    using sum_list_upd [of j "gv_gos u" gv_work_pc pc] j new(1) by (simp add: nth_append)
  with new(2) live show "gv_work t < gv_work s" by (auto simp: gv_work_def t)
qed

interpretation gsw: winding_down "gv_run N" "\<lambda>s. closed_conn N closed \<and> gv_inv s \<and> gv_shut closed s" gv_work
  for N :: "'c net" and closed :: "'c \<Rightarrow> bool"
  by unfold_locales (auto dest: gv_shut_run)

text \<open>
  C22. \<open>Shutdown\<close> terminates: once it has closed the listener, and every connection is closed, the goroutines
  of the server take at most \<open>gv_work\<close> more steps, in whatever order they run and whatever handlers and
  clients do; where none is left to take, all of them have ended, those inside \<open>Shutdown\<close> and \<open>Wait\<close>
  included, and every request was answered or abandoned, unless a handler has panicked.
\<close>

theorem go_server_shutdown_terminates:
  assumes "reachable gv_init (gv_step N) s" and "closed_conn N closed" and "gv_shut closed s"
  shows "((gv_run N ^^ n) s t \<longrightarrow> n \<le> gv_work s) \<and>
    ((gv_run N)\<^sup>*\<^sup>* s t \<longrightarrow>
       (\<exists>u. gv_run N t u) \<or> gv_crashed t \<or> set (gv_gos t) \<subseteq> {S_end} \<and> go_requests t = go_answered t + go_abandoned t)"
proof (intro conjI impI)
  assume "(gv_run N ^^ n) s t"
  from gsw.winding_steps [OF this, of closed] assms(2,3) gsv.invar_reachable [OF assms(1)] show "n \<le> gv_work s" by simp
next
  assume st: "(gv_run N)\<^sup>*\<^sup>* s t"
  have inv: "gv_full_inv t" by (rule gsf.invar_reachable [OF reachable_star [OF gv_runs_steps [OF st] assms(1)]])
  show "(\<exists>u. gv_run N t u) \<or> gv_crashed t \<or> set (gv_gos t) \<subseteq> {S_end} \<and> go_requests t = go_answered t + go_abandoned t"
  proof (cases "\<forall>pc \<in> set (gv_gos t). gv_blocked t pc")
    case True
    then have "AL_accept \<notin> set (gv_gos t)" by auto
    with all_blocked_server(2) [OF inv] True have ended: "set (gv_gos t) \<subseteq> {S_end}" by blast
    then have "in_progress pc = {#}" if "pc \<in> set (gv_gos t)" for pc using that by auto
    then have "go_in_progress t = {#}" by (simp add: go_in_progress_def sum_list_mset_empty)
    with inv ended show ?thesis by (simp add: gv_full_inv_def gv_inv_def gv_request_inv_def)
  next
    case False
    then obtain j where j: "j < length (gv_gos t)" "\<not> gv_blocked t (gv_gos t ! j)" by (auto simp: in_set_conv_nth)
    then obtain pc u where "gv_turn N (Inl []) False (gv_gos t ! j) t = Some (pc, u)"
      using gv_turn_blocked [of N "Inl []" False "gv_gos t ! j" t] by (cases "gv_turn N (Inl []) False (gv_gos t ! j) t") auto
    from gv_run.gv_run [OF _ j(1) this] show ?thesis by blast
  qed
qed

text \<open>
  The busy server of the examples: its client has gone silent, and \<open>Shutdown\<close> has closed the listener
  and the connection, while one request is being served and another one waits for the slot.
\<close>

definition demo_sv_closing :: "(pipe, unit) go_server" where
  "demo_sv_closing = fold (gv_do pipe_net (Inl ''closed'')) (replicate 4 3) (Go_Shutdown demo_sv_busy)"

lemma demo_sv_closing_reach: "reachable gv_init (gv_step pipe_net) demo_sv_closing"
proof -
  have "\<not> gv_crashed demo_sv_busy" by code_simp
  from gv_step.shutdown [OF this] show ?thesis
    unfolding demo_sv_closing_def by (intro gv_dos_reach reachable.step [OF demo_sv_busy_reach])
qed

lemma demo_sv_closing_facts:
  "gv_gos demo_sv_closing = [AL_accept, HC_sem 0 (demo_sv_request 6) [2], SR_serve 0 (demo_sv_request 5) [1], SH_wait]"
  "gv_done demo_sv_closing" "\<not> gv_listening demo_sv_closing" "map (\<lambda>x. p_rx (peer_conn x)) (gv_peers demo_sv_closing) = [[]]"
  "\<not> gv_crashed demo_sv_closing"
  by code_simp+

theorem go_server_shutdown_terminates_witness:
  "gv_work demo_sv_closing = 25 \<and> \<not> (\<exists>t. (gv_run pipe_net ^^ 26) demo_sv_closing t)"
proof -
  have work: "gv_work demo_sv_closing = 25" by (simp add: gv_work_def demo_sv_closing_facts)
  have "gv_shut (\<lambda>c. p_rx c = []) demo_sv_closing"
    using demo_sv_closing_facts(2-4) by (auto simp: gv_shut_def)
  from go_server_shutdown_terminates [OF demo_sv_closing_reach pipe_closed_conn this, of 26] work show ?thesis by auto
qed

end
