(* ===== verification/Channel_Calls.thy ===== *)
theory Channel_Calls
  imports Channel_Balance
begin

text \<open>
  What one operation of the channel does: call ids, the reader's treatment of a frame, the end
  of the stream, manual dispatch, and calls from the io thread.
\<close>

subsection \<open>Calls and responses\<close>

text \<open>
  Call ids: the \<open>i\<close>-th request frame the channel queues (from 0) carries the call id \<open>i + 1\<close>
  modulo \<open>2\<^sup>3\<^sup>2\<close>; hence the first \<open>2\<^sup>3\<^sup>2\<close> requests carry different ids.
\<close>

theorem channel_call_ids:
  assumes "reachable chan_init (chan_step A) s"
  shows "(\<forall>i < length (queued (events s)). call_id (fst (queued (events s) ! i)) = of_nat (Suc i)) \<and>
    (length (queued (events s)) \<le> 2 ^ 32 \<longrightarrow> distinct (map (\<lambda>f. call_id (fst f)) (queued (events s))))"
proof -
  let ?q = "queued (events s)"
  have ids: "\<forall>i < length ?q. call_id (fst (?q ! i)) = of_nat (Suc i)"
    using fi.invar_reachable [OF assms] by (simp add: full_inv_def id_inv_def)
  moreover have "distinct (map (\<lambda>f. call_id (fst f)) ?q)" if n: "length ?q \<le> 2 ^ 32"
  proof (clarsimp simp: distinct_conv_nth)
    fix i j assume i: "i < length ?q" and j: "j < length ?q" "i \<noteq> j" and eq: "call_id (fst (?q ! i)) = call_id (fst (?q ! j))"
    have "(of_nat i :: u32) = of_nat j" using eq ids i j by simp
    then show False using unat_of_nat_u32 [of i] unat_of_nat_u32 [of j] i j n by simp
  qed
  ultimately show ?thesis by blast
qed

theorem channel_call_ids_witness:
  "chan_reach (demo_sent Inline) \<and> queued (events (demo_sent Inline)) = [demo_frame] \<and>
   call_id (fst demo_frame) = of_nat (Suc 0)"
proof -
  have 1: "queued (events (demo_sent Inline)) = [demo_frame]" by (simp add: demo_sent_eq queued_def)
  with channel_call_ids [OF demo_sent_reach [of Inline]] demo_sent_reach [of Inline] show ?thesis by simp
qed

lemma ReadLoop_turn_response:
  assumes "stream_socket A rx tx" and "next_frame (rx (socket s)) = Some ((hdr, pl), rest)"
    and "frame_type hdr = kResponse" and "map_of (pending s) (call_id hdr) = Some (Some c)"
    and "dispatch (config s) = Inline"
  shows "\<exists>sock. rx sock = rest \<and> ReadLoop_turn A s =
    s\<lparr>socket := sock, pending := filter (\<lambda>e. fst e \<noteq> call_id hdr) (pending s),
      events := events s @ [if code_of_wire (status_code hdr) = OK then Responded c Status_default pl
        else Responded c (Status_make (code_of_wire (status_code hdr)) ''remote error'') []]\<rparr>"
proof -
  obtain sock where sock: "Async_ReadFrame A (socket s) FrameHeader_default [] = (Status_default, hdr, pl, sock)"
    "rx sock = rest"
    using at.read_some [OF assms(1,2), of FrameHeader_default "[]"] by blast
  have "kResponse \<noteq> kPush" by (simp add: kResponse_def kPush_def)
  with sock assms(3-5) have "ReadLoop_turn A s =
    s\<lparr>socket := sock, pending := filter (\<lambda>e. fst e \<noteq> call_id hdr) (pending s),
      events := events s @ [if code_of_wire (status_code hdr) = OK then Responded c Status_default pl
        else Responded c (Status_make (code_of_wire (status_code hdr)) ''remote error'') []]\<rparr>"
    by (simp add: ReadLoop_turn_def ReadLoop_frame_def ReadLoop_response_eq post_response_def
        call_response_def log_event_def Let_def case_prod_unfold)
  with sock(2) show ?thesis by blast
qed

text \<open>
  A response completes exactly its call: when the next frame on the stream is a response
  whose id is pending, one turn of the reader takes the frame off the stream, removes that entry
  and no other, and completes its callback with the payload, or with the transmitted error
  code and an empty payload.
\<close>

theorem ReadLoop_completes_call:
  assumes "stream_socket A rx tx" and "next_frame (rx (socket s)) = Some ((hdr, pl), rest)"
    and "frame_type hdr = kResponse" and "map_of (pending s) (call_id hdr) = Some (Some c)"
    and "dispatch (config s) = Inline"
  shows "\<exists>sock. rx sock = rest \<and> ReadLoop_turn A s =
    s\<lparr>socket := sock, pending := filter (\<lambda>e. fst e \<noteq> call_id hdr) (pending s),
      events := events s @ [if code_of_wire (status_code hdr) = OK then Responded c Status_default pl
        else Responded c (Status_make (code_of_wire (status_code hdr)) ''remote error'') []]\<rparr>"
  using assms by (rule ReadLoop_turn_response)

theorem ReadLoop_completes_call_witness:
  "\<exists>sock. p_rx sock = [] \<and>
    ReadLoop_turn pipe_asio ((demo_sent Inline)\<lparr>socket := \<lparr>p_rx = frame_bytes
       (FrameHeader_default\<lparr>frame_type := kResponse, call_id := 1, payload_size := 1\<rparr>, [9]), p_tx = [], p_room = 0\<rparr>\<rparr>) =
    (demo_sent Inline)\<lparr>socket := sock, pending := [],
      events := events (demo_sent Inline) @ [Responded (User 7) Status_default [9]]\<rparr>"
proof -
  let ?h = "FrameHeader_default\<lparr>frame_type := kResponse, call_id := 1, payload_size := 1\<rparr>"
  let ?s = "(demo_sent Inline)\<lparr>socket := \<lparr>p_rx = frame_bytes (?h, [9]), p_tx = [], p_room = 0\<rparr>\<rparr>"
  have "next_frame (p_rx (socket ?s)) = Some ((?h, [9]), [])"
    by (simp add: next_frame_def frame_bytes_def kSize_def)
  from ReadLoop_completes_call [OF pipe_stream_socket this, of "User 7"] show ?thesis
    by (simp add: demo_sent_eq demo_chan_defs code_of_wire_def FrameHeader_default_def OK_def)
qed

text \<open>
  A response nobody waits for (an unknown or already answered call id) changes nothing but
  the stream.
\<close>

theorem ReadLoop_ignores_unknown:
  assumes "stream_socket A rx tx" and "next_frame (rx (socket s)) = Some ((hdr, pl), rest)"
    and "frame_type hdr = kResponse" and "map_of (pending s) (call_id hdr) = None"
  shows "\<exists>sock. rx sock = rest \<and> ReadLoop_turn A s = s\<lparr>socket := sock\<rparr>"
proof -
  obtain sock where sock: "Async_ReadFrame A (socket s) FrameHeader_default [] = (Status_default, hdr, pl, sock)"
    "rx sock = rest"
    using at.read_some [OF assms(1,2), of FrameHeader_default "[]"] by blast
  have "kResponse \<noteq> kPush" by (simp add: kResponse_def kPush_def)
  with sock assms(3,4) have "ReadLoop_turn A s = s\<lparr>socket := sock\<rparr>"
    by (simp add: ReadLoop_turn_def ReadLoop_frame_def ReadLoop_response_eq Let_def)
  with sock(2) show ?thesis by blast
qed

theorem ReadLoop_ignores_unknown_witness:
  "\<exists>sock. p_rx sock = [] \<and>
    ReadLoop_turn pipe_asio ((demo_sent Inline)\<lparr>socket := \<lparr>p_rx = frame_bytes
       (FrameHeader_default\<lparr>frame_type := kResponse, call_id := 3\<rparr>, []), p_tx = [], p_room = 0\<rparr>\<rparr>) =
    (demo_sent Inline)\<lparr>socket := sock\<rparr>"
proof -
  let ?h = "FrameHeader_default\<lparr>frame_type := kResponse, call_id := 3\<rparr>"
  let ?s = "(demo_sent Inline)\<lparr>socket := \<lparr>p_rx = frame_bytes (?h, []), p_tx = [], p_room = 0\<rparr>\<rparr>"
  have "next_frame (p_rx (socket ?s)) = Some ((?h, []), [])"
    by (simp add: next_frame_def frame_bytes_def kSize_def FrameHeader_default_def)
  from ReadLoop_ignores_unknown [OF pipe_stream_socket this] show ?thesis
    by (simp add: demo_sent_eq demo_chan_defs)
qed




subsection \<open>Manual dispatch and the io thread\<close>

text \<open>What calling a completion logs.\<close>

definition completion_events :: "Completion \<Rightarrow> event list" where
  "completion_events c =
     (if kind c = Response then
        (case resp_cb c of None \<Rightarrow> [] | Some cb \<Rightarrow> [Responded cb (status c) (payload c)])
      else case thunk c of
        None \<Rightarrow> []
      | Some (CallConnect cb st) \<Rightarrow> [ConnectResult cb st]
      | Some (CallPush mid pl) \<Rightarrow> [Pushed mid pl])"

lemma run_completion_events: "run_completion c s = s\<lparr>events := events s @ completion_events c\<rparr>"
  by (simp add: run_completion_def completion_events_def call_response_def call_connect_def run_thunk_eq
      log_event_def split: option.split thunk.split)

lemma RunCallbacks_loop_run:
  assumes "cq_wf (cb_queue s)"
  shows "\<exists>q. RunCallbacks_loop k n s =
      (n + min k (length (cq_items (cb_queue s))),
       s\<lparr>cb_queue := q, events := events s @ concat (map completion_events (take k (cq_items (cb_queue s))))\<rparr>) \<and>
    cq_wf q \<and> cq_items q = drop k (cq_items (cb_queue s))"
  using assms
proof (induction k n s rule: RunCallbacks_loop.induct)
  case (1 n s)
  then show ?case by (intro exI [of _ "cb_queue s"]) simp
next
  case (2 k n s)
  obtain r q where rq: "cq_pop (cb_queue s) = (r, q)" by (cases "cq_pop (cb_queue s)")
  show ?case
  proof (cases r)
    case None
    with rq 2(2) have "cq_items (cb_queue s) = []" "cq_items q = []" "cq_wf q"
      using cq.pop_None [of "cb_queue s" q] cq.wf_pop [of "cb_queue s"] by auto
    then show ?thesis using rq None by (intro exI [of _ q]) simp
  next
    case (Some c)
    let ?t = "run_completion c (s\<lparr>cb_queue := q\<rparr>)"
    have q: "cq_wf q" "cq_items (cb_queue s) = c # cq_items q"
      using cq.pop_Some [of "cb_queue s" c q] rq Some 2(2) by auto
    then have "cq_wf (cb_queue ?t)" by (simp add: run_completion_events)
    from 2(1) [OF rq [symmetric] Some this] obtain q' where
      "RunCallbacks_loop k (Suc n) ?t = (Suc n + min k (length (cq_items q)),
         ?t\<lparr>cb_queue := q', events := events ?t @ concat (map completion_events (take k (cq_items q)))\<rparr>)"
      "cq_wf q'" "cq_items q' = drop k (cq_items q)"
      by (auto simp: run_completion_events)
    then show ?thesis using rq Some q by (intro exI [of _ q']) (simp add: run_completion_events)
  qed
qed

text \<open>
  \<open>RunCallbacks(max)\<close> runs the \<open>max\<close> oldest completions, or all if there are fewer, oldest
  first, returns how many it ran and leaves the rest queued in order.
\<close>

theorem RunCallbacks_fifo:
  assumes "cq_wf (cb_queue s)"
  shows "fst (RunCallbacks mx s) = min (unat mx) (length (cq_items (cb_queue s))) \<and>
    events (snd (RunCallbacks mx s)) =
      events s @ concat (map completion_events (take (unat mx) (cq_items (cb_queue s)))) \<and>
    cq_items (cb_queue (snd (RunCallbacks mx s))) = drop (unat mx) (cq_items (cb_queue s))"
  using RunCallbacks_loop_run [OF assms, of "unat mx" 0] by (auto simp: RunCallbacks_def)

definition demo_queue :: comp_queue where
  "demo_queue = cq_push (Completion_default\<lparr>kind := Response, resp_cb := Some (User 1), payload := [4]\<rparr>)
     (cq_push (Completion_default\<lparr>thunk := Some (CallPush 8 [2])\<rparr>) cq_new)"

theorem RunCallbacks_fifo_witness:
  "cq_wf demo_queue \<and>
   fst (RunCallbacks 1 ((demo_new Manual)\<lparr>cb_queue := demo_queue\<rparr>)) = 1 \<and>
   events (snd (RunCallbacks 1 ((demo_new Manual)\<lparr>cb_queue := demo_queue\<rparr>))) = [Pushed 8 [2]]"
proof -
  have wf: "cq_wf demo_queue" by (simp add: demo_queue_def cq.wf_push cq.wf_empty)
  have "cq_items demo_queue = [Completion_default\<lparr>thunk := Some (CallPush 8 [2])\<rparr>,
    Completion_default\<lparr>kind := Response, resp_cb := Some (User 1), payload := [4]\<rparr>]"
    by (simp add: demo_queue_def cq.items_push cq.wf_push cq.wf_empty cq.items_empty)
  with RunCallbacks_fifo [of "(demo_new Manual)\<lparr>cb_queue := demo_queue\<rparr>" 1] wf show ?thesis
    by (simp add: completion_events_def Completion_default_def demo_chan_defs)
qed

text \<open>
  A call from a callback on the io thread never blocks that thread: \<open>EnsureConnected\<close> returns
  at once and changes nothing, with success exactly if the channel is connected.
\<close>

theorem EnsureConnected_on_strand:
  "\<exists>st. EnsureConnected True s = (Inl st, s) \<and> (ok st \<longleftrightarrow> connected s)"
  by (simp add: EnsureConnected_def status_code_defs)

text \<open>
  C37. Under manual dispatch the end of a connection attempt calls no waiter: it only queues one
  completion per waiter. A thread blocked in \<open>EnsureConnected\<close> is not released before some
  thread runs the callbacks.
\<close>

theorem finish_manual_releases_nobody:
  assumes "dispatch (config s) = Manual" and "cq_wf (cb_queue s)"
  shows "EnsureConnected_get p (finish st s) = EnsureConnected_get p s \<and>
    cq_items (cb_queue (finish st s)) = cq_items (cb_queue s) @
      [Completion_default\<lparr>thunk := Some (CallConnect c st)\<rparr>. Some c \<leftarrow> connect_waiters s]"
proof -
  let ?f = "\<lambda>cb s. case cb of None \<Rightarrow> s | Some c \<Rightarrow> post_deferred (CallConnect c st) s"
  have loop: "events (fold ?f ws t) = events t \<and> cq_items (cb_queue (fold ?f ws t)) =
      cq_items (cb_queue t) @ [Completion_default\<lparr>thunk := Some (CallConnect c st)\<rparr>. Some c \<leftarrow> ws]"
    if "dispatch (config t) = Manual" "cq_wf (cb_queue t)" for ws and t :: "'a chan"
    using that
  proof (induction ws arbitrary: t)
    case (Cons w ws)
    then show ?case
      by (cases w) (simp_all add: post_deferred_def Let_def cq.wf_push cq.items_push Completion_default_def)
  qed simp
  show ?thesis using assms loop by (simp add: finish_def EnsureConnected_get_def Let_def)
qed

theorem finish_manual_releases_nobody_witness:
  "EnsureConnected_get 0 (finish Status_default ((demo_new Manual)\<lparr>connect_waiters := [Some (Promise 0)]\<rparr>)) = None"
  using finish_manual_releases_nobody [of "(demo_new Manual)\<lparr>connect_waiters := [Some (Promise 0)]\<rparr>" 0 Status_default]
  by (simp add: demo_chan_defs cq.wf_empty EnsureConnected_get_def)

end
