(* ===== verification/Session.thy ===== *)
theory Session
  imports Write_Pump
begin

text \<open>
  \<open>src/session.cc\<close>, \<open>src/session.h\<close>, \<open>include/protocomm/server_context.h\<close> and
  \<open>include/protocomm/connection.h\<close>: the server side of a connection.

  \<open>Session::Run\<close> is cut at its \<open>co_await\<close>s, as the coroutines of the channel are. The method
  handlers are the application's: functions of the context, the request, the response string and
  a world of any type that the application keeps, which return a status with the context and the
  response they leave, or throw. The other callbacks do not throw; calling one is an event of the
  log. The handler map belongs to the server and is an argument.
\<close>

subsection \<open>The context of a call\<close>

record ServerContext =
  ctx_peer_address :: string
  ctx_method_id :: u32
  ctx_call_id :: u32
  ctx_trace :: bool
  ctx_method_name :: string
  ctx_request_text :: bytes
  ctx_response_text :: bytes

definition ServerContext_default :: ServerContext where
  "ServerContext_default =
     \<lparr>ctx_peer_address = '''', ctx_method_id = 0, ctx_call_id = 0, ctx_trace = False,
      ctx_method_name = '''', ctx_request_text = [], ctx_response_text = []\<rparr>"

definition tracing :: "ServerContext \<Rightarrow> bool" where
  "tracing ctx = ctx_trace ctx"

definition set_method_name :: "string \<Rightarrow> ServerContext \<Rightarrow> ServerContext" where
  "set_method_name name ctx = ctx\<lparr>ctx_method_name := name\<rparr>"

definition set_request_text :: "bytes \<Rightarrow> ServerContext \<Rightarrow> ServerContext" where
  "set_request_text text ctx = ctx\<lparr>ctx_request_text := text\<rparr>"

definition set_response_text :: "bytes \<Rightarrow> ServerContext \<Rightarrow> ServerContext" where
  "set_response_text text ctx = ctx\<lparr>ctx_response_text := text\<rparr>"

subsection \<open>State\<close>

type_synonym 'w MethodHandler =
  "ServerContext \<Rightarrow> bytes \<Rightarrow> bytes \<Rightarrow> 'w \<Rightarrow> (Status \<times> ServerContext \<times> bytes) option \<times> 'w"

type_synonym 'w HandlerMap = "u32 \<Rightarrow> 'w MethodHandler option"

text \<open>The peer's id and the header it sent; the answer and the new world.\<close>

type_synonym 'w OnHandshakeCb = "u64 \<Rightarrow> bytes \<Rightarrow> 'w \<Rightarrow> bool \<times> 'w"

datatype session_task =
    SW_Enqueue FrameHeader bytes
  | SW_Close

text \<open>Where \<open>Run\<close> is.\<close>

datatype run_pc =
    RunSpawned
  | RunReadHandshake
  | RunWriteHandshake
  | RunReadFrame
  | RunReturned
  | RunThrew

datatype session_event =
    OnConnect
  | OnDisconnect
  | HandshakeReceived bytes
  | OnHandshake bytes bool
  | Received FrameHeader bytes \<comment> \<open>a request was read\<close>
  | Intercepted ServerContext StatusCode bytes bytes
  | SQueued FrameHeader bytes \<comment> \<open>a frame entered \<open>write_queue_\<close>\<close>
  | SWritten FrameHeader bytes \<comment> \<open>\<open>WriteFrame\<close> succeeded on it\<close>

record ('s, 'w) Session =
  ss_socket :: 's
  ss_handshake_header :: bytes
  ss_peer_address :: string
  ss_connection_id :: u64
  ss_on_connect :: bool
  ss_on_disconnect :: bool
  ss_on_handshake :: "'w OnHandshakeCb option"
  ss_interceptor :: bool
  ss_write_queue :: "frame list"
  ss_write_pump_active :: bool
  ss_strand :: "session_task list"
  ss_pump :: pump_pc
  ss_run :: run_pc
  ss_events :: "session_event list"

text \<open>\<open>Session::Session\<close>; \<open>remote_endpoint\<close> gives the peer's address and port, or fails.\<close>

definition Session_new ::
  "'s \<Rightarrow> (string \<times> u16) option \<Rightarrow> bytes \<Rightarrow> u64 \<Rightarrow> bool \<Rightarrow> bool \<Rightarrow> 'w OnHandshakeCb option \<Rightarrow> bool \<Rightarrow>
   ('s, 'w) Session" where
  "Session_new sock ep header cid oc od oh ic =
     \<lparr>ss_socket = sock, ss_handshake_header = header,
      ss_peer_address = (case ep of None \<Rightarrow> '''' | Some (a, p) \<Rightarrow> a @ '':'' @ to_string (unat p)),
      ss_connection_id = cid, ss_on_connect = oc, ss_on_disconnect = od, ss_on_handshake = oh,
      ss_interceptor = ic, ss_write_queue = [], ss_write_pump_active = False, ss_strand = [],
      ss_pump = PumpNone, ss_run = RunSpawned, ss_events = []\<rparr>"

text \<open>The accessors of \<open>Peer\<close>.\<close>

definition Peer_id :: "('s, 'w) Session \<Rightarrow> u64" where
  "Peer_id s = ss_connection_id s"

definition Peer_address :: "('s, 'w) Session \<Rightarrow> string" where
  "Peer_address s = ss_peer_address s"

definition ss_log :: "session_event \<Rightarrow> ('s, 'w) Session \<Rightarrow> ('s, 'w) Session" where
  "ss_log e s = s\<lparr>ss_events := ss_events s @ [e]\<rparr>"

subsection \<open>Writing\<close>

definition Session_EnqueueWrite :: "FrameHeader \<Rightarrow> bytes \<Rightarrow> ('s, 'w) Session \<Rightarrow> ('s, 'w) Session" where
  "Session_EnqueueWrite hdr pl s = s\<lparr>ss_strand := ss_strand s @ [SW_Enqueue hdr pl]\<rparr>"

text \<open>The lambda it posts.\<close>

definition EnqueueWrite_task :: "FrameHeader \<Rightarrow> bytes \<Rightarrow> ('s, 'w) Session \<Rightarrow> ('s, 'w) Session" where
  "EnqueueWrite_task hdr pl s =
     (let s = ss_log (SQueued hdr pl) (s\<lparr>ss_write_queue := ss_write_queue s @ [(hdr, pl)]\<rparr>)
      in if \<not> ss_write_pump_active s then s\<lparr>ss_write_pump_active := True, ss_pump := PumpStart\<rparr> else s)"

text \<open>From the loop's condition to the next \<open>WriteFrame\<close>, or to the end.\<close>

definition Session_WritePump_loop :: "('s, 'w) Session \<Rightarrow> ('s, 'w) Session" where
  "Session_WritePump_loop s =
     (case ss_write_queue s of
        [] \<Rightarrow> s\<lparr>ss_write_pump_active := False, ss_pump := PumpNone\<rparr>
      | (hdr, pl) # q \<Rightarrow> s\<lparr>ss_write_queue := q, ss_pump := PumpWriting hdr pl\<rparr>)"

definition Session_WritePump_wrote ::
  "'s asio \<Rightarrow> FrameHeader \<Rightarrow> bytes \<Rightarrow> ('s, 'w) Session \<Rightarrow> ('s, 'w) Session" where
  "Session_WritePump_wrote A hdr pl s =
     (let (ws, sock) = Async_WriteFrame A (ss_socket s) hdr pl; s = s\<lparr>ss_socket := sock\<rparr>
      in if \<not> ok ws
         then s\<lparr>ss_write_queue := [], ss_write_pump_active := False, ss_pump := PumpNone\<rparr>
         else Session_WritePump_loop (ss_log (SWritten hdr pl) s))"

definition Session_Send :: "u32 \<Rightarrow> bytes \<Rightarrow> ('s, 'w) Session \<Rightarrow> ('s, 'w) Session" where
  "Session_Send mid pl s =
     (let hdr = FrameHeader_default
        \<lparr>frame_type := kPush, method_id := mid, payload_size := of_nat (length pl)\<rparr>
      in Session_EnqueueWrite hdr pl s)"

definition Session_Close :: "('s, 'w) Session \<Rightarrow> ('s, 'w) Session" where
  "Session_Close s = s\<lparr>ss_strand := ss_strand s @ [SW_Close]\<rparr>"

fun session_run_task :: "'s asio \<Rightarrow> session_task \<Rightarrow> ('s, 'w) Session \<Rightarrow> ('s, 'w) Session" where
  "session_run_task A (SW_Enqueue hdr pl) s = EnqueueWrite_task hdr pl s"
| "session_run_task A SW_Close s = s\<lparr>ss_socket := asio_close A (ss_socket s)\<rparr>"

subsection \<open>Run\<close>

text \<open>\<open>~ScopeGuard\<close>, on a return and on an exception.\<close>

definition Run_exit :: "run_pc \<Rightarrow> ('s, 'w) Session \<Rightarrow> ('s, 'w) Session" where
  "Run_exit pc s =
     (let s = (if ss_on_disconnect s then ss_log OnDisconnect s else s) in s\<lparr>ss_run := pc\<rparr>)"

definition Run_start :: "('s, 'w) Session \<Rightarrow> ('s, 'w) Session" where
  "Run_start s =
     (let s = (if ss_on_connect s then ss_log OnConnect s else s)
      in if ss_handshake_header s \<noteq> [] then s\<lparr>ss_run := RunReadHandshake\<rparr>
         else s\<lparr>ss_run := RunReadFrame\<rparr>)"

definition Run_handshake_read ::
  "'s asio \<Rightarrow> ('s, 'w) Session \<Rightarrow> 'w \<Rightarrow> ('s, 'w) Session \<times> 'w" where
  "Run_handshake_read A s w =
     (let (hs, received, sock) =
            Async_ReadHandshakeRaw A (ss_socket s) (length (ss_handshake_header s)) [];
          s = s\<lparr>ss_socket := sock\<rparr>
      in if \<not> ok hs then (Run_exit RunReturned s, w)
         else
           let s = ss_log (HandshakeReceived received) s
           in if received \<noteq> ss_handshake_header s then (Run_exit RunReturned s, w)
              else case ss_on_handshake s of
                None \<Rightarrow> (s\<lparr>ss_run := RunWriteHandshake\<rparr>, w)
              | Some cb \<Rightarrow>
                  (let (accepted, w) = cb (Peer_id s) received w;
                       s = ss_log (OnHandshake received accepted) s
                   in if \<not> accepted then (Run_exit RunReturned s, w)
                      else (s\<lparr>ss_run := RunWriteHandshake\<rparr>, w)))"

definition Run_handshake_wrote :: "'s asio \<Rightarrow> ('s, 'w) Session \<Rightarrow> ('s, 'w) Session" where
  "Run_handshake_wrote A s =
     (let (hs, sock) = Async_WriteHandshake A (ss_socket s) (ss_handshake_header s);
          s = s\<lparr>ss_socket := sock\<rparr>
      in if \<not> ok hs then Run_exit RunReturned s else s\<lparr>ss_run := RunReadFrame\<rparr>)"

definition response_header :: "FrameHeader \<Rightarrow> StatusCode \<Rightarrow> bytes \<Rightarrow> FrameHeader" where
  "response_header req_hdr code resp =
     FrameHeader_default
       \<lparr>frame_type := kResponse, status_code := code_to_wire code, call_id := call_id req_hdr,
        method_id := method_id req_hdr, payload_size := of_nat (length resp)\<rparr>"

text \<open>From the interceptor to the end of the loop's body.\<close>

definition Run_reply ::
  "FrameHeader \<Rightarrow> bytes \<Rightarrow> ServerContext \<Rightarrow> StatusCode \<Rightarrow> bytes \<Rightarrow> ('s, 'w) Session \<Rightarrow> ('s, 'w) Session" where
  "Run_reply req_hdr req ctx code resp s =
     (let s = (if ss_interceptor s then ss_log (Intercepted ctx code req resp) s else s)
      in Session_EnqueueWrite (response_header req_hdr code resp) resp s)"

definition request_context :: "FrameHeader \<Rightarrow> ('s, 'w) Session \<Rightarrow> ServerContext" where
  "request_context req_hdr s =
     ServerContext_default
       \<lparr>ctx_peer_address := ss_peer_address s, ctx_method_id := method_id req_hdr,
        ctx_call_id := call_id req_hdr, ctx_trace := ss_interceptor s\<rparr>"

definition Run_request ::
  "'w HandlerMap \<Rightarrow> FrameHeader \<Rightarrow> bytes \<Rightarrow> ('s, 'w) Session \<Rightarrow> 'w \<Rightarrow> ('s, 'w) Session \<times> 'w" where
  "Run_request H req_hdr req s w =
     (let ctx = request_context req_hdr s
      in case H (method_id req_hdr) of
           None \<Rightarrow> (Run_reply req_hdr req ctx UNIMPLEMENTED [] s, w)
         | Some handler \<Rightarrow>
             (case handler ctx req [] w of
                (None, w) \<Rightarrow> (Run_exit RunThrew s, w)
              | (Some (st, ctx, resp), w) \<Rightarrow>
                  if \<not> ok st then (Run_reply req_hdr req ctx (error_code st) [] s, w)
                  else (Run_reply req_hdr req ctx OK resp s, w)))"

text \<open>One round of the \<open>for\<close> loop, from the completion of \<open>ReadFrame\<close> to the next one.\<close>

definition Run_frame ::
  "'s asio \<Rightarrow> 'w HandlerMap \<Rightarrow> ('s, 'w) Session \<Rightarrow> 'w \<Rightarrow> ('s, 'w) Session \<times> 'w" where
  "Run_frame A H s w =
     (let (rs, req_hdr, req, sock) = Async_ReadFrame A (ss_socket s) FrameHeader_default [];
          s = s\<lparr>ss_socket := sock\<rparr>
      in if \<not> ok rs then (Run_exit RunReturned s, w)
         else if frame_type req_hdr \<noteq> kRequest then (Run_exit RunReturned s, w)
         else Run_request H req_hdr req (ss_log (Received req_hdr req) s) w)"

subsection \<open>Steps\<close>

text \<open>
  What can happen to a session: the strand runs its next task, a coroutine goes on, a thread
  calls \<open>Send\<close> or \<open>Close\<close>, or the rest of the application changes the world.
\<close>

inductive session_step ::
  "'s asio \<Rightarrow> 'w HandlerMap \<Rightarrow> ('s, 'w) Session \<times> 'w \<Rightarrow> ('s, 'w) Session \<times> 'w \<Rightarrow> bool"
  for A :: "'s asio" and H :: "'w HandlerMap" where
  run_start: "ss_run s = RunSpawned \<Longrightarrow> session_step A H (s, w) (Run_start s, w)"
| handshake_read: "ss_run s = RunReadHandshake \<Longrightarrow> session_step A H (s, w) (Run_handshake_read A s w)"
| handshake_wrote: "ss_run s = RunWriteHandshake \<Longrightarrow> session_step A H (s, w) (Run_handshake_wrote A s, w)"
| frame: "ss_run s = RunReadFrame \<Longrightarrow> session_step A H (s, w) (Run_frame A H s w)"
| task: "ss_strand s = t # ts \<Longrightarrow>
    session_step A H (s, w) (session_run_task A t (s\<lparr>ss_strand := ts\<rparr>), w)"
| pump_start: "ss_pump s = PumpStart \<Longrightarrow> session_step A H (s, w) (Session_WritePump_loop s, w)"
| pump_wrote: "ss_pump s = PumpWriting h p \<Longrightarrow>
    session_step A H (s, w) (Session_WritePump_wrote A h p s, w)"
| send: "session_step A H (s, w) (Session_Send mid pl s, w)"
| close: "session_step A H (s, w) (Session_Close s, w)"
| world: "session_step A H (s, w) (s, w')"

inductive_cases session_stepE: "session_step A H x y"

definition session_init :: "('s, 'w) Session \<times> 'w \<Rightarrow> bool" where
  "session_init x \<longleftrightarrow> (\<exists>sock ep header cid oc od oh ic.
     fst x = Session_new sock ep header cid oc od oh ic)"

abbreviation session_reach :: "'s asio \<Rightarrow> 'w HandlerMap \<Rightarrow> ('s, 'w) Session \<times> 'w \<Rightarrow> bool" where
  "session_reach A H \<equiv> reachable session_init (session_step A H)"

subsection \<open>Reading the log\<close>

definition squeued :: "session_event list \<Rightarrow> frame list" where
  "squeued es = [(h, p). SQueued h p \<leftarrow> es]"

definition swritten :: "session_event list \<Rightarrow> frame list" where
  "swritten es = [(h, p). SWritten h p \<leftarrow> es]"

definition requests :: "session_event list \<Rightarrow> frame list" where
  "requests es = [(h, p). Received h p \<leftarrow> es]"

lemma squeued_simps [simp]:
  "squeued [] = []" "squeued (es @ fs) = squeued es @ squeued fs"
  "squeued (e # es) = (case e of SQueued h p \<Rightarrow> [(h, p)] | _ \<Rightarrow> []) @ squeued es"
  by (simp_all add: squeued_def split: session_event.split)

lemma swritten_simps [simp]:
  "swritten [] = []" "swritten (es @ fs) = swritten es @ swritten fs"
  "swritten (e # es) = (case e of SWritten h p \<Rightarrow> [(h, p)] | _ \<Rightarrow> []) @ swritten es"
  by (simp_all add: swritten_def split: session_event.split)

lemma requests_simps [simp]:
  "requests [] = []" "requests (es @ fs) = requests es @ requests fs"
  "requests (e # es) = (case e of Received h p \<Rightarrow> [(h, p)] | _ \<Rightarrow> []) @ requests es"
  by (simp_all add: requests_def split: session_event.split)

text \<open>The frames handed to \<open>EnqueueWrite\<close>: those queued, then those still on the strand.\<close>

definition strand_frames :: "session_task list \<Rightarrow> frame list" where
  "strand_frames ts = [(h, p). SW_Enqueue h p \<leftarrow> ts]"

lemma strand_frames_simps [simp]:
  "strand_frames [] = []" "strand_frames (ts @ us) = strand_frames ts @ strand_frames us"
  "strand_frames (SW_Enqueue h p # ts) = (h, p) # strand_frames ts"
  "strand_frames (SW_Close # ts) = strand_frames ts"
  by (simp_all add: strand_frames_def)

definition replies :: "('s, 'w) Session \<Rightarrow> frame list" where
  "replies s =
     filter (\<lambda>(h, p). frame_type h = kResponse) (squeued (ss_events s) @ strand_frames (ss_strand s))"

subsection \<open>The write pump\<close>

interpretation sp: write_pump ss_write_queue ss_write_pump_active ss_pump
  "\<lambda>s. squeued (ss_events s)" "\<lambda>s. swritten (ss_events s)" EnqueueWrite_task Session_WritePump_loop
  "Session_WritePump_wrote A"
  for A :: "'s asio"
proof (unfold_locales, goal_cases)
  case (10 h p s)
  obtain ws sock where ws: "Async_WriteFrame A (ss_socket s) h p = (ws, sock)" by fastforce
  show ?case
  proof (cases "ok ws")
    case True
    then show ?thesis
      by (intro disjI1 exI [of _ "ss_log (SWritten h p) (s\<lparr>ss_socket := sock\<rparr>)"])
        (simp add: Session_WritePump_wrote_def ws ss_log_def)
  next
    case False
    then show ?thesis by (simp add: Session_WritePump_wrote_def ws)
  qed
qed (auto simp: EnqueueWrite_task_def Session_WritePump_loop_def ss_log_def Let_def split: list.split)

definition spump_inv :: "('s, 'w) Session \<Rightarrow> bool" where
  "spump_inv s \<longleftrightarrow>
     pump_ok (ss_write_queue s) (ss_write_pump_active s) (ss_pump s)
       (squeued (ss_events s)) (swritten (ss_events s))"

subsection \<open>What \<open>Run\<close> leaves alone\<close>

text \<open>The part of the state that belongs to the write pump.\<close>

definition pump_part :: "('s, 'w) Session \<Rightarrow> frame list \<times> bool \<times> pump_pc \<times> frame list \<times> frame list" where
  "pump_part s = (ss_write_queue s, ss_write_pump_active s, ss_pump s,
     squeued (ss_events s), swritten (ss_events s))"

lemma pump_part_exit [simp]: "pump_part (Run_exit pc s) = pump_part s"
  by (simp add: pump_part_def Run_exit_def ss_log_def Let_def)

lemma pump_part_reply [simp]: "pump_part (Run_reply h req ctx code resp s) = pump_part s"
  by (simp add: pump_part_def Run_reply_def Session_EnqueueWrite_def ss_log_def Let_def)

lemma pump_part_start [simp]: "pump_part (Run_start s) = pump_part s"
  by (simp add: pump_part_def Run_start_def ss_log_def Let_def)

lemma pump_part_update [simp]:
  "pump_part (s\<lparr>ss_run := pc\<rparr>) = pump_part s" "pump_part (s\<lparr>ss_socket := sock\<rparr>) = pump_part s"
  "pump_part (s\<lparr>ss_strand := ts\<rparr>) = pump_part s"
  "pump_part (ss_log (HandshakeReceived b) s) = pump_part s"
  "pump_part (ss_log (OnHandshake b a) s) = pump_part s"
  "pump_part (ss_log (Received h b) s) = pump_part s"
  by (simp_all add: pump_part_def ss_log_def)

lemma pump_part_handshake_read [simp]: "pump_part (fst (Run_handshake_read A s w)) = pump_part s"
  by (simp add: Run_handshake_read_def Let_def case_prod_unfold split: option.split)

lemma pump_part_handshake_wrote [simp]: "pump_part (Run_handshake_wrote A s) = pump_part s"
  by (simp add: Run_handshake_wrote_def Let_def case_prod_unfold)

lemma pump_part_request [simp]: "pump_part (fst (Run_request H h req s w)) = pump_part s"
  by (simp add: Run_request_def Let_def split: option.split prod.split)

lemma pump_part_frame [simp]: "pump_part (fst (Run_frame A H s w)) = pump_part s"
  by (simp add: Run_frame_def Let_def case_prod_unfold)

lemma pump_part_send [simp]:
  "pump_part (Session_Send mid pl s) = pump_part s" "pump_part (Session_Close s) = pump_part s"
  by (simp_all add: Session_Send_def Session_EnqueueWrite_def Session_Close_def Let_def)

lemma spump_inv_part: "pump_part t = pump_part s \<Longrightarrow> spump_inv s \<Longrightarrow> spump_inv t"
  by (simp add: pump_part_def spump_inv_def)

lemma spump_inv_step:
  assumes "session_step A H x y" and "spump_inv (fst x)"
  shows "spump_inv (fst y)"
  using assms
proof (cases rule: session_step.cases)
  case (task s t ts w)
  have "spump_inv (s\<lparr>ss_strand := ts\<rparr>)"
    by (rule spump_inv_part [of _ s]) (use assms task in simp_all)
  then have "spump_inv (session_run_task A t (s\<lparr>ss_strand := ts\<rparr>))"
    using sp.ok_enqueue [of "s\<lparr>ss_strand := ts\<rparr>"] by (cases t) (auto simp: spump_inv_def)
  with task show ?thesis by simp
next
  case (pump_start s w)
  with assms(2) show ?thesis using sp.ok_start [of s] by (simp add: spump_inv_def)
next
  case (pump_wrote s h p w)
  with assms(2) show ?thesis using sp.ok_wrote [of s h p A] by (simp add: spump_inv_def)
qed (use assms(2) in \<open>auto elim: spump_inv_part [rotated]\<close>)

subsection \<open>One response per request\<close>

text \<open>\<open>resp\<close> answers \<open>req\<close>: the same call, an announced size, and no payload with an error.\<close>

definition answers :: "frame \<Rightarrow> frame \<Rightarrow> bool" where
  "answers req resp \<longleftrightarrow>
     frame_type (fst resp) = kResponse \<and> call_id (fst resp) = call_id (fst req) \<and>
     method_id (fst resp) = method_id (fst req) \<and>
     payload_size (fst resp) = of_nat (length (snd resp)) \<and>
     (status_code (fst resp) \<noteq> 0 \<longrightarrow> snd resp = [])"

text \<open>The requests that got an answer: all but the one whose handler threw.\<close>

definition answered :: "('s, 'w) Session \<Rightarrow> frame list" where
  "answered s =
     (if ss_run s = RunThrew then butlast (requests (ss_events s)) else requests (ss_events s))"

definition reply_inv :: "('s, 'w) Session \<Rightarrow> bool" where
  "reply_inv s \<longleftrightarrow> list_all2 answers (answered s) (replies s)"

text \<open>What the replies and the answered requests are read off.\<close>

definition reply_part :: "('s, 'w) Session \<Rightarrow> frame list \<times> frame list \<times> bool" where
  "reply_part s = (requests (ss_events s), replies s, ss_run s = RunThrew)"

lemma reply_inv_part: "reply_part t = reply_part s \<Longrightarrow> reply_inv s \<Longrightarrow> reply_inv t"
  by (simp add: reply_part_def reply_inv_def answered_def split: if_splits)

lemma reply_part_exit [simp]:
  "ss_run s \<noteq> RunThrew \<Longrightarrow> reply_part (Run_exit RunReturned s) = reply_part s"
  by (simp add: reply_part_def Run_exit_def ss_log_def Let_def replies_def)

lemma reply_part_start [simp]: "ss_run s \<noteq> RunThrew \<Longrightarrow> reply_part (Run_start s) = reply_part s"
  by (simp add: reply_part_def Run_start_def ss_log_def Let_def replies_def)

lemma reply_part_update [simp]:
  "pc \<noteq> RunThrew \<Longrightarrow> ss_run s \<noteq> RunThrew \<Longrightarrow> reply_part (s\<lparr>ss_run := pc\<rparr>) = reply_part s"
  "reply_part (s\<lparr>ss_socket := sock\<rparr>) = reply_part s"
  "reply_part (ss_log (HandshakeReceived b) s) = reply_part s"
  "reply_part (ss_log (OnHandshake b a) s) = reply_part s"
  by (simp_all add: reply_part_def ss_log_def replies_def)

lemma ss_run_log [simp]: "ss_run (ss_log e s) = ss_run s"
  by (simp add: ss_log_def)

lemma reply_part_handshake_read [simp]:
  "ss_run s \<noteq> RunThrew \<Longrightarrow> reply_part (fst (Run_handshake_read A s w)) = reply_part s"
  by (simp add: Run_handshake_read_def Let_def case_prod_unfold split: option.split)

lemma reply_part_handshake_wrote [simp]:
  "ss_run s \<noteq> RunThrew \<Longrightarrow> reply_part (Run_handshake_wrote A s) = reply_part s"
  by (simp add: Run_handshake_wrote_def Let_def case_prod_unfold)

lemma reply_part_pump [simp]:
  "reply_part (Session_WritePump_loop s) = reply_part s"
  "reply_part (Session_WritePump_wrote A h p s) = reply_part s"
  by (simp_all add: Session_WritePump_wrote_def Session_WritePump_loop_def reply_part_def replies_def ss_log_def Let_def
      case_prod_unfold split: list.split)

lemma reply_part_send [simp]:
  "reply_part (Session_Send mid pl s) = reply_part s" "reply_part (Session_Close s) = reply_part s"
  by (simp_all add: Session_Send_def Session_EnqueueWrite_def Session_Close_def Let_def reply_part_def replies_def)

lemma reply_part_task:
  "ss_strand s = t # ts \<Longrightarrow> reply_part (session_run_task A t (s\<lparr>ss_strand := ts\<rparr>)) = reply_part s"
  by (cases t) (simp_all add: EnqueueWrite_task_def reply_part_def replies_def ss_log_def Let_def)

lemma replies_reply [simp]:
  "replies (Run_reply h req ctx code resp s) = replies s @ [(response_header h code resp, resp)]"
  by (simp add: Run_reply_def Session_EnqueueWrite_def replies_def ss_log_def Let_def response_header_def)

lemma answered_reply [simp]: "answered (Run_reply h req ctx code resp s) = answered s"
  by (simp add: Run_reply_def Session_EnqueueWrite_def answered_def ss_log_def Let_def)

lemma answers_response:
  "code = OK \<or> resp = [] \<Longrightarrow> answers (h, req) (response_header h code resp, resp)"
  by (auto simp: answers_def response_header_def code_to_wire_def OK_def)

lemma reply_inv_reply:
  assumes "reply_inv s" and "ss_run s \<noteq> RunThrew" and "code = OK \<or> resp = []"
  shows "reply_inv (Run_reply h req ctx code resp (ss_log (Received h req) s))"
proof -
  have "answered (ss_log (Received h req) s) = answered s @ [(h, req)]"
    "replies (ss_log (Received h req) s) = replies s"
    using assms(2) by (simp_all add: answered_def ss_log_def replies_def)
  with assms answers_response [OF assms(3), of h req] show ?thesis
    by (simp add: reply_inv_def list_all2_appendI)
qed

lemma reply_inv_throw:
  assumes "reply_inv s" and "ss_run s \<noteq> RunThrew"
  shows "reply_inv (Run_exit RunThrew (ss_log (Received h req) s))"
  using assms by (simp add: reply_inv_def answered_def replies_def Run_exit_def ss_log_def Let_def)

lemma reply_inv_request:
  assumes "reply_inv s" and "ss_run s \<noteq> RunThrew"
  shows "reply_inv (fst (Run_request H h req (ss_log (Received h req) s) w))"
  using reply_inv_reply [OF assms] reply_inv_throw [OF assms]
  by (simp add: Run_request_def Let_def split: option.split prod.split)

lemma reply_inv_frame:
  assumes "reply_inv s" and "ss_run s \<noteq> RunThrew"
  shows "reply_inv (fst (Run_frame A H s w))"
proof -
  obtain rs h req sock where r: "Async_ReadFrame A (ss_socket s) FrameHeader_default [] = (rs, h, req, sock)"
    by (metis surj_pair)
  define u where "u = s\<lparr>ss_socket := sock\<rparr>"
  have u: "reply_inv u" "ss_run u \<noteq> RunThrew"
    using assms reply_inv_part [of u s] by (simp_all add: u_def)
  then have "reply_inv (Run_exit RunReturned u)"
    by (intro reply_inv_part [OF _ u(1)]) simp
  with reply_inv_request [OF u] show ?thesis
    by (simp add: Run_frame_def r u_def Let_def)
qed

lemma reply_inv_step:
  assumes "session_step A H x y" and "reply_inv (fst x)"
  shows "reply_inv (fst y)"
  using assms
proof (cases rule: session_step.cases)
  case (frame s w)
  with assms(2) show ?thesis by (simp add: reply_inv_frame)
next
  case (task s t ts w)
  with assms(2) show ?thesis by (auto elim: reply_inv_part [OF reply_part_task])
qed (use assms(2) in \<open>auto elim: reply_inv_part [rotated]\<close>)

subsection \<open>The life of a connection\<close>

text \<open>The peer sent the expected header, and \<open>on_handshake\<close>, if set, accepted it.\<close>

definition handshake_done :: "('s, 'w) Session \<Rightarrow> bool" where
  "handshake_done s \<longleftrightarrow>
     ss_handshake_header s = [] \<or>
     HandshakeReceived (ss_handshake_header s) \<in> set (ss_events s) \<and>
     (ss_on_handshake s \<noteq> None \<longrightarrow> OnHandshake (ss_handshake_header s) True \<in> set (ss_events s))"

definition life_inv :: "('s, 'w) Session \<Rightarrow> bool" where
  "life_inv s \<longleftrightarrow>
     count_list (ss_events s) OnConnect = (if ss_on_connect s \<and> ss_run s \<noteq> RunSpawned then 1 else 0) \<and>
     count_list (ss_events s) OnDisconnect =
       (if ss_on_disconnect s \<and> ss_run s \<in> {RunReturned, RunThrew} then 1 else 0) \<and>
     (ss_run s \<in> {RunWriteHandshake, RunReadFrame} \<or> requests (ss_events s) \<noteq> [] \<longrightarrow> handshake_done s)"

lemma life_inv_quiet:
  assumes "life_inv s" and "ss_run t = ss_run s" and "ss_events t = ss_events s @ es"
    and "\<forall>e \<in> set es. case e of SQueued h p \<Rightarrow> True | SWritten h p \<Rightarrow> True | Intercepted c sc a b \<Rightarrow> True | _ \<Rightarrow> False"
    and "ss_on_connect t = ss_on_connect s" "ss_on_disconnect t = ss_on_disconnect s"
    and "ss_on_handshake t = ss_on_handshake s" "ss_handshake_header t = ss_handshake_header s"
  shows "life_inv t"
proof -
  have "OnConnect \<notin> set es" "OnDisconnect \<notin> set es" using assms(4) by fastforce+
  moreover have "requests es = []"
    using assms(4) by (induction es) (auto split: session_event.splits)
  ultimately show ?thesis
    using assms by (auto simp: life_inv_def handshake_done_def)
qed

lemma life_inv_exit:
  "life_inv s \<Longrightarrow> ss_run s \<notin> {RunSpawned, RunReturned, RunThrew} \<Longrightarrow> pc \<in> {RunReturned, RunThrew} \<Longrightarrow>
   life_inv (Run_exit pc s)"
  by (auto simp: life_inv_def handshake_done_def Run_exit_def ss_log_def Let_def)

lemma life_inv_socket [simp]: "life_inv (s\<lparr>ss_socket := sock\<rparr>) = life_inv s"
  by (simp add: life_inv_def handshake_done_def)

lemma life_inv_start: "life_inv s \<Longrightarrow> ss_run s = RunSpawned \<Longrightarrow> life_inv (Run_start s)"
  by (auto simp: life_inv_def handshake_done_def Run_start_def ss_log_def Let_def)

lemma life_inv_log:
  "life_inv s \<Longrightarrow> life_inv (ss_log (HandshakeReceived b) s)"
  "life_inv s \<Longrightarrow> life_inv (ss_log (OnHandshake b a) s)"
  "life_inv s \<Longrightarrow> handshake_done s \<Longrightarrow> life_inv (ss_log (Received h p) s)"
  by (auto simp: life_inv_def handshake_done_def ss_log_def)

lemma life_inv_pc:
  "life_inv s \<Longrightarrow> ss_run s \<in> {RunReadHandshake, RunWriteHandshake} \<Longrightarrow>
   pc \<in> {RunWriteHandshake, RunReadFrame} \<Longrightarrow> handshake_done s \<Longrightarrow> life_inv (s\<lparr>ss_run := pc\<rparr>)"
  by (auto simp: life_inv_def handshake_done_def)

lemma life_inv_handshake_read:
  assumes "life_inv s" and "ss_run s = RunReadHandshake"
  shows "life_inv (fst (Run_handshake_read A s w))"
proof -
  obtain hs b sock where r: "Async_ReadHandshakeRaw A (ss_socket s) (length (ss_handshake_header s)) [] = (hs, b, sock)"
    by (metis surj_pair)
  define u where "u = s\<lparr>ss_socket := sock\<rparr>"
  define v where "v = ss_log (HandshakeReceived b) u"
  have u: "life_inv u" "ss_run u = RunReadHandshake" using assms by (simp_all add: u_def)
  then have v: "life_inv v" "ss_run v = RunReadHandshake" by (simp_all add: v_def life_inv_log)
  show ?thesis
  proof (cases "ok hs \<and> b = ss_handshake_header s")
    case False
    have "fst (Run_handshake_read A s w) = Run_exit RunReturned u \<or>
      fst (Run_handshake_read A s w) = Run_exit RunReturned v"
      using False by (auto simp: Run_handshake_read_def r u_def v_def Let_def ss_log_def)
    with u v show ?thesis by (auto intro!: life_inv_exit)
  next
    case True
    show ?thesis
    proof (cases "ss_on_handshake s")
      case None
      then have "handshake_done v" using True by (simp add: v_def u_def handshake_done_def ss_log_def)
      with v have "life_inv (v\<lparr>ss_run := RunWriteHandshake\<rparr>)" by (intro life_inv_pc) auto
      with True None show ?thesis
        by (simp add: Run_handshake_read_def r u_def v_def Let_def ss_log_def)
    next
      case (Some cb)
      obtain a w' where cb: "cb (Peer_id v) b w = (a, w')" by (metis surj_pair)
      define x where "x = ss_log (OnHandshake b a) v"
      have x: "life_inv x" "ss_run x = RunReadHandshake" using v by (simp_all add: x_def life_inv_log)
      have "a \<Longrightarrow> handshake_done x" using True by (simp add: x_def v_def u_def handshake_done_def ss_log_def)
      with x have "if a then life_inv (x\<lparr>ss_run := RunWriteHandshake\<rparr>) else life_inv (Run_exit RunReturned x)"
        by (simp add: life_inv_pc life_inv_exit)
      moreover have "fst (Run_handshake_read A s w) =
        (if a then x\<lparr>ss_run := RunWriteHandshake\<rparr> else Run_exit RunReturned x)"
        using True Some cb by (simp add: Run_handshake_read_def r u_def v_def x_def Let_def ss_log_def)
      ultimately show ?thesis by (cases a) simp_all
    qed
  qed
qed

lemma life_inv_handshake_wrote:
  assumes "life_inv s" and "ss_run s = RunWriteHandshake"
  shows "life_inv (Run_handshake_wrote A s)"
proof -
  obtain hs sock where r: "Async_WriteHandshake A (ss_socket s) (ss_handshake_header s) = (hs, sock)"
    by (metis surj_pair)
  have u: "life_inv (s\<lparr>ss_socket := sock\<rparr>)" "handshake_done (s\<lparr>ss_socket := sock\<rparr>)"
    using assms by (simp_all add: life_inv_def handshake_done_def)
  then have "life_inv (s\<lparr>ss_socket := sock, ss_run := RunReadFrame\<rparr>)"
    using assms by (intro life_inv_pc) auto
  with u assms(2) show ?thesis
    by (simp add: Run_handshake_wrote_def r Let_def life_inv_exit)
qed

lemma life_inv_reply: "life_inv s \<Longrightarrow> life_inv (Run_reply h req ctx code resp s)"
  by (erule life_inv_quiet [where es = "if ss_interceptor s then [Intercepted ctx code req resp] else []"])
    (simp_all add: Run_reply_def Session_EnqueueWrite_def ss_log_def)

lemma life_inv_request:
  "life_inv s \<Longrightarrow> ss_run s = RunReadFrame \<Longrightarrow> life_inv (fst (Run_request H h req s w))"
  by (simp add: Run_request_def Let_def life_inv_reply life_inv_exit split: option.split prod.split)

lemma life_inv_frame:
  assumes "life_inv s" and "ss_run s = RunReadFrame"
  shows "life_inv (fst (Run_frame A H s w))"
proof -
  obtain rs h req sock where r: "Async_ReadFrame A (ss_socket s) FrameHeader_default [] = (rs, h, req, sock)"
    by (metis surj_pair)
  define u where "u = s\<lparr>ss_socket := sock\<rparr>"
  have u: "life_inv u" "ss_run u = RunReadFrame" "handshake_done u"
    using assms by (simp_all add: u_def) (simp add: life_inv_def handshake_done_def)
  then have "life_inv (ss_log (Received h req) u)" by (simp add: life_inv_log)
  with u show ?thesis
    by (simp add: Run_frame_def r Let_def flip: u_def) (simp add: life_inv_exit life_inv_request)
qed

lemma life_inv_rest:
  assumes "life_inv s"
  shows "life_inv (Session_Send mid pl s)" and "life_inv (Session_Close s)"
    and "life_inv (Session_WritePump_loop s)" and "life_inv (EnqueueWrite_task h p s)"
proof -
  show "life_inv (Session_Send mid pl s)"
    by (rule life_inv_quiet [OF assms, where es = "[]"])
      (simp_all add: Session_Send_def Session_EnqueueWrite_def Let_def)
  show "life_inv (Session_Close s)"
    by (rule life_inv_quiet [OF assms, where es = "[]"]) (simp_all add: Session_Close_def)
  show "life_inv (Session_WritePump_loop s)"
    by (rule life_inv_quiet [OF assms, where es = "[]"])
      (simp_all add: Session_WritePump_loop_def split: list.split)
  show "life_inv (EnqueueWrite_task h p s)"
    by (rule life_inv_quiet [OF assms, where es = "[SQueued h p]"])
      (simp_all add: EnqueueWrite_task_def ss_log_def Let_def)
qed

lemma life_inv_wrote: "life_inv s \<Longrightarrow> life_inv (Session_WritePump_wrote A h p s)"
proof -
  assume s: "life_inv s"
  obtain ws sock where r: "Async_WriteFrame A (ss_socket s) h p = (ws, sock)" by (metis surj_pair)
  have "life_inv (ss_log (SWritten h p) (s\<lparr>ss_socket := sock\<rparr>))"
    by (rule life_inv_quiet [OF s, where es = "[SWritten h p]"]) (simp_all add: ss_log_def)
  moreover have "life_inv (s\<lparr>ss_socket := sock, ss_write_queue := [], ss_write_pump_active := False, ss_pump := PumpNone\<rparr>)"
    by (rule life_inv_quiet [OF s, where es = "[]"]) simp_all
  ultimately show ?thesis by (simp add: Session_WritePump_wrote_def r Let_def life_inv_rest)
qed

lemma life_inv_strand [simp]: "life_inv (s\<lparr>ss_strand := ts\<rparr>) = life_inv s"
  by (simp add: life_inv_def handshake_done_def)

lemma life_inv_step:
  assumes "session_step A H x y" and "life_inv (fst x)"
  shows "life_inv (fst y)"
  using assms
proof (cases rule: session_step.cases)
  case (task s t ts w)
  with assms(2) show ?thesis by (cases t) (simp_all add: life_inv_rest)
qed (use assms(2) in \<open>simp_all add: life_inv_start life_inv_handshake_read life_inv_handshake_wrote
       life_inv_frame life_inv_rest life_inv_wrote\<close>)

subsection \<open>The invariant of a session\<close>

definition session_inv :: "('s, 'w) Session \<Rightarrow> bool" where
  "session_inv s \<longleftrightarrow> spump_inv s \<and> reply_inv s \<and> life_inv s"

lemma session_inv_new: "session_inv (Session_new sock ep header cid oc od oh ic)"
  by (simp add: session_inv_def spump_inv_def reply_inv_def life_inv_def Session_new_def pump_ok_init
      answered_def replies_def)

lemma session_inv_step: "session_step A H x y \<Longrightarrow> session_inv (fst x) \<Longrightarrow> session_inv (fst y)"
  by (simp add: session_inv_def spump_inv_step reply_inv_step life_inv_step)

interpretation si: inductive_invariant session_init "session_step A H" "\<lambda>x. session_inv (fst x)"
  for A :: "'s asio" and H :: "'w HandlerMap"
  by unfold_locales (auto simp: session_init_def session_inv_new intro: session_inv_step)

subsection \<open>The request loop on a whole stream\<close>

text \<open>
  The \<open>for\<close> loop of \<open>Run\<close> with every read completing in turn. Whether it ends depends on the
  socket, so the recursion is partial.
\<close>

partial_function (option) Run_loop ::
  "'s asio \<Rightarrow> 'w HandlerMap \<Rightarrow> ('s, 'w) Session \<Rightarrow> 'w \<Rightarrow> (('s, 'w) Session \<times> 'w) option" where
  "Run_loop A H s w =
     (let r = Run_frame A H s w
      in if ss_run (fst r) = RunReadFrame then Run_loop A H (fst r) (snd r) else Some r)"

text \<open>
  What the server promises, without sockets, strands or coroutines: the answer to a request, and
  the answers to a list of frames up to the first that is not a request or whose handler throws.
\<close>

definition reply_to ::
  "'w HandlerMap \<Rightarrow> ServerContext \<Rightarrow> frame \<Rightarrow> 'w \<Rightarrow> frame option \<times> 'w" where
  "reply_to H ctx f w =
     (case H (method_id (fst f)) of
        None \<Rightarrow> (Some (response_header (fst f) UNIMPLEMENTED [], []), w)
      | Some handler \<Rightarrow>
          (case handler ctx (snd f) [] w of
             (None, w) \<Rightarrow> (None, w)
           | (Some (st, _, resp), w) \<Rightarrow>
               (let body = (if ok st then resp else [])
                in (Some (response_header (fst f) (error_code st) body, body), w))))"

fun serve ::
  "'w HandlerMap \<Rightarrow> (FrameHeader \<Rightarrow> ServerContext) \<Rightarrow> frame list \<Rightarrow> 'w \<Rightarrow> frame list \<times> run_pc \<times> 'w" where
  "serve H ctx [] w = ([], RunReturned, w)"
| "serve H ctx (f # fs) w =
     (if frame_type (fst f) \<noteq> kRequest then ([], RunReturned, w)
      else case reply_to H (ctx (fst f)) f w of
        (None, w) \<Rightarrow> ([], RunThrew, w)
      | (Some r, w) \<Rightarrow> (let (rs, e, w) = serve H ctx fs w in (r # rs, e, w)))"

lemma Run_request_reply_to:
  assumes "reply_to H (request_context h s) (h, req) w = (r, w')"
  shows "snd (Run_request H h req s w) = w'"
    and "r = None \<Longrightarrow> fst (Run_request H h req s w) = Run_exit RunThrew s"
    and "r = Some (rh, rp) \<Longrightarrow>
      \<exists>ctx code. fst (Run_request H h req s w) = Run_reply h req ctx code rp s \<and> rh = response_header h code rp"
proof -
  show "snd (Run_request H h req s w) = w'" and
    "r = None \<Longrightarrow> fst (Run_request H h req s w) = Run_exit RunThrew s"
    using assms by (auto simp: reply_to_def Run_request_def Let_def ok_iff_code split: option.splits prod.splits if_splits)
  show "\<exists>ctx code. fst (Run_request H h req s w) = Run_reply h req ctx code rp s \<and> rh = response_header h code rp"
    if "r = Some (rh, rp)"
  proof (cases "H (method_id h)")
    case None
    with assms that show ?thesis by (auto simp: reply_to_def Run_request_def Let_def)
  next
    case (Some f)
    obtain o1 w1 where f: "f (request_context h s) req [] w = (o1, w1)" by (metis surj_pair)
    with Some assms that obtain st c b where o1: "o1 = Some (st, c, b)"
      by (cases o1) (auto simp: reply_to_def)
    show ?thesis
      using assms that Some f o1
      by (intro exI [of _ c] exI [of _ "error_code st"])
        (auto simp: reply_to_def Run_request_def Let_def ok_iff_code split: if_splits)
  qed
qed

lemma Run_frame_end:
  assumes "stream_socket A rx tx"
    and "case next_frame (rx (ss_socket s)) of None \<Rightarrow> True | Some (f, _) \<Rightarrow> frame_type (fst f) \<noteq> kRequest"
  shows "\<exists>sock. Run_frame A H s w = (Run_exit RunReturned (s\<lparr>ss_socket := sock\<rparr>), w)"
proof (cases "next_frame (rx (ss_socket s))")
  case None
  from at.read_none [OF assms(1) this, of FrameHeader_default "[]"] show ?thesis
    by (auto simp: Run_frame_def Let_def ok_iff_code)
next
  case (Some r)
  obtain h p rest where r: "r = ((h, p), rest)" by (metis surj_pair)
  from at.read_some [OF assms(1) Some [unfolded r], of FrameHeader_default "[]"] assms(2) Some r
  show ?thesis by (auto simp: Run_frame_def Let_def)
qed

lemma Run_frame_request:
  assumes "stream_socket A rx tx" and "next_frame (rx (ss_socket s)) = Some ((h, p), rest)"
    and "frame_type h = kRequest"
  obtains sock where "rx sock = rest"
    and "Run_frame A H s w = Run_request H h p (ss_log (Received h p) (s\<lparr>ss_socket := sock\<rparr>)) w"
proof -
  from at.read_some [OF assms(1,2), of FrameHeader_default "[]"]
  obtain sock where "Async_ReadFrame A (ss_socket s) FrameHeader_default [] = (Status_default, h, p, sock)"
    and "rx sock = rest" by blast
  with assms(3) that show ?thesis by (simp add: Run_frame_def)
qed

text \<open>The parts of the session that a reply does not touch.\<close>

lemma Run_reply_fields [simp]:
  "ss_run (Run_reply h req ctx code resp s) = ss_run s"
  "ss_socket (Run_reply h req ctx code resp s) = ss_socket s"
  "ss_strand (Run_reply h req ctx code resp s) =
     ss_strand s @ [SW_Enqueue (response_header h code resp) resp]"
  "request_context g (Run_reply h req ctx code resp s) = request_context g s"
  "requests (ss_events (Run_reply h req ctx code resp s)) = requests (ss_events s)"
  by (simp_all add: Run_reply_def Session_EnqueueWrite_def ss_log_def request_context_def Let_def)

lemma Run_exit_fields [simp]:
  "ss_run (Run_exit pc s) = pc" "ss_strand (Run_exit pc s) = ss_strand s"
  by (simp_all add: Run_exit_def ss_log_def Let_def)

lemma ss_log_fields [simp]:
  "ss_socket (ss_log e s) = ss_socket s" "ss_strand (ss_log e s) = ss_strand s"
  "request_context g (ss_log e s) = request_context g s"
  by (simp_all add: ss_log_def request_context_def)

lemma request_context_socket [simp]: "request_context g (s\<lparr>ss_socket := sock\<rparr>) = request_context g s"
  by (simp add: request_context_def)

lemma Run_loop_last:
  assumes "Run_frame A H s w = (t, w')" and "ss_run t \<noteq> RunReadFrame" and "ss_run s = RunReadFrame"
  shows "Run_loop A H s w = Some (t, w') \<and> (session_step A H)\<^sup>*\<^sup>* (s, w) (t, w')"
  using assms session_step.frame [OF assms(3), of A H w]
  by (subst Run_loop.simps) (simp add: Let_def)

lemma Run_loop_serve:
  assumes A: "stream_socket A rx tx" and "ss_run s = RunReadFrame"
    and "serve H (\<lambda>h. request_context h s) (all_frames (rx (ss_socket s))) w = (rs, e, w')"
  shows "\<exists>t. Run_loop A H s w = Some (t, w') \<and> (session_step A H)\<^sup>*\<^sup>* (s, w) (t, w') \<and> ss_run t = e \<and>
    ss_strand t = ss_strand s @ map (case_prod SW_Enqueue) rs \<and> pump_part t = pump_part s"
  using assms(2,3)
proof (induction "length (rx (ss_socket s))" arbitrary: s w rs rule: less_induct)
  case less
  let ?ctx = "\<lambda>h. request_context h s"
  show ?case
  proof (cases "case next_frame (rx (ss_socket s)) of None \<Rightarrow> True | Some (f, _) \<Rightarrow> frame_type (fst f) \<noteq> kRequest")
    case True
    then have "rs = []" "e = RunReturned" "w' = w"
      using less.prems(2) by (auto simp: all_frames.simps [of "rx (ss_socket s)"] split: option.splits)
    with Run_frame_end [OF A True, of H w] Run_loop_last less.prems(1) show ?thesis by fastforce
  next
    case False
    then obtain h p rest where n: "next_frame (rx (ss_socket s)) = Some ((h, p), rest)"
      and req: "frame_type h = kRequest" by (auto split: option.splits)
    obtain sock where sock: "rx sock = rest"
      and run: "Run_frame A H s w = Run_request H h p (ss_log (Received h p) (s\<lparr>ss_socket := sock\<rparr>)) w"
      by (rule Run_frame_request [OF A n req])
    define u where "u = ss_log (Received h p) (s\<lparr>ss_socket := sock\<rparr>)"
    have u: "request_context g u = request_context g s" "ss_run u = RunReadFrame"
      "ss_socket u = sock" "ss_strand u = ss_strand s" "pump_part u = pump_part s" for g
      using less.prems(1) by (simp_all add: u_def)
    obtain r w1 where r: "reply_to H (?ctx h) (h, p) w = (r, w1)" by (metis surj_pair)
    have r': "reply_to H (request_context h u) (h, p) w = (r, w1)" using r u(1) by simp
    show ?thesis
    proof (cases r)
      case None
      then have "rs = []" "e = RunThrew" "w' = w1"
        using less.prems(2) n req r by (auto simp: all_frames.simps [of "rx (ss_socket s)"])
      moreover have "Run_frame A H s w = (Run_exit RunThrew u, w1)"
        using Run_request_reply_to(1,2) [OF r'] None run by (simp add: u_def prod_eq_iff)
      ultimately show ?thesis
        using Run_loop_last [of A H s w "Run_exit RunThrew u" w1] less.prems(1) u by simp
    next
      case (Some f)
      obtain rh rp where f: "f = (rh, rp)" by (cases f)
      obtain ctx code where v: "fst (Run_request H h p u w) = Run_reply h p ctx code rp u"
        and rh: "rh = response_header h code rp"
        using Run_request_reply_to(3) [OF r'] Some f by blast
      define v where "v = Run_reply h p ctx code rp u"
      have frame: "Run_frame A H s w = (v, w1)"
        using Run_request_reply_to(1) [OF r'] v run by (simp add: u_def v_def prod_eq_iff)
      obtain rs' where rs: "rs = (rh, rp) # rs'"
        and rest: "serve H ?ctx (all_frames rest) w1 = (rs', e, w')"
        using less.prems(2) n req r Some f
        by (auto simp: all_frames.simps [of "rx (ss_socket s)"] split: prod.splits)
      have "\<exists>t. Run_loop A H v w1 = Some (t, w') \<and> (session_step A H)\<^sup>*\<^sup>* (v, w1) (t, w') \<and> ss_run t = e \<and>
        ss_strand t = ss_strand v @ map (case_prod SW_Enqueue) rs' \<and> pump_part t = pump_part v"
        using rest sock next_frame_shorter [OF n] by (intro less.hyps) (simp_all add: v_def u)
      moreover have "session_step A H (s, w) (v, w1)"
        using session_step.frame [OF less.prems(1), of A H w] frame by simp
      ultimately show ?thesis
        by (subst Run_loop.simps)
          (auto simp: frame v_def u rs rh Let_def intro: converse_rtranclp_into_rtranclp)
    qed
  qed
qed

subsection \<open>A session on a concrete stream\<close>

lemma session_init_new: "session_init (Session_new sock ep header cid oc od oh ic, w)"
  unfolding session_init_def fst_conv by blast

text \<open>
  A handler that echoes the request and counts its calls, one that fails, and a client that calls
  both and then a method nobody registered.
\<close>

definition demo_handlers :: "nat HandlerMap" where
  "demo_handlers =
     [7 \<mapsto> (\<lambda>ctx req resp w. (Some (Status_default, ctx, req), Suc w)),
      8 \<mapsto> (\<lambda>ctx req resp w. (Some (Status_make INVALID_ARGUMENT ''none'', ctx, [1]), Suc w))]"

definition demo_request :: "u32 \<Rightarrow> u32 \<Rightarrow> bytes \<Rightarrow> frame" where
  "demo_request cid mid pl =
     (FrameHeader_default\<lparr>call_id := cid, method_id := mid, payload_size := of_nat (length pl)\<rparr>, pl)"

definition demo_requests :: "frame list" where
  "demo_requests = [demo_request 1 7 [5, 6], demo_request 2 8 [], demo_request 3 9 [4]]"

definition demo_responses :: "frame list" where
  "demo_responses =
     [(response_header (fst (demo_request 1 7 [5, 6])) OK [5, 6], [5, 6]),
      (response_header (fst (demo_request 2 8 [])) INVALID_ARGUMENT [], []),
      (response_header (fst (demo_request 3 9 [4])) UNIMPLEMENTED [], [])]"

definition demo_session :: "(pipe, nat) Session" where
  "demo_session =
     Session_new \<lparr>p_rx = concat (map frame_bytes demo_requests), p_tx = [], p_room = 1000\<rparr>
       (Some (''10.0.0.2'', 4000)) [] 1 True True None False"

lemma demo_requests_wf: "\<forall>f \<in> set demo_requests. wf_frame f"
  by (simp add: demo_requests_def demo_request_def wf_frame_def)

lemma demo_frames: "all_frames (p_rx (ss_socket (Run_start demo_session))) = demo_requests"
  using all_frames_concat [OF demo_requests_wf]
  by (simp add: demo_session_def Run_start_def Session_new_def ss_log_def)

lemma demo_serve: "serve demo_handlers ctx demo_requests w = (demo_responses, RunReturned, w + 2)"
  by (simp add: demo_requests_def demo_responses_def demo_request_def demo_handlers_def reply_to_def
      FrameHeader_default_def)

lemma demo_started: "session_reach pipe_asio demo_handlers (Run_start demo_session, w)"
proof -
  have "session_reach pipe_asio demo_handlers (demo_session, w)"
    by (rule reachable.start) (simp add: demo_session_def session_init_new)
  then show ?thesis
    by (rule reachable.step) (simp add: session_step.run_start demo_session_def Session_new_def)
qed

lemma demo_serve_stream:
  "serve demo_handlers (\<lambda>h. request_context h (Run_start demo_session))
     (all_frames (p_rx (ss_socket (Run_start demo_session)))) 0 = (demo_responses, RunReturned, 2)"
  unfolding demo_frames demo_serve by simp

lemma demo_start:
  "ss_run (Run_start demo_session) = RunReadFrame" "ss_strand (Run_start demo_session) = []"
  "squeued (ss_events (Run_start demo_session)) = []"
  by (simp_all add: Run_start_def demo_session_def Session_new_def ss_log_def)

lemma demo_served:
  obtains t where "session_reach pipe_asio demo_handlers (t, 2)" and "replies t = demo_responses"
proof -
  from Run_loop_serve [OF pipe_stream_socket demo_start(1) demo_serve_stream]
  obtain t where star: "(session_step pipe_asio demo_handlers)\<^sup>*\<^sup>* (Run_start demo_session, 0) (t, 2)"
    and strand: "ss_strand t = ss_strand (Run_start demo_session) @ map (case_prod SW_Enqueue) demo_responses"
    and part: "pump_part t = pump_part (Run_start demo_session)" by blast
  have "squeued (ss_events t) = []" using part demo_start(3) by (simp add: pump_part_def)
  then have "replies t = demo_responses"
    using strand by (simp add: demo_start(2) replies_def demo_responses_def response_header_def)
  with reachable_star [OF star demo_started] show ?thesis by (rule that)
qed

subsection \<open>Properties\<close>

text \<open>
  C3. The server answers every request exactly once and in order: in every reachable state of a
  session the responses handed to the writer are, one by one, answers to the requests received, with
  the request's call id and method id, the size of their payload, and no payload next to an error;
  only a request whose handler threw has none. What was written of them is a subsequence of what
  was queued.
\<close>

theorem session_replies:
  assumes "session_reach A H (s, w)"
  shows "list_all2 answers (answered s) (replies s) \<and>
    subseq (swritten (ss_events s) @ in_pump (ss_pump s) @ ss_write_queue s) (squeued (ss_events s)) \<and>
    (ss_write_queue s \<noteq> [] \<longrightarrow> ss_pump s \<noteq> PumpNone)"
  using si.invar_reachable [OF assms]
  by (auto simp: session_inv_def reply_inv_def spump_inv_def pump_ok_def)

theorem session_replies_witness:
  "\<exists>t. session_reach pipe_asio demo_handlers (t, 2) \<and> replies t = demo_responses \<and>
     length (answered t) = 3"
proof -
  obtain t where t: "session_reach pipe_asio demo_handlers (t, 2)" "replies t = demo_responses"
    by (rule demo_served)
  have "length (answered t) = length demo_responses"
    using session_replies [OF t(1)] t(2) list_all2_lengthD by metis
  with t show ?thesis by (intro exI [of _ t]) (simp add: demo_responses_def)
qed

text \<open>
  C14. The life of a connection: \<open>on_connect\<close> is called once, when \<open>Run\<close> starts, and \<open>on_disconnect\<close>
  once, when it ends, on every path; and no request is served before the peer has sent the expected
  handshake header and \<open>on_handshake\<close>, if there is one, has accepted it.
\<close>

theorem session_lifecycle:
  assumes "session_reach A H (s, w)"
  shows "count_list (ss_events s) OnConnect = (if ss_on_connect s \<and> ss_run s \<noteq> RunSpawned then 1 else 0) \<and>
    count_list (ss_events s) OnDisconnect =
      (if ss_on_disconnect s \<and> ss_run s \<in> {RunReturned, RunThrew} then 1 else 0) \<and>
    (requests (ss_events s) \<noteq> [] \<longrightarrow> handshake_done s)"
  using si.invar_reachable [OF assms] by (simp add: session_inv_def life_inv_def)

definition demo_guarded :: "(pipe, nat) Session" where
  "demo_guarded =
     Session_new \<lparr>p_rx = [112, 99] @ frame_bytes (demo_request 1 7 [5]), p_tx = [], p_room = 1000\<rparr>
       None [112, 99] 1 True True (Some (\<lambda>peer b w. (True, w))) False"

lemma demo_guarded_reach:
  "session_reach pipe_asio demo_handlers (Run_handshake_wrote pipe_asio
     (fst (Run_handshake_read pipe_asio (Run_start demo_guarded) 0)), 0)"
proof -
  have "session_reach pipe_asio demo_handlers (demo_guarded, 0)"
    by (rule reachable.start) (simp add: demo_guarded_def session_init_new)
  then have "session_reach pipe_asio demo_handlers (Run_start demo_guarded, 0)"
    by (rule reachable.step) (simp add: session_step.run_start demo_guarded_def Session_new_def)
  moreover have "ss_run (Run_start demo_guarded) = RunReadHandshake"
    by (simp add: Run_start_def demo_guarded_def Session_new_def ss_log_def)
  ultimately have "session_reach pipe_asio demo_handlers (Run_handshake_read pipe_asio (Run_start demo_guarded) 0)"
    by (metis reachable.step session_step.handshake_read)
  moreover have "ss_run (fst (Run_handshake_read pipe_asio (Run_start demo_guarded) 0)) = RunWriteHandshake"
    "snd (Run_handshake_read pipe_asio (Run_start demo_guarded) 0) = 0"
    by (simp_all add: Run_handshake_read_def Run_start_def demo_guarded_def Session_new_def ss_log_def
        Async_ReadHandshakeRaw_def pipe_asio_def)
  ultimately show ?thesis
    by (metis prod.collapse reachable.step session_step.handshake_wrote)
qed

definition demo_ready :: "(pipe, nat) Session" where
  "demo_ready = Run_handshake_wrote pipe_asio (fst (Run_handshake_read pipe_asio (Run_start demo_guarded) 0))"

lemma demo_ready:
  "ss_run demo_ready = RunReadFrame" "ss_on_connect demo_ready" "requests (ss_events demo_ready) = []"
  "p_rx (ss_socket demo_ready) = frame_bytes (demo_request 1 7 [5]) @ []"
  by (simp_all add: demo_ready_def Run_handshake_wrote_def Run_handshake_read_def Run_start_def demo_guarded_def
      Session_new_def ss_log_def Async_ReadHandshakeRaw_def Async_WriteHandshake_def pipe_asio_def)

lemma demo_ready_next:
  "next_frame (p_rx (ss_socket demo_ready)) = Some ((fst (demo_request 1 7 [5]), [5]), [])"
  unfolding demo_ready(4) by (subst next_frame_bytes) (simp_all add: wf_frame_def demo_request_def)

lemma demo_request_type: "frame_type (fst (demo_request cid mid p)) = kRequest"
  by (simp add: demo_request_def FrameHeader_default_def)

lemma demo_ready_frame:
  "\<exists>t w. Run_frame pipe_asio demo_handlers demo_ready 0 = (t, w) \<and> ss_run t = RunReadFrame \<and>
     ss_on_connect t \<and> requests (ss_events t) = [demo_request 1 7 [5]]"
proof -
  obtain sock where r: "Run_frame pipe_asio demo_handlers demo_ready 0 =
      Run_request demo_handlers (fst (demo_request 1 7 [5])) [5]
        (ss_log (Received (fst (demo_request 1 7 [5])) [5]) (demo_ready\<lparr>ss_socket := sock\<rparr>)) 0"
    by (rule Run_frame_request [OF pipe_stream_socket demo_ready_next demo_request_type])
  have "demo_handlers (method_id (fst (demo_request 1 7 [5]))) =
      Some (\<lambda>ctx req resp w. (Some (Status_default, ctx, req), Suc w))"
    by (simp add: demo_handlers_def demo_request_def)
  with r show ?thesis
    using demo_ready by (simp add: Run_request_def Run_reply_def Session_EnqueueWrite_def ss_log_def demo_request_def)
qed

theorem session_lifecycle_witness:
  "\<exists>t w. session_reach pipe_asio demo_handlers (t, w) \<and> requests (ss_events t) = [demo_request 1 7 [5]] \<and>
     handshake_done t \<and> count_list (ss_events t) OnConnect = 1 \<and> count_list (ss_events t) OnDisconnect = 0"
proof -
  from demo_ready_frame obtain t w where t: "Run_frame pipe_asio demo_handlers demo_ready 0 = (t, w)"
    "ss_run t = RunReadFrame" "ss_on_connect t" "requests (ss_events t) = [demo_request 1 7 [5]]" by blast
  have reach: "session_reach pipe_asio demo_handlers (t, w)"
    using reachable.step [OF demo_guarded_reach session_step.frame] demo_ready(1) t(1)
    by (simp add: demo_ready_def)
  from session_lifecycle [OF this] t reach show ?thesis by (intro exI [of _ t] exI [of _ w]) simp
qed

text \<open>
  C10. The request loop refines its specification and ends: on any stream socket, with the requests
  of the stream read one by one, \<open>Run\<close> comes to an end, posts to its strand exactly the responses that
  \<open>serve\<close> gives for the frames of the stream, leaves the world \<open>serve\<close> leaves, and ends with a
  return or an exception as \<open>serve\<close> does; each round is a step of the session.
\<close>

theorem session_run_refines:
  assumes "stream_socket A rx tx" and "ss_run s = RunReadFrame"
    and "serve H (\<lambda>h. request_context h s) (all_frames (rx (ss_socket s))) w = (rs, e, w')"
  shows "\<exists>t. Run_loop A H s w = Some (t, w') \<and> (session_step A H)\<^sup>*\<^sup>* (s, w) (t, w') \<and> ss_run t = e \<and>
    ss_strand t = ss_strand s @ map (case_prod SW_Enqueue) rs"
  using Run_loop_serve [OF assms] by blast

theorem session_run_refines_witness:
  "\<exists>t. Run_loop pipe_asio demo_handlers (Run_start demo_session) 0 = Some (t, 2) \<and>
     ss_run t = RunReturned \<and> ss_strand t = map (case_prod SW_Enqueue) demo_responses"
proof -
  from session_run_refines [OF pipe_stream_socket demo_start(1) demo_serve_stream] obtain t where
    "Run_loop pipe_asio demo_handlers (Run_start demo_session) 0 = Some (t, 2)" "ss_run t = RunReturned"
    "ss_strand t = ss_strand (Run_start demo_session) @ map (case_prod SW_Enqueue) demo_responses" by blast
  then show ?thesis by (intro exI [of _ t]) (simp add: demo_start(2))
qed

end
