(* ===== verification/Server.thy ===== *)
theory Server
  imports Session
begin

text \<open>
  \<open>src/server.cc\<close>, \<open>src/server_impl.h\<close> and \<open>src/server_builder.cc\<close>: the server and its builder.

  A session is an object that the map \<open>sessions\<close>, its coroutines and the application share, so the
  model keeps all sessions ever made in a list, and the map holds positions in it. The iteration
  order of \<open>std::unordered_map\<close> is not specified; the map is a list of pairs and no statement depends
  on its order. Binding and accepting belong to Boost.Asio: their outcomes are arguments. The
  lambda coroutine \<open>wrapped\<close> is taken to keep its captures. Functions that join the io threads are
  called from other threads.
\<close>

subsection \<open>State\<close>

datatype accept_pc = AcceptNone | AcceptSpawned | AcceptWaiting | AcceptEnded

record ('s, 'w) Server =
  sv_bind_address :: string
  sv_bind_port :: u16
  sv_handshake_header :: bytes
  sv_io_thread_count :: int
  sv_handlers :: "'w HandlerMap"
  sv_on_connect :: bool
  sv_on_disconnect :: bool
  sv_on_handshake :: "'w OnHandshakeCb option"
  sv_interceptor :: bool
  sv_sessions :: "(u64 \<times> nat) list"
  sv_next_connection_id :: u64
  sv_threads :: "bool list" \<comment> \<open>whether each thread is joinable\<close>
  sv_running :: bool
  sv_work_guard :: bool
  sv_io_stopped :: bool
  sv_accept :: accept_pc
  sv_objs :: "('s, 'w) Session list"
  sv_world :: 'w

definition Server_new :: "'w \<Rightarrow> ('s, 'w) Server" where
  "Server_new w =
     \<lparr>sv_bind_address = '''', sv_bind_port = 0, sv_handshake_header = [], sv_io_thread_count = 1,
      sv_handlers = Map.empty, sv_on_connect = False, sv_on_disconnect = False,
      sv_on_handshake = None, sv_interceptor = False, sv_sessions = [], sv_next_connection_id = 1,
      sv_threads = [], sv_running = False, sv_work_guard = True, sv_io_stopped = False,
      sv_accept = AcceptNone, sv_objs = [], sv_world = w\<rparr>"

subsection \<open>Server\<close>

definition RegisterMethod :: "u32 \<Rightarrow> 'w MethodHandler \<Rightarrow> ('s, 'w) Server \<Rightarrow> ('s, 'w) Server" where
  "RegisterMethod mid h s = s\<lparr>sv_handlers := (sv_handlers s)(mid \<mapsto> h)\<rparr>"

definition Server_SetOnConnect :: "bool \<Rightarrow> ('s, 'w) Server \<Rightarrow> ('s, 'w) Server" where
  "Server_SetOnConnect cb s = s\<lparr>sv_on_connect := cb\<rparr>"

definition Server_SetOnDisconnect :: "bool \<Rightarrow> ('s, 'w) Server \<Rightarrow> ('s, 'w) Server" where
  "Server_SetOnDisconnect cb s = s\<lparr>sv_on_disconnect := cb\<rparr>"

definition Server_SetOnHandshake :: "'w OnHandshakeCb option \<Rightarrow> ('s, 'w) Server \<Rightarrow> ('s, 'w) Server" where
  "Server_SetOnHandshake cb s = s\<lparr>sv_on_handshake := cb\<rparr>"

definition Server_SetInterceptor :: "bool \<Rightarrow> ('s, 'w) Server \<Rightarrow> ('s, 'w) Server" where
  "Server_SetInterceptor cb s = s\<lparr>sv_interceptor := cb\<rparr>"

text \<open>The positions of the sessions in the map.\<close>

definition GetConnections :: "('s, 'w) Server \<Rightarrow> nat list" where
  "GetConnections s = fold (\<lambda>(cid, i) result. result @ [i]) (sv_sessions s) []"

definition send_to :: "u32 \<Rightarrow> bytes \<Rightarrow> nat \<Rightarrow> ('s, 'w) Server \<Rightarrow> ('s, 'w) Server" where
  "send_to mid pl i s = s\<lparr>sv_objs := (sv_objs s)[i := Session_Send mid pl (sv_objs s ! i)]\<rparr>"

definition Broadcast :: "u32 \<Rightarrow> bytes \<Rightarrow> ('s, 'w) Server \<Rightarrow> ('s, 'w) Server" where
  "Broadcast mid pl s =
     (let snapshot = fold (\<lambda>(cid, i) snapshot. snapshot @ [i]) (sv_sessions s) []
      in fold (send_to mid pl) snapshot s)"

text \<open>Joining a thread returns once \<open>io_context.run\<close> has, that is after \<open>stop\<close>; no value: it blocks.\<close>

definition Wait :: "('s, 'w) Server \<Rightarrow> ('s, 'w) Server option" where
  "Wait s =
     (if sv_io_stopped s \<or> \<not> list_ex id (sv_threads s)
      then Some (s\<lparr>sv_threads := map (\<lambda>_. False) (sv_threads s)\<rparr>) else None)"

definition Server_Shutdown :: "('s, 'w) Server \<Rightarrow> ('s, 'w) Server" where
  "Server_Shutdown s =
     (if \<not> sv_running s then s
      else s\<lparr>sv_running := False, sv_work_guard := False, sv_io_stopped := True, sv_threads := []\<rparr>)"

subsection \<open>Impl\<close>

text \<open>\<open>sessions[conn_id] = session\<close> and \<open>sessions.erase(conn_id)\<close>.\<close>

definition sessions_put :: "u64 \<Rightarrow> nat \<Rightarrow> (u64 \<times> nat) list \<Rightarrow> (u64 \<times> nat) list" where
  "sessions_put cid i xs =
     (if cid \<in> fst ` set xs then map (\<lambda>(c, j). if c = cid then (c, i) else (c, j)) xs
      else xs @ [(cid, i)])"

definition sessions_erase :: "u64 \<Rightarrow> (u64 \<times> nat) list \<Rightarrow> (u64 \<times> nat) list" where
  "sessions_erase cid xs = filter (\<lambda>(c, j). c \<noteq> cid) xs"

text \<open>Before the loop: the acceptor is bound, or an exception ends the coroutine.\<close>

definition AcceptLoop_start :: "bool \<Rightarrow> ('s, 'w) Server \<Rightarrow> ('s, 'w) Server" where
  "AcceptLoop_start bound s = s\<lparr>sv_accept := (if bound then AcceptWaiting else AcceptEnded)\<rparr>"

text \<open>A round of the loop; \<open>async_accept\<close> throws, or gives a socket with its remote endpoint.\<close>

definition AcceptLoop_accepted ::
  "('s \<times> (string \<times> u16) option) option \<Rightarrow> ('s, 'w) Server \<Rightarrow> ('s, 'w) Server" where
  "AcceptLoop_accepted r s =
     (case r of
        None \<Rightarrow> s\<lparr>sv_accept := AcceptEnded\<rparr>
      | Some (sock, ep) \<Rightarrow>
          (let conn_id = sv_next_connection_id s;
               s = s\<lparr>sv_next_connection_id := conn_id + 1\<rparr>;
               session = Session_new sock ep (sv_handshake_header s) conn_id (sv_on_connect s)
                 (sv_on_disconnect s) (sv_on_handshake s) (sv_interceptor s)
           in s\<lparr>sv_objs := sv_objs s @ [session],
                sv_sessions := sessions_put conn_id (length (sv_objs s)) (sv_sessions s)\<rparr>))"

text \<open>What \<open>wrapped\<close> does when \<open>Run\<close> has returned; an exception from \<open>Run\<close> skips it.\<close>

definition wrapped_erase :: "nat \<Rightarrow> ('s, 'w) Server \<Rightarrow> ('s, 'w) Server" where
  "wrapped_erase i s =
     s\<lparr>sv_sessions := sessions_erase (ss_connection_id (sv_objs s ! i)) (sv_sessions s)\<rparr>"

definition Start :: "('s, 'w) Server \<Rightarrow> Status \<times> ('s, 'w) Server" where
  "Start s =
     (Status_default,
      s\<lparr>sv_running := True, sv_accept := AcceptSpawned,
        sv_threads := sv_threads s @ replicate (nat (sv_io_thread_count s)) True\<rparr>)"

subsection \<open>ServerBuilder\<close>

text \<open>A service is what its \<open>RegisterWith\<close> does to a server.\<close>

record ('s, 'w) Config =
  cf_address :: string
  cf_port :: u16
  cf_handshake_header :: bytes
  cf_services :: "(('s, 'w) Server \<Rightarrow> ('s, 'w) Server) list"
  cf_io_thread_count :: int
  cf_on_connect :: bool
  cf_on_disconnect :: bool
  cf_on_handshake :: "'w OnHandshakeCb option"
  cf_interceptor :: bool

definition ServerBuilder_new :: "('s, 'w) Config" where
  "ServerBuilder_new =
     \<lparr>cf_address = ''0.0.0.0'', cf_port = 0, cf_handshake_header = bytes_of_string ''pc1'',
      cf_services = [], cf_io_thread_count = 1, cf_on_connect = False, cf_on_disconnect = False,
      cf_on_handshake = None, cf_interceptor = False\<rparr>"

definition AddListeningPort :: "string \<Rightarrow> u16 \<Rightarrow> ('s, 'w) Config \<Rightarrow> ('s, 'w) Config" where
  "AddListeningPort address port c = c\<lparr>cf_address := address, cf_port := port\<rparr>"

definition SetHandshakeHeader :: "bytes \<Rightarrow> ('s, 'w) Config \<Rightarrow> ('s, 'w) Config" where
  "SetHandshakeHeader header c = c\<lparr>cf_handshake_header := header\<rparr>"

definition RegisterService ::
  "(('s, 'w) Server \<Rightarrow> ('s, 'w) Server) \<Rightarrow> ('s, 'w) Config \<Rightarrow> ('s, 'w) Config" where
  "RegisterService service c = c\<lparr>cf_services := cf_services c @ [service]\<rparr>"

definition SetIoThreadCount :: "int \<Rightarrow> ('s, 'w) Config \<Rightarrow> ('s, 'w) Config" where
  "SetIoThreadCount count c = c\<lparr>cf_io_thread_count := count\<rparr>"

definition Builder_SetOnConnect :: "bool \<Rightarrow> ('s, 'w) Config \<Rightarrow> ('s, 'w) Config" where
  "Builder_SetOnConnect cb c = c\<lparr>cf_on_connect := cb\<rparr>"

definition Builder_SetOnDisconnect :: "bool \<Rightarrow> ('s, 'w) Config \<Rightarrow> ('s, 'w) Config" where
  "Builder_SetOnDisconnect cb c = c\<lparr>cf_on_disconnect := cb\<rparr>"

definition Builder_SetOnHandshake :: "'w OnHandshakeCb option \<Rightarrow> ('s, 'w) Config \<Rightarrow> ('s, 'w) Config" where
  "Builder_SetOnHandshake cb c = c\<lparr>cf_on_handshake := cb\<rparr>"

definition Builder_SetInterceptor :: "bool \<Rightarrow> ('s, 'w) Config \<Rightarrow> ('s, 'w) Config" where
  "Builder_SetInterceptor cb c = c\<lparr>cf_interceptor := cb\<rparr>"

text \<open>The callbacks are moved out of the builder; what is left there is not modelled.\<close>

definition BuildAndStart :: "('s, 'w) Config \<Rightarrow> 'w \<Rightarrow> ('s, 'w) Server" where
  "BuildAndStart c w =
     (let s = Server_new w;
          s = s\<lparr>sv_bind_address := cf_address c, sv_bind_port := cf_port c,
                sv_handshake_header := cf_handshake_header c,
                sv_io_thread_count := cf_io_thread_count c\<rparr>;
          s = (if cf_on_connect c then Server_SetOnConnect (cf_on_connect c) s else s);
          s = (if cf_on_disconnect c then Server_SetOnDisconnect (cf_on_disconnect c) s else s);
          s = (if cf_on_handshake c \<noteq> None then Server_SetOnHandshake (cf_on_handshake c) s else s);
          s = (if cf_interceptor c then Server_SetInterceptor (cf_interceptor c) s else s);
          s = fold (\<lambda>service s. service s) (cf_services c) s
      in snd (Start s))"

subsection \<open>Steps\<close>

text \<open>
  A thread runs the io context: the accept loop and the coroutines and tasks of every session go
  on. The application calls the server, its sessions and, between the calls, changes the world.
\<close>

definition io_runs :: "('s, 'w) Server \<Rightarrow> bool" where
  "io_runs s \<longleftrightarrow> \<not> sv_io_stopped s \<and> sv_threads s \<noteq> []"

inductive server_step :: "'s asio \<Rightarrow> ('s, 'w) Server \<Rightarrow> ('s, 'w) Server \<Rightarrow> bool"
  for A :: "'s asio" where
  bind: "io_runs s \<Longrightarrow> sv_accept s = AcceptSpawned \<Longrightarrow> server_step A s (AcceptLoop_start bound s)"
| accept: "io_runs s \<Longrightarrow> sv_accept s = AcceptWaiting \<Longrightarrow> server_step A s (AcceptLoop_accepted r s)"
| session: "io_runs s \<Longrightarrow> i < length (sv_objs s) \<Longrightarrow>
    session_step A (sv_handlers s) (sv_objs s ! i, sv_world s) (t, w) \<Longrightarrow>
    server_step A s (s\<lparr>sv_objs := (sv_objs s)[i := t], sv_world := w\<rparr>)"
| erase: "io_runs s \<Longrightarrow> i < length (sv_objs s) \<Longrightarrow> ss_run (sv_objs s ! i) = RunReturned \<Longrightarrow>
    server_step A s (wrapped_erase i s)"
| register: "server_step A s (RegisterMethod mid h s)"
| set_on_connect: "server_step A s (Server_SetOnConnect b s)"
| set_on_disconnect: "server_step A s (Server_SetOnDisconnect b s)"
| set_on_handshake: "server_step A s (Server_SetOnHandshake oh s)"
| set_interceptor: "server_step A s (Server_SetInterceptor b s)"
| peer_send: "i < length (sv_objs s) \<Longrightarrow> server_step A s (send_to mid pl i s)"
| peer_close: "i < length (sv_objs s) \<Longrightarrow>
    server_step A s (s\<lparr>sv_objs := (sv_objs s)[i := Session_Close (sv_objs s ! i)]\<rparr>)"
| broadcast: "server_step A s (Broadcast mid pl s)"
| wait: "Wait s = Some t \<Longrightarrow> server_step A s t"
| shutdown: "server_step A s (Server_Shutdown s)"
| world: "server_step A s (s\<lparr>sv_world := w\<rparr>)"

text \<open>
  A server comes from its builder. The \<open>RegisterWith\<close> that is emitted for a service registers its
  methods one after the other.
\<close>

definition register_all :: "(u32 \<times> 'w MethodHandler) list \<Rightarrow> ('s, 'w) Server \<Rightarrow> ('s, 'w) Server" where
  "register_all ms s = fold (\<lambda>(mid, h). RegisterMethod mid h) ms s"

definition server_init :: "('s, 'w) Server \<Rightarrow> bool" where
  "server_init s \<longleftrightarrow> (\<exists>c mss w. cf_services c = map register_all mss \<and> s = BuildAndStart c w)"

abbreviation server_reach :: "'s asio \<Rightarrow> ('s, 'w) Server \<Rightarrow> bool" where
  "server_reach A \<equiv> reachable server_init (server_step A)"

subsection \<open>What a step keeps of a session\<close>

lemma session_fields_log [simp]:
  "ss_connection_id (ss_log e s) = ss_connection_id s"
  by (simp add: ss_log_def)

lemma connection_id_ops [simp]:
  "ss_connection_id (Run_exit pc s) = ss_connection_id s"
  "ss_connection_id (Run_start s) = ss_connection_id s"
  "ss_connection_id (fst (Run_handshake_read A s w)) = ss_connection_id s"
  "ss_connection_id (Run_handshake_wrote A s) = ss_connection_id s"
  "ss_connection_id (Run_reply h req ctx code resp s) = ss_connection_id s"
  "ss_connection_id (fst (Run_request H h req s w)) = ss_connection_id s"
  "ss_connection_id (fst (Run_frame A H s w)) = ss_connection_id s"
  "ss_connection_id (session_run_task A t s) = ss_connection_id s"
  "ss_connection_id (Session_WritePump_loop s) = ss_connection_id s"
  "ss_connection_id (Session_WritePump_wrote A h p s) = ss_connection_id s"
  "ss_connection_id (Session_Send mid pl s) = ss_connection_id s"
  "ss_connection_id (Session_Close s) = ss_connection_id s"
  subgoal by (simp add: Run_exit_def Let_def)
  subgoal by (simp add: Run_start_def Let_def)
  subgoal by (simp add: Run_handshake_read_def Run_exit_def Let_def case_prod_unfold split: option.split)
  subgoal by (simp add: Run_handshake_wrote_def Run_exit_def Let_def case_prod_unfold)
  subgoal by (simp add: Run_reply_def Session_EnqueueWrite_def Let_def)
  subgoal by (simp add: Run_request_def Run_exit_def Run_reply_def Session_EnqueueWrite_def Let_def split: option.split prod.split)
  subgoal by (simp add: Run_frame_def Run_request_def Run_exit_def Run_reply_def Session_EnqueueWrite_def Let_def
      case_prod_unfold split: option.split)
  subgoal by (cases t) (simp_all add: EnqueueWrite_task_def Let_def)
  subgoal by (simp add: Session_WritePump_loop_def split: list.split)
  subgoal by (simp add: Session_WritePump_wrote_def Session_WritePump_loop_def Let_def case_prod_unfold split: list.split)
  subgoal by (simp add: Session_Send_def Session_EnqueueWrite_def Let_def)
  subgoal by (simp add: Session_Close_def)
  done

lemma run_other_ops [simp]:
  "ss_run (session_run_task A t s) = ss_run s" "ss_run (Session_WritePump_loop s) = ss_run s"
  "ss_run (Session_WritePump_wrote A h p s) = ss_run s" "ss_run (Session_Send mid pl s) = ss_run s"
  "ss_run (Session_Close s) = ss_run s"
  subgoal by (cases t) (simp_all add: EnqueueWrite_task_def Let_def)
  subgoal by (simp add: Session_WritePump_loop_def split: list.split)
  subgoal by (simp add: Session_WritePump_wrote_def Session_WritePump_loop_def Let_def case_prod_unfold split: list.split)
  subgoal by (simp add: Session_Send_def Session_EnqueueWrite_def Let_def)
  subgoal by (simp add: Session_Close_def)
  done

lemma session_step_keeps:
  assumes "session_step A H x y"
  shows "ss_connection_id (fst y) = ss_connection_id (fst x)"
    and "ss_run (fst x) = RunReturned \<Longrightarrow> ss_run (fst y) = RunReturned"
  using assms by (cases rule: session_step.cases; simp)+

subsection \<open>The invariant\<close>

definition id_of :: "nat \<Rightarrow> u64" where
  "id_of i = of_nat (Suc i)"

definition server_inv :: "('s, 'w) Server \<Rightarrow> bool" where
  "server_inv s \<longleftrightarrow>
     (\<forall>i < length (sv_objs s). ss_connection_id (sv_objs s ! i) = id_of i \<and> session_inv (sv_objs s ! i)) \<and>
     sv_next_connection_id s = id_of (length (sv_objs s)) \<and>
     (\<forall>(c, i) \<in> set (sv_sessions s). i < length (sv_objs s) \<and> c = id_of i) \<and>
     distinct (map fst (sv_sessions s)) \<and>
     (length (sv_objs s) < 2 ^ 64 \<longrightarrow>
        (\<forall>i < length (sv_objs s). ss_run (sv_objs s ! i) \<noteq> RunReturned \<longrightarrow> (id_of i, i) \<in> set (sv_sessions s)))"

lemma unat_id_of: "i < 2 ^ 64 - 1 \<Longrightarrow> unat (id_of i) = Suc i"
  unfolding id_of_def unat_of_nat by simp

lemma id_of_inj: "i < 2 ^ 64 - 1 \<Longrightarrow> j < 2 ^ 64 - 1 \<Longrightarrow> id_of i = id_of j \<longleftrightarrow> i = j"
  by (metis nat.inject unat_id_of)

lemma id_of_Suc: "id_of (Suc i) = id_of i + 1"
  by (simp add: id_of_def)

text \<open>A step that replaces one session by a later state of it.\<close>

lemma server_inv_update:
  assumes "server_inv s" and "i < length (sv_objs s)" and "sv_objs u = (sv_objs s)[i := t]"
    and "ss_connection_id t = ss_connection_id (sv_objs s ! i)" and "session_inv t"
    and "ss_run (sv_objs s ! i) = RunReturned \<Longrightarrow> ss_run t = RunReturned"
    and "sv_sessions u = sv_sessions s" "sv_next_connection_id u = sv_next_connection_id s"
  shows "server_inv u"
  using assms unfolding server_inv_def by (auto simp: nth_list_update)

lemma server_inv_cong:
  assumes "server_inv s" and "sv_objs u = sv_objs s" and "sv_sessions u = sv_sessions s"
    and "sv_next_connection_id u = sv_next_connection_id s"
  shows "server_inv u"
  using assms by (simp add: server_inv_def)

lemma session_inv_send: "session_inv s \<Longrightarrow> session_inv (Session_Send mid pl s)"
  using session_inv_step [OF session_step.send [of A H s w mid pl]] by simp

lemma session_inv_close: "session_inv s \<Longrightarrow> session_inv (Session_Close s)"
  using session_inv_step [OF session_step.close [of A H s w]] by simp

lemma server_inv_send:
  assumes "server_inv s" and "i < length (sv_objs s)"
  shows "server_inv (send_to mid pl i s)"
  by (rule server_inv_update [OF assms, of _ "Session_Send mid pl (sv_objs s ! i)"])
    (use assms in \<open>simp_all add: send_to_def server_inv_def session_inv_send\<close>)

lemma send_to_fields [simp]:
  "length (sv_objs (send_to mid pl i s)) = length (sv_objs s)"
  "sv_sessions (send_to mid pl i s) = sv_sessions s"
  by (simp_all add: send_to_def)

lemma server_inv_sends:
  "server_inv s \<Longrightarrow> \<forall>i \<in> set is. i < length (sv_objs s) \<Longrightarrow> server_inv (fold (send_to mid pl) is s)"
  by (induction "is" arbitrary: s) (auto simp: server_inv_send)

lemma fold_snoc: "fold (\<lambda>(c, i) r. r @ [i]) xs r = r @ map snd xs"
  by (induction xs arbitrary: r) auto

lemma GetConnections_eq: "GetConnections s = map snd (sv_sessions s)"
  by (simp add: GetConnections_def fold_snoc)

lemma Broadcast_eq: "Broadcast mid pl s = fold (send_to mid pl) (GetConnections s) s"
  by (simp add: Broadcast_def GetConnections_def)

lemma server_inv_connections:
  "server_inv s \<Longrightarrow> i \<in> set (GetConnections s) \<Longrightarrow> i < length (sv_objs s)"
  by (auto simp: GetConnections_eq server_inv_def)

lemma sessions_put_ids: "map fst (sessions_put cid i xs) =
  (if cid \<in> fst ` set xs then map fst xs else map fst xs @ [cid])"
  by (auto simp: sessions_put_def)

lemma sessions_put_cases: "x \<in> set (sessions_put cid i xs) \<Longrightarrow> x = (cid, i) \<or> x \<in> set xs"
  by (auto simp: sessions_put_def split: if_splits)

lemma server_inv_accept:
  assumes "server_inv s"
  shows "server_inv (AcceptLoop_accepted (Some (sock, ep)) s)"
proof -
  let ?n = "length (sv_objs s)"
  define session :: "('a, 'b) Session" where
    "session = Session_new sock ep (sv_handshake_header s) (sv_next_connection_id s) (sv_on_connect s)
       (sv_on_disconnect s) (sv_on_handshake s) (sv_interceptor s)"
  have new: "ss_connection_id session = id_of ?n" "session_inv session"
    using assms by (simp_all add: session_def session_inv_new) (simp add: server_inv_def Session_new_def)
  have next_id: "sv_next_connection_id s = id_of ?n" using assms by (simp add: server_inv_def)
  have fresh: "id_of ?n \<notin> fst ` set (sv_sessions s)" if "Suc ?n < 2 ^ 64"
  proof
    assume "id_of ?n \<in> fst ` set (sv_sessions s)"
    then obtain i where "i < ?n" "id_of ?n = id_of i" using assms by (auto simp: server_inv_def)
    with id_of_inj [of ?n i] that show False by linarith
  qed
  have put: "i < Suc ?n \<and> c = id_of i" if "(c, i) \<in> set (sessions_put (id_of ?n) ?n (sv_sessions s))" for c i
    using sessions_put_cases [OF that] assms by (auto simp: server_inv_def)
  have dist: "distinct (map fst (sessions_put (id_of ?n) ?n (sv_sessions s)))"
    using assms by (simp add: server_inv_def sessions_put_ids)
  have keep: "x \<in> set (sessions_put (id_of ?n) ?n (sv_sessions s))"
    if "Suc ?n < 2 ^ 64" "x \<in> insert (id_of ?n, ?n) (set (sv_sessions s))" for x
    using that fresh by (simp add: sessions_put_def)
  define u where "u = AcceptLoop_accepted (Some (sock, ep)) s"
  have u: "sv_objs u = sv_objs s @ [session]" "sv_sessions u = sessions_put (id_of ?n) ?n (sv_sessions s)"
    "sv_next_connection_id u = id_of (Suc ?n)"
    by (simp_all add: u_def AcceptLoop_accepted_def Let_def session_def next_id id_of_Suc)
  have "\<forall>i < length (sv_objs u). ss_connection_id (sv_objs u ! i) = id_of i \<and> session_inv (sv_objs u ! i)"
    using assms new by (simp add: u server_inv_def nth_append less_Suc_eq)
  moreover have "\<forall>i < length (sv_objs u). ss_run (sv_objs u ! i) \<noteq> RunReturned \<longrightarrow> (id_of i, i) \<in> set (sv_sessions u)"
    if "length (sv_objs u) < 2 ^ 64"
    using assms keep that by (auto simp: u server_inv_def nth_append less_Suc_eq)
  ultimately have "server_inv u"
    unfolding server_inv_def using put dist by (auto simp: u)
  then show ?thesis by (simp add: u_def)
qed

lemma server_inv_erase:
  assumes "server_inv s" and "i < length (sv_objs s)" and "ss_run (sv_objs s ! i) = RunReturned"
  shows "server_inv (wrapped_erase i s)"
proof -
  have cid: "ss_connection_id (sv_objs s ! i) = id_of i" using assms by (simp add: server_inv_def)
  have "(id_of j, j) \<in> set (sessions_erase (id_of i) (sv_sessions s))"
    if "length (sv_objs s) < 2 ^ 64" "j < length (sv_objs s)" "ss_run (sv_objs s ! j) \<noteq> RunReturned" for j
  proof -
    have "id_of j \<noteq> id_of i" using id_of_inj [of j i] that assms by fastforce
    with assms that show ?thesis by (simp add: server_inv_def sessions_erase_def)
  qed
  with assms show ?thesis
    by (auto simp: server_inv_def wrapped_erase_def cid sessions_erase_def distinct_map_filter)
qed

lemma server_inv_step:
  assumes "server_step A s t" and "server_inv s"
  shows "server_inv t"
  using assms
proof (cases rule: server_step.cases)
  case (accept r)
  show ?thesis
  proof (cases r)
    case None
    then show ?thesis using accept assms(2) by (simp add: AcceptLoop_accepted_def server_inv_def)
  next
    case (Some x)
    then show ?thesis using accept server_inv_accept [OF assms(2)] by (cases x) simp
  qed
next
  case (session i v w)
  have "session_inv v"
    using session_inv_step [OF session(4)] assms(2) session(3) by (simp add: server_inv_def)
  then show ?thesis
    using session session_step_keeps [OF session(4)]
    by (intro server_inv_update [OF assms(2) session(3)]) simp_all
next
  case (erase i)
  then show ?thesis using server_inv_erase [OF assms(2)] by simp
next
  case (peer_send i mid pl)
  then show ?thesis using server_inv_send [OF assms(2)] by simp
next
  case (peer_close i)
  then show ?thesis
    using assms(2)
    by (intro server_inv_update [OF assms(2), of i _ "Session_Close (sv_objs s ! i)"])
      (simp_all add: session_inv_close server_inv_def)
next
  case (broadcast mid pl)
  then show ?thesis
    using server_inv_sends [OF assms(2)] server_inv_connections [OF assms(2)] by (simp add: Broadcast_eq)
qed (use assms(2) in \<open>auto simp: AcceptLoop_start_def RegisterMethod_def Server_SetOnConnect_def Server_SetOnDisconnect_def
      Server_SetOnHandshake_def Server_SetInterceptor_def Wait_def Server_Shutdown_def split: if_splits
      intro: server_inv_cong\<close>)

subsection \<open>Building a server\<close>

lemma register_all_more:
  "register_all ms s = s\<lparr>sv_handlers := sv_handlers s ++ map_of (rev ms)\<rparr>"
proof (induction ms arbitrary: s)
  case (Cons m ms)
  obtain mid h where "m = (mid, h)" by (cases m)
  then show ?case
    using Cons.IH [of "RegisterMethod mid h s"]
    by (simp add: register_all_def RegisterMethod_def map_add_upd_left map_add_def fun_eq_iff split: option.split)
qed (simp add: register_all_def)

lemma register_services:
  "fold (\<lambda>service s. service s) (map register_all mss) s =
     s\<lparr>sv_handlers := sv_handlers s ++ map_of (rev (concat mss))\<rparr>"
  by (induction mss arbitrary: s) (simp_all add: register_all_more)

lemma BuildAndStart_eq:
  assumes "cf_services c = map register_all mss"
  shows "BuildAndStart c w =
    (Server_new w)\<lparr>sv_bind_address := cf_address c, sv_bind_port := cf_port c,
      sv_handshake_header := cf_handshake_header c, sv_io_thread_count := cf_io_thread_count c,
      sv_on_connect := cf_on_connect c, sv_on_disconnect := cf_on_disconnect c,
      sv_on_handshake := cf_on_handshake c, sv_interceptor := cf_interceptor c,
      sv_handlers := map_of (rev (concat mss)), sv_running := True, sv_accept := AcceptSpawned,
      sv_threads := replicate (nat (cf_io_thread_count c)) True\<rparr>"
  unfolding BuildAndStart_def assms register_services
  by (simp add: Start_def Server_SetOnConnect_def Server_SetOnDisconnect_def Server_SetOnHandshake_def
      Server_SetInterceptor_def Server_new_def Let_def)

lemma server_inv_init: "server_init s \<Longrightarrow> server_inv s"
  by (auto simp: server_init_def server_inv_def BuildAndStart_eq Server_new_def id_of_def)

interpretation sv: inductive_invariant server_init "server_step A" server_inv for A :: "'s asio"
  by unfold_locales (auto intro: server_inv_init server_inv_step)

subsection \<open>Broadcasting\<close>

lemma send_to_nth:
  "i < length (sv_objs s) \<Longrightarrow> sv_objs (send_to mid pl i s) ! j =
     (if j = i then Session_Send mid pl (sv_objs s ! j) else sv_objs s ! j)"
  by (auto simp: send_to_def)

lemma sends_objs:
  assumes "distinct is" and "\<forall>i \<in> set is. i < length (sv_objs s)" and "j < length (sv_objs s)"
  shows "sv_objs (fold (send_to mid pl) is s) ! j =
    (if j \<in> set is then Session_Send mid pl (sv_objs s ! j) else sv_objs s ! j)"
  using assms
proof (induction "is" arbitrary: s)
  case (Cons i "is")
  then have "sv_objs (fold (send_to mid pl) is (send_to mid pl i s)) ! j =
    (if j \<in> set is then Session_Send mid pl (sv_objs (send_to mid pl i s) ! j) else sv_objs (send_to mid pl i s) ! j)"
    by (intro Cons.IH) simp_all
  with Cons.prems show ?case by (auto simp: send_to_nth)
qed simp

lemma sends_rest: "fold (send_to mid pl) is s = s\<lparr>sv_objs := sv_objs (fold (send_to mid pl) is s)\<rparr>"
proof (induction "is" arbitrary: s)
  case (Cons i "is")
  show ?case using Cons.IH [of "send_to mid pl i s"] by (simp add: send_to_def)
qed simp

lemma connections_distinct:
  assumes "server_inv s"
  shows "distinct (GetConnections s)"
proof -
  have ids: "fst x = id_of (snd x)" if "x \<in> set (sv_sessions s)" for x
    using assms that by (auto simp: server_inv_def)
  have "inj_on snd (set (sv_sessions s))"
    by (rule inj_onI) (metis ids prod_eqI)
  with assms show ?thesis by (simp add: server_inv_def GetConnections_eq distinct_map)
qed

subsection \<open>A server with two connections\<close>

definition demo_config :: "(pipe, nat) Config" where
  "demo_config = Builder_SetOnConnect True (SetHandshakeHeader [] (AddListeningPort ''127.0.0.1'' 7000
     (RegisterService (register_all [(7, the (demo_handlers 7))]) ServerBuilder_new)))"

definition demo_server :: "(pipe, nat) Server" where
  "demo_server =
     AcceptLoop_accepted (Some (\<lparr>p_rx = [2], p_tx = [], p_room = 9\<rparr>, None))
       (AcceptLoop_accepted (Some (\<lparr>p_rx = [], p_tx = [], p_room = 9\<rparr>, Some (''10.0.0.2'', 4000)))
         (AcceptLoop_start True (BuildAndStart demo_config 0)))"

lemma demo_config_services: "cf_services demo_config = map register_all [[(7, the (demo_handlers 7))]]"
  by (simp add: demo_config_def Builder_SetOnConnect_def SetHandshakeHeader_def AddListeningPort_def
      RegisterService_def ServerBuilder_new_def)

lemma demo_config_threads: "cf_io_thread_count demo_config = 1"
  by (simp add: demo_config_def Builder_SetOnConnect_def SetHandshakeHeader_def AddListeningPort_def
      RegisterService_def ServerBuilder_new_def)

lemma demo_built:
  "server_init (BuildAndStart demo_config 0)" "io_runs (BuildAndStart demo_config 0)"
  "sv_accept (BuildAndStart demo_config 0) = AcceptSpawned"
  subgoal unfolding server_init_def using demo_config_services by blast
  by (simp_all add: BuildAndStart_eq [OF demo_config_services] io_runs_def Server_new_def demo_config_threads)

lemma io_runs_accept [simp]:
  "io_runs (AcceptLoop_start b s) = io_runs s" "io_runs (AcceptLoop_accepted r s) = io_runs s"
  by (simp_all add: io_runs_def AcceptLoop_start_def AcceptLoop_accepted_def Let_def split: option.split)

lemma accept_again [simp]:
  "sv_accept (AcceptLoop_start True s) = AcceptWaiting"
  "sv_accept (AcceptLoop_accepted (Some x) s) = sv_accept s"
  by (simp_all add: AcceptLoop_start_def AcceptLoop_accepted_def Let_def split: prod.split)

lemma server_reach_accept:
  "server_reach A s \<Longrightarrow> io_runs s \<Longrightarrow> sv_accept s = AcceptWaiting \<Longrightarrow> server_reach A (AcceptLoop_accepted r s)"
  by (erule reachable.step) (rule server_step.accept)

lemma demo_server_reach: "server_reach pipe_asio demo_server"
proof -
  have "server_reach pipe_asio (BuildAndStart demo_config 0)"
    by (rule reachable.start) (rule demo_built)
  then have "server_reach pipe_asio (AcceptLoop_start True (BuildAndStart demo_config 0))"
    by (rule reachable.step) (simp add: demo_built server_step.bind)
  then show ?thesis
    unfolding demo_server_def by (intro server_reach_accept) (simp_all add: demo_built)
qed

lemma demo_server_sessions:
  "length (sv_objs demo_server) = 2" "sv_sessions demo_server = [(1, 0), (2, 1)]"
  by (simp_all add: demo_server_def AcceptLoop_accepted_def AcceptLoop_start_def sessions_put_def
      BuildAndStart_eq [OF demo_config_services] Server_new_def)

subsection \<open>Properties\<close>



text \<open>
  C34. A broadcast reaches every connection once: in every reachable state, \<open>Broadcast\<close> posts one
  push frame with the method's id and the payload to the strand of each session that
  \<open>GetConnections\<close> gives, behind what was posted before, and changes nothing else.
\<close>

theorem Broadcast_once:
  assumes "server_reach A s" and "j < length (sv_objs s)"
  shows "sv_objs (Broadcast mid pl s) ! j =
      (if j \<in> set (GetConnections s) then (sv_objs s ! j)\<lparr>ss_strand := ss_strand (sv_objs s ! j) @
         [SW_Enqueue (FrameHeader_default\<lparr>frame_type := kPush, method_id := mid,
            payload_size := of_nat (length pl)\<rparr>) pl]\<rparr>
       else sv_objs s ! j) \<and>
    Broadcast mid pl s = s\<lparr>sv_objs := sv_objs (Broadcast mid pl s)\<rparr>"
proof -
  have inv: "server_inv s" by (rule sv.invar_reachable [OF assms(1)])
  have "sv_objs (Broadcast mid pl s) ! j =
    (if j \<in> set (GetConnections s) then Session_Send mid pl (sv_objs s ! j) else sv_objs s ! j)"
    unfolding Broadcast_eq using server_inv_connections [OF inv]
    by (intro sends_objs connections_distinct [OF inv] ballI assms(2))
  moreover have "Broadcast mid pl s = s\<lparr>sv_objs := sv_objs (Broadcast mid pl s)\<rparr>"
    unfolding Broadcast_eq by (rule sends_rest)
  ultimately show ?thesis by (simp add: Session_Send_def Session_EnqueueWrite_def Let_def)
qed

theorem Broadcast_once_witness:
  "server_reach pipe_asio demo_server \<and> 1 < length (sv_objs demo_server) \<and>
   ss_strand (sv_objs (Broadcast 7 [1, 2] demo_server) ! 1) = ss_strand (sv_objs demo_server ! 1) @
     [SW_Enqueue (FrameHeader_default\<lparr>frame_type := kPush, method_id := 7, payload_size := 2\<rparr>) [1, 2]]"
proof -
  have "1 < length (sv_objs demo_server)" by (simp add: demo_server_sessions)
  from Broadcast_once [OF demo_server_reach this, of 7 "[1, 2]"] this demo_server_reach show ?thesis
    by (simp add: GetConnections_eq demo_server_sessions)
qed

text \<open>
  What is built is what was configured: for services that register methods, the server that
  \<open>BuildAndStart\<close> returns has the builder's address, port, handshake header and callbacks, for each
  method id the handler registered last, an accept loop, one thread per requested io thread and none
  for a count that is not positive, and no connection.
\<close>

theorem BuildAndStart_configured:
  assumes "cf_services c = map register_all mss"
  shows "let s = BuildAndStart c w in
    sv_bind_address s = cf_address c \<and> sv_bind_port s = cf_port c \<and>
    sv_handshake_header s = cf_handshake_header c \<and> sv_on_connect s = cf_on_connect c \<and>
    sv_on_disconnect s = cf_on_disconnect c \<and> sv_on_handshake s = cf_on_handshake c \<and>
    sv_interceptor s = cf_interceptor c \<and> sv_handlers s = map_of (rev (concat mss)) \<and>
    sv_running s \<and> sv_accept s = AcceptSpawned \<and> sv_threads s = replicate (nat (cf_io_thread_count c)) True \<and>
    GetConnections s = []"
  by (simp add: BuildAndStart_eq [OF assms] GetConnections_eq Server_new_def)

theorem BuildAndStart_configured_witness:
  "cf_services demo_config = map register_all [[(7, the (demo_handlers 7))]] \<and>
   sv_handlers (BuildAndStart demo_config 0) = [7 \<mapsto> the (demo_handlers 7)]"
  using BuildAndStart_configured [OF demo_config_services, of 0] demo_config_services
  by (simp add: Let_def)

text \<open>
  A handler that throws takes its connection down without the map hearing of it: the session stays
  in the map, is given by \<open>GetConnections\<close> and receives every later broadcast.
\<close>

lemma thrown_session_stays:
  assumes "server_reach A s" and "length (sv_objs s) < 2 ^ 64"
    and "i < length (sv_objs s)" and "ss_run (sv_objs s ! i) = RunThrew"
  shows "i \<in> set (GetConnections s)"
  using sv.invar_reachable [OF assms(1)] assms(2-4) by (force simp: server_inv_def GetConnections_eq)

text \<open>A server whose address cannot be bound runs on without accepting.\<close>

lemma bind_failure_silent:
  "fst (Start s) = Status_default \<and> sv_running (AcceptLoop_start False (snd (Start s))) \<and>
   sv_accept (AcceptLoop_start False (snd (Start s))) = AcceptEnded"
  by (simp add: Start_def AcceptLoop_start_def)

end
