(* ===== verification/Protobuf.thy ===== *)
theory Protobuf
  imports Transport
begin

text \<open>
  \<open>include/protocomm/protobuf.h\<close> and \<open>include/protocomm/async_call.h\<close>: messages to bytes and back.

  The message classes and \<open>TextFormat\<close> belong to protobuf. A message type is a parameter: a
  record of the member functions the code calls, over messages of any type. Sizes are passed to
  protobuf as \<open>int\<close>, so the model keeps the narrowing cast.
\<close>

subsection \<open>The message interface\<close>

record 'm Message =
  msg_default :: 'm
  ByteSizeLong :: "'m \<Rightarrow> nat"
  SerializeToArray :: "'m \<Rightarrow> bytes \<Rightarrow> int \<Rightarrow> bool \<times> bytes"
  ParseFromArray :: "bytes \<Rightarrow> int \<Rightarrow> 'm \<Rightarrow> bool \<times> 'm"
  PrintToString :: "bool \<Rightarrow> 'm \<Rightarrow> bytes \<Rightarrow> bool \<times> bytes"

text \<open>\<open>static_cast<int>\<close> of a \<open>size_t\<close>: the low 32 bits, read as a signed number.\<close>

definition int_cast :: "nat \<Rightarrow> int" where
  "int_cast n = sint (of_nat n :: 32 word)"

subsection \<open>Operations\<close>

definition SerializeProto :: "'m Message \<Rightarrow> 'm \<Rightarrow> bytes \<Rightarrow> Status \<times> bytes" where
  "SerializeProto M msg out =
     (let size = ByteSizeLong M msg; out = string_resize size out
      in if size > 0 then
           (let (done, out) = SerializeToArray M msg out (int_cast size)
            in if \<not> done then (Status_make INTERNAL ''protobuf serialization failed'', out)
               else (Status_default, out))
         else (Status_default, out))"

definition ParseProto :: "'m Message \<Rightarrow> bytes \<Rightarrow> 'm \<Rightarrow> Status \<times> 'm" where
  "ParseProto M data msg =
     (let (parsed, msg) = ParseFromArray M data (int_cast (length data)) msg
      in if \<not> parsed then (Status_make INTERNAL ''protobuf deserialization failed'', msg)
         else (Status_default, msg))"

definition kBodyMax :: nat where "kBodyMax = 1024"

definition RenderProto :: "'m Message \<Rightarrow> 'm \<Rightarrow> bytes" where
  "RenderProto M msg =
     (let (printed, out) = PrintToString M True msg []
      in if \<not> printed then []
         else if length out > kBodyMax then string_resize kBodyMax out @ [0xE2, 0x80, 0xA6]
         else out)"

text \<open>
  \<open>AsyncUnaryCall::get\<close> on the value of its future. A future whose promise was destroyed throws;
  there is no value then.
\<close>

definition AsyncUnaryCall_get :: "'m Message \<Rightarrow> (Status \<times> bytes) option \<Rightarrow> (Status \<times> 'm) option" where
  "AsyncUnaryCall_get M raw =
     (case raw of
        None \<Rightarrow> None
      | Some (st, bytes) \<Rightarrow>
          Some (if \<not> ok st then (st, msg_default M)
                else let (ps, resp) = ParseProto M bytes (msg_default M)
                     in if \<not> ok ps then (ps, msg_default M) else (Status_default, resp)))"

subsection \<open>What the code relies on of a message type\<close>

text \<open>
  The documented behaviour of a message type whose wire format is \<open>enc\<close>: \<open>ByteSizeLong\<close> is the
  length of the encoding; \<open>SerializeToArray\<close> writes it to the front of the array if it fits the
  given size and fails otherwise; \<open>ParseFromArray\<close> on an encoding that is not larger than an
  \<open>int\<close> replaces the message by the encoded one.
\<close>

definition proto_message :: "'m Message \<Rightarrow> ('m \<Rightarrow> bytes) \<Rightarrow> bool" where
  "proto_message M enc \<longleftrightarrow>
     (\<forall>m. ByteSizeLong M m = length (enc m)) \<and>
     (\<forall>m buf n. int (length (enc m)) \<le> n \<and> n \<le> int (length buf) \<longrightarrow>
        SerializeToArray M m buf n = (True, enc m @ drop (length (enc m)) buf)) \<and>
     (\<forall>m buf n. n < int (length (enc m)) \<longrightarrow> \<not> fst (SerializeToArray M m buf n)) \<and>
     (\<forall>m m0. length (enc m) < 2 ^ 31 \<longrightarrow>
        ParseFromArray M (enc m) (int (length (enc m))) m0 = (True, m))"

text \<open>A message with one \<open>bytes\<close> field whose encoding is the field itself.\<close>

definition raw_message :: "bytes Message" where
  "raw_message =
     \<lparr>msg_default = [], ByteSizeLong = length,
      SerializeToArray = (\<lambda>m buf n. if int (length m) \<le> n then (True, m @ drop (length m) buf) else (False, buf)),
      ParseFromArray = (\<lambda>data n m. if 0 \<le> n then (True, take (nat n) data) else (False, [])),
      PrintToString = (\<lambda>single m out. (True, m))\<rparr>"

lemma raw_message: "proto_message raw_message (\<lambda>m. m)"
  by (simp add: proto_message_def raw_message_def)

subsection \<open>Round trip\<close>

lemma int_cast_small: "n < 2 ^ 31 \<Longrightarrow> int_cast n = int n"
  by (simp add: int_cast_def signed_of_nat signed_take_bit_int_eq_self)

lemma int_cast_large: "2 ^ 31 \<le> n \<Longrightarrow> int_cast n < int n"
  using sint_lt [of "of_nat n :: 32 word"] by (simp add: int_cast_def)

lemma SerializeProto_small:
  assumes "proto_message M enc" and "length (enc m) < 2 ^ 31"
  shows "SerializeProto M m out = (Status_default, enc m)"
  using assms by (simp add: SerializeProto_def proto_message_def int_cast_small Let_def string_resize_def)

lemma ParseProto_enc:
  assumes "proto_message M enc" and "length (enc m) < 2 ^ 31"
  shows "ParseProto M (enc m) m0 = (Status_default, m)"
  using assms by (simp add: ParseProto_def proto_message_def int_cast_small Let_def)

lemma SerializeProto_large:
  assumes "proto_message M enc" and "2 ^ 31 \<le> length (enc m)"
  shows "error_code (fst (SerializeProto M m out)) = INTERNAL"
proof -
  have "\<not> fst (SerializeToArray M m (string_resize (length (enc m)) out) (int_cast (length (enc m))))"
    using assms int_cast_large [OF assms(2)] by (simp add: proto_message_def)
  moreover have "length (enc m) > 0" using assms(2) by (cases "enc m") auto
  moreover have "ByteSizeLong M m = length (enc m)" using assms(1) by (simp add: proto_message_def)
  ultimately show ?thesis by (simp add: SerializeProto_def Let_def case_prod_unfold)
qed

text \<open>
  C35. A message survives the trip: whatever the output buffer held, a message whose encoding fits
  an \<open>int\<close> is serialized without error to its encoding, and parsing those bytes gives the
  message back, whatever the target held; a larger message is refused with \<open>INTERNAL\<close> although
  its size wraps around in the cast.
\<close>

theorem SerializeProto_ParseProto:
  assumes "proto_message M enc"
  shows "(if length (enc m) < 2 ^ 31
          then SerializeProto M m out = (Status_default, enc m) \<and>
               ParseProto M (snd (SerializeProto M m out)) m0 = (Status_default, m)
          else error_code (fst (SerializeProto M m out)) = INTERNAL)"
  using SerializeProto_small [OF assms] ParseProto_enc [OF assms] SerializeProto_large [OF assms]
  by (simp add: not_less)

theorem SerializeProto_ParseProto_witness:
  "proto_message raw_message (\<lambda>m. m) \<and>
   SerializeProto raw_message [8, 150, 1] [7] = (Status_default, [8, 150, 1]) \<and>
   ParseProto raw_message [8, 150, 1] [] = (Status_default, [8, 150, 1])"
  using SerializeProto_ParseProto [OF raw_message, of "[8, 150, 1]" "[7]" "[]"]
  by (auto simp: raw_message)

text \<open>
  Rendered messages are bounded: at most 1024 bytes of text and the three bytes of the
  truncation mark, and up to there the text is the printer's.
\<close>

theorem RenderProto_bounds:
  "length (RenderProto M msg) \<le> kBodyMax + 3 \<and>
   take kBodyMax (RenderProto M msg) =
     (if fst (PrintToString M True msg []) then take kBodyMax (snd (PrintToString M True msg [])) else [])"
  by (simp add: RenderProto_def case_prod_unfold Let_def string_resize_def)

end
