(* ===== verification/Stub.thy ===== *)
theory Stub
  imports Server Protobuf
begin

text \<open>
  The classes that \<open>protoc/generator.cpp\<close> emits for a method: \<open>Stub\<close> on the client, \<open>Service\<close>,
  \<open>PeerWriter\<close> and \<open>Broadcaster\<close> on the server. \<open>Generator\<close> models the text; here is what the
  emitted functions do, statement by statement, for a method with input messages \<open>MI\<close> and output
  messages \<open>MO\<close>. The channel is the interface the stub is given: a function from method id,
  request and response string to the status and the response string. The implementation of the
  method is the application's.
\<close>

subsection \<open>The client\<close>

text \<open>What a call hands to \<open>OnTrace\<close> besides the method's name: request, response and status.\<close>

type_synonym trace = "(bytes \<times> bytes \<times> Status) option"

text \<open>The blocking call: the status, what \<open>*response\<close> holds afterwards, and the trace.\<close>

definition Stub_call ::
  "'i Message \<Rightarrow> 'o Message \<Rightarrow> (u32 \<Rightarrow> bytes \<Rightarrow> bytes \<Rightarrow> Status \<times> bytes) \<Rightarrow> bool \<Rightarrow> u32 \<Rightarrow> 'i \<Rightarrow> 'o \<Rightarrow>
   Status \<times> 'o \<times> trace" where
  "Stub_call MI MO UnaryCall tr mid request response =
     (let (s, req_bytes) = SerializeProto MI request []
      in if \<not> ok s then (s, response, None)
         else
           let (s, resp_bytes) = UnaryCall mid req_bytes []
           in if \<not> ok s then
                (s, response, if tr then Some (RenderProto MI request, [], s) else None)
              else
                let (ps, response) = ParseProto MO resp_bytes response
                in (ps, response,
                    if tr then Some (RenderProto MI request, if ok ps then RenderProto MO response else [], ps)
                    else None))"

text \<open>The call that returns an \<open>AsyncUnaryCall\<close>: the value its future will have.\<close>

definition Stub_future ::
  "'i Message \<Rightarrow> (u32 \<Rightarrow> bytes \<Rightarrow> (Status \<times> bytes) option) \<Rightarrow> u32 \<Rightarrow> 'i \<Rightarrow> (Status \<times> bytes) option" where
  "Stub_future MI AsyncUnaryCall mid request =
     (let (ser, req_bytes) = SerializeProto MI request []
      in if \<not> ok ser then Some (ser, []) else AsyncUnaryCall mid req_bytes)"

text \<open>
  The call with a callback: a status and a message for \<open>on_response\<close> at once, or the method id
  and the bytes for the channel. Then the lambda that the channel calls with the outcome.
\<close>

definition Stub_callback ::
  "'i Message \<Rightarrow> 'o Message \<Rightarrow> u32 \<Rightarrow> 'i \<Rightarrow> (Status \<times> 'o) + (u32 \<times> bytes)" where
  "Stub_callback MI MO mid request =
     (let (ser, req_bytes) = SerializeProto MI request []
      in if \<not> ok ser then Inl (ser, msg_default MO) else Inr (mid, req_bytes))"

definition Stub_on_response ::
  "'o Message \<Rightarrow> bool \<Rightarrow> bytes \<Rightarrow> Status \<Rightarrow> bytes \<Rightarrow> (Status \<times> 'o) \<times> trace" where
  "Stub_on_response MO tr req_text st bytes =
     (let resp = msg_default MO; ps = st;
          (ps, resp) = (if ok st then ParseProto MO bytes resp else (ps, resp));
          traced = (if tr
            then Some (req_text, if ok st \<and> ok ps then RenderProto MO resp else [], if ok ps then st else ps)
            else None)
      in if \<not> ok st then ((st, msg_default MO), traced)
         else if \<not> ok ps then ((ps, msg_default MO), traced)
         else ((Status_default, resp), traced))"

subsection \<open>The server\<close>

type_synonym ('i, 'o, 'w) service_method =
  "ServerContext \<Rightarrow> 'i \<Rightarrow> 'o \<Rightarrow> 'w \<Rightarrow> (Status \<times> ServerContext \<times> 'o) option \<times> 'w"

text \<open>A method the application does not override.\<close>

definition Service_default :: "string \<Rightarrow> ('i, 'o, 'w) service_method" where
  "Service_default mname ctx request response w =
     (Some (Status_make UNIMPLEMENTED (mname @ '' not implemented''), ctx, response), w)"

text \<open>The handler that \<open>RegisterWith\<close> registers for the method.\<close>

definition Service_handler ::
  "'i Message \<Rightarrow> 'o Message \<Rightarrow> string \<Rightarrow> ('i, 'o, 'w) service_method \<Rightarrow> 'w MethodHandler" where
  "Service_handler MI MO full impl ctx req_bytes resp_bytes w =
     (let ctx = set_method_name full ctx;
          (ps, req) = ParseProto MI req_bytes (msg_default MI)
      in if \<not> ok ps then (Some (ps, ctx, resp_bytes), w)
         else
           let ctx = (if tracing ctx then set_request_text (RenderProto MI req) ctx else ctx)
           in case impl ctx req (msg_default MO) w of
                (None, w) \<Rightarrow> (None, w)
              | (Some (s, ctx, resp), w) \<Rightarrow>
                  if \<not> ok s then (Some (s, ctx, resp_bytes), w)
                  else
                    let ctx = (if tracing ctx then set_response_text (RenderProto MO resp) ctx else ctx);
                        (st, resp_bytes) = SerializeProto MO resp resp_bytes
                    in (Some (st, ctx, resp_bytes), w))"

text \<open>\<open>PeerWriter::Send\<close> and \<open>Broadcaster::Broadcast\<close> ignore the status of the serialization.\<close>

definition PeerWriter_Send :: "'o Message \<Rightarrow> u32 \<Rightarrow> 'o \<Rightarrow> ('s, 'w) Session \<Rightarrow> ('s, 'w) Session" where
  "PeerWriter_Send MO mid message peer =
     (let (_, bytes) = SerializeProto MO message [] in Session_Send mid bytes peer)"

definition Broadcaster_Broadcast :: "'o Message \<Rightarrow> u32 \<Rightarrow> 'o \<Rightarrow> ('s, 'w) Server \<Rightarrow> ('s, 'w) Server" where
  "Broadcaster_Broadcast MO mid message server =
     (let (_, bytes) = SerializeProto MO message [] in Broadcast mid bytes server)"

subsection \<open>The three kinds of call\<close>

text \<open>
  C33. The three ways to call a method agree: for the same answer of the channel, the future of the
  asynchronous call and the callback give the status of the blocking call, and its response or, if
  the status is an error, an empty one.
\<close>

theorem stub_calls_agree:
  "let (st, resp, traced) = Stub_call MI MO UnaryCall tr mid request (msg_default MO);
       result = (st, if ok st then resp else msg_default MO)
   in AsyncUnaryCall_get MO (Stub_future MI (\<lambda>mid bytes. Some (UnaryCall mid bytes [])) mid request) = Some result \<and>
      (case Stub_callback MI MO mid request of
         Inl r \<Rightarrow> r = result
       | Inr (mid', bytes) \<Rightarrow> mid' = mid \<and>
           (let (s, resp_bytes) = UnaryCall mid' bytes []
            in fst (Stub_on_response MO tr (if tr then RenderProto MI request else []) s resp_bytes) = result))"
proof -
  obtain s b where s: "SerializeProto MI request [] = (s, b)" by fastforce
  obtain s' b' where s': "UnaryCall mid b [] = (s', b')" by fastforce
  obtain ps m where ps: "ParseProto MO b' (msg_default MO) = (ps, m)" by fastforce
  then have pok: "ok ps \<Longrightarrow> ps = Status_default"
    by (auto simp: ParseProto_def Let_def split: prod.splits if_splits)
  show ?thesis
    by (cases "ok s"; cases "ok s'"; cases "ok ps")
      (use pok in \<open>auto simp: Stub_call_def Stub_future_def Stub_callback_def Stub_on_response_def
         AsyncUnaryCall_get_def s s' ps Let_def\<close>)
qed

subsection \<open>Service and stub\<close>

text \<open>The context in which the application's method runs.\<close>

definition method_context :: "'i Message \<Rightarrow> string \<Rightarrow> 'i \<Rightarrow> ServerContext \<Rightarrow> ServerContext" where
  "method_context MI full req ctx =
     (let ctx = set_method_name full ctx
      in if tracing ctx then set_request_text (RenderProto MI req) ctx else ctx)"

lemma Service_handler_impl:
  assumes "proto_message MI encI" and "length (encI m) < 2 ^ 31"
    and "proto_message MO encO" and "length (encO r) < 2 ^ 31"
    and "impl (method_context MI full m ctx) m (msg_default MO) w = (Some (st, ctx', r), w')"
  shows "\<exists>ctx''. Service_handler MI MO full impl ctx (encI m) [] w =
    (Some (if ok st then Status_default else st, ctx'', if ok st then encO r else []), w')"
  using assms(5)
  by (simp add: Service_handler_def ParseProto_enc [OF assms(1,2)] SerializeProto_small [OF assms(3,4)]
      method_context_def Let_def)

text \<open>A broadcast or push of a message that cannot be serialized sends the buffer it failed in.\<close>

lemma PeerWriter_Send_unserialized:
  assumes "proto_message MO enc" and "2 ^ 31 \<le> length (enc m)"
  shows "error_code (fst (SerializeProto MO m [])) = INTERNAL"
    and "PeerWriter_Send MO mid m peer = Session_Send mid (snd (SerializeProto MO m [])) peer"
  using SerializeProto_large [OF assms, of "[]"] by (simp_all add: PeerWriter_Send_def case_prod_unfold)

end
