(* ===== verification/End_To_End.thy ===== *)
theory End_To_End
  imports Channel_Calls Stub
begin

text \<open>
  The legs of a call between a C++ channel and a C++ session: the channel's strand and pump send the
  request, the session answers it, and the response reaches the callback of the call and the user of
  the generated stub. The root theory joins them; the theories on the Go implementation use each leg
  with a Go program at the other end.
\<close>

subsection \<open>The legs of a call\<close>

text \<open>The header of the request that a channel sends for its next call.\<close>

definition request_header :: "u32 \<Rightarrow> bytes \<Rightarrow> 's chan \<Rightarrow> FrameHeader" where
  "request_header mid req s =
     FrameHeader_default\<lparr>frame_type := kRequest, call_id := next_call_id s, method_id := mid,
       payload_size := of_nat (length req)\<rparr>"

text \<open>
  A connected channel with one call posted on its strand and nothing to write, and a session that
  waits for a request and has nothing to write.
\<close>

definition calling :: "u32 \<Rightarrow> bytes \<Rightarrow> callback \<Rightarrow> 's chan \<Rightarrow> bool" where
  "calling mid req c s \<longleftrightarrow>
     io_running s \<and> reader s \<and> \<not> stopped s \<and> strand s = [T_Call mid req (Some c)] \<and> write_queue s = [] \<and>
     \<not> write_pump_active s \<and> pump s = PumpNone \<and> map_of (pending s) (next_call_id s) = None \<and>
     dispatch (config s) = Inline"

definition waiting_session :: "('s, 'w) Session \<Rightarrow> bool" where
  "waiting_session t \<longleftrightarrow>
     ss_run t = RunReadFrame \<and> ss_strand t = [] \<and> ss_write_queue t = [] \<and> \<not> ss_write_pump_active t \<and>
     ss_pump t = PumpNone"

lemma write_frame_writable:
  assumes "stream_socket A rx tx" and "writable A"
  obtains st sock where "Async_WriteFrame A s h p = (st, sock)" and "ok st"
    and "tx sock = tx s @ frame_bytes (h, p)"
proof -
  obtain st sock where w: "Async_WriteFrame A s h p = (st, sock)" by fastforce
  moreover have "ok st" using at.write_writable [OF assms(2), of s h p] w by simp
  ultimately show ?thesis using at.write_ok [OF assms(1) w] that by blast
qed

text \<open>The client: the strand runs the call, and the pump it spawns writes the frame.\<close>

definition call_sent :: "FrameHeader \<Rightarrow> bytes \<Rightarrow> callback \<Rightarrow> 's \<Rightarrow> 's chan \<Rightarrow> 's chan" where
  "call_sent hdr req c sock s =
     s\<lparr>strand := [], next_call_id := next_call_id s + 1, pending := pending s @ [(next_call_id s, Some c)],
       socket := sock, events := events s @ [Queued hdr req, Written hdr req]\<rparr>"

lemma call_sent_waits:
  assumes "calling mid req c s"
  shows "io_running (call_sent hdr req c sock s)" "reader (call_sent hdr req c sock s)"
    "dispatch (config (call_sent hdr req c sock s)) = Inline"
    "map_of (pending (call_sent hdr req c sock s)) (next_call_id s) = Some (Some c)"
    "filter (\<lambda>e. fst e \<noteq> next_call_id s) (pending (call_sent hdr req c sock s)) = pending s"
    "socket (call_sent hdr req c sock s) = sock"
proof -
  have none: "map_of (pending s) (next_call_id s) = None" using assms by (simp add: calling_def)
  then have "filter (\<lambda>e. fst e \<noteq> next_call_id s) (pending s) = pending s"
    by (intro filter_True ballI) (metis map_of_eq_None_iff image_eqI)
  with assms none show "io_running (call_sent hdr req c sock s)" "reader (call_sent hdr req c sock s)"
    "dispatch (config (call_sent hdr req c sock s)) = Inline"
    "map_of (pending (call_sent hdr req c sock s)) (next_call_id s) = Some (Some c)"
    "filter (\<lambda>e. fst e \<noteq> next_call_id s) (pending (call_sent hdr req c sock s)) = pending s"
    "socket (call_sent hdr req c sock s) = sock"
    by (simp_all add: calling_def call_sent_def map_add_def)
qed

lemma client_sends:
  assumes A: "stream_socket A rx tx" "writable A" and s: "calling mid req c s"
  defines "hdr \<equiv> request_header mid req s"
  shows "\<exists>sock. tx sock = tx (socket s) @ frame_bytes (hdr, req) \<and> (chan_step A)\<^sup>*\<^sup>* s (call_sent hdr req c sock s)"
proof -
  define s1 where "s1 = run_task A (T_Call mid req (Some c)) (s\<lparr>strand := []\<rparr>)"
  define s2 where "s2 = WritePump_loop s1"
  define s3 where "s3 = WritePump_wrote A hdr req s2"
  have s1: "s1 = s\<lparr>strand := [], next_call_id := next_call_id s + 1,
      pending := pending s @ [(next_call_id s, Some c)], write_queue := [(hdr, req)],
      write_pump_active := True, pump := PumpStart, events := events s @ [Queued hdr req]\<rparr>"
    using s by (simp add: s1_def hdr_def request_header_def calling_def AsyncUnaryCall_task_def
        pending_emplace_def enqueue_frame_def log_event_def Let_def)
  have s2: "s2 = s1\<lparr>write_queue := [], pump := PumpWriting hdr req\<rparr>"
    by (simp add: s2_def s1 WritePump_loop_def)
  obtain st sock where w: "Async_WriteFrame A (socket s) hdr req = (st, sock)" "ok st"
    and tx: "tx sock = tx (socket s) @ frame_bytes (hdr, req)"
    by (rule write_frame_writable [OF A])
  have s3: "s3 = call_sent hdr req c sock s"
    using s w by (simp add: call_sent_def s3_def s2 s1 WritePump_wrote_def WritePump_loop_def log_event_def calling_def)
  have "chan_step A s s1"
    unfolding s1_def by (rule chan_step.task) (use s in \<open>simp_all add: calling_def\<close>)
  moreover have "chan_step A s1 s2"
    unfolding s2_def by (rule chan_step.pump_start) (use s in \<open>simp_all add: s1 calling_def\<close>)
  moreover have "chan_step A s2 s3"
    unfolding s3_def by (rule chan_step.pump_wrote) (use s in \<open>simp_all add: s2 s1 calling_def\<close>)
  ultimately have "(chan_step A)\<^sup>*\<^sup>* s s3" by (meson converse_rtranclp_into_rtranclp rtranclp.rtrancl_refl)
  with tx s3 show ?thesis by metis
qed

text \<open>The server: the request is read and answered, and the pump writes the response.\<close>

lemma server_answers:
  assumes B: "stream_socket B rx tx" "writable B" and t: "waiting_session t"
    and n: "next_frame (rx (ss_socket t)) = Some ((h, p), rest)" "frame_type h = kRequest"
    and r: "reply_to H (request_context h t) (h, p) w = (Some (rh, rp), w')"
  shows "\<exists>t'. (session_step B H)\<^sup>*\<^sup>* (t, w) (t', w') \<and>
    (\<exists>sock. rx sock = rest \<and> tx sock = tx (ss_socket t) \<and> tx (ss_socket t') = tx sock @ frame_bytes (rh, rp))"
proof -
  from at.read_some [OF B(1) n(1), of FrameHeader_default "[]"]
  obtain sock where sock: "rx sock = rest" "tx sock = tx (ss_socket t)"
    and read: "Async_ReadFrame B (ss_socket t) FrameHeader_default [] = (Status_default, h, p, sock)" by blast
  define u where "u = ss_log (Received h p) (t\<lparr>ss_socket := sock\<rparr>)"
  have frame: "Run_frame B H t w = Run_request H h p u w" using n(2) read by (simp add: Run_frame_def u_def)
  have r': "reply_to H (request_context h u) (h, p) w = (Some (rh, rp), w')" using r by (simp add: u_def)
  from Run_request_reply_to(1,3) [OF r'] obtain ctx code where
    v: "Run_frame B H t w = (Run_reply h p ctx code rp u, w')" and rh: "rh = response_header h code rp"
    unfolding frame by (metis prod.collapse)
  define v where "v = Run_reply h p ctx code rp u"
  have vf: "ss_strand v = [SW_Enqueue rh rp]" "ss_socket v = sock"
    using t rh by (simp_all add: v_def u_def waiting_session_def)
  have vp: "pump_part v = pump_part t" by (simp add: v_def u_def)
  then have vq: "ss_write_queue v = []" "\<not> ss_write_pump_active v" "ss_pump v = PumpNone"
    using t by (simp_all add: pump_part_def waiting_session_def)
  define v1 where "v1 = session_run_task B (SW_Enqueue rh rp) (v\<lparr>ss_strand := []\<rparr>)"
  have v1: "ss_pump v1 = PumpStart" "ss_write_queue v1 = [(rh, rp)]" "ss_socket v1 = sock"
    using vf vq by (simp_all add: v1_def EnqueueWrite_task_def ss_log_def)
  define v2 where "v2 = Session_WritePump_loop v1"
  have v2: "ss_pump v2 = PumpWriting rh rp" "ss_socket v2 = sock"
    using v1 by (simp_all add: v2_def Session_WritePump_loop_def)
  obtain st sock' where w: "Async_WriteFrame B sock rh rp = (st, sock')" "ok st"
    and tx: "tx sock' = tx sock @ frame_bytes (rh, rp)"
    by (rule write_frame_writable [OF B])
  define v3 where "v3 = Session_WritePump_wrote B rh rp v2"
  have v3: "ss_socket v3 = sock'"
    using v2 w by (simp add: v3_def Session_WritePump_wrote_def Session_WritePump_loop_def ss_log_def Let_def
        split: list.split)
  have "session_step B H (t, w) (v, w')"
    using session_step.frame [of t B H w] t v by (simp add: waiting_session_def v_def)
  moreover have "session_step B H (v, w') (v1, w')" unfolding v1_def by (rule session_step.task) (rule vf)
  moreover have "session_step B H (v1, w') (v2, w')" unfolding v2_def by (rule session_step.pump_start) (rule v1)
  moreover have "session_step B H (v2, w') (v3, w')" unfolding v3_def by (rule session_step.pump_wrote) (rule v2)
  ultimately have "(session_step B H)\<^sup>*\<^sup>* (t, w) (v3, w')"
    by (meson converse_rtranclp_into_rtranclp rtranclp.rtrancl_refl)
  with sock tx v3 show ?thesis by metis
qed

text \<open>What the answer to a request becomes at the client.\<close>

definition call_result :: "frame \<Rightarrow> Status \<times> bytes" where
  "call_result f =
     (if code_of_wire (status_code (fst f)) = OK then (Status_default, snd f)
      else (Status_make (code_of_wire (status_code (fst f))) ''remote error'', []))"

text \<open>The answer of a generated service, and what the generated stub makes of it.\<close>

lemma service_reply:
  assumes "proto_message MI encI" and "length (encI m) < 2 ^ 31"
    and "proto_message MO encO" and "length (encO r) < 2 ^ 31"
    and "H (method_id h) = Some (Service_handler MI MO full impl)"
    and "impl (method_context MI full m ctx) m (msg_default MO) w = (Some (st, ctx', r), w')"
  defines "body \<equiv> if ok st then encO r else []"
  shows "reply_to H ctx (h, encI m) w = (Some (response_header h (error_code st) body, body), w')"
proof -
  from Service_handler_impl [of MI encI m MO encO r impl full ctx w st ctx' w', OF assms(1-4,6)] obtain ctx'' where
    "Service_handler MI MO full impl ctx (encI m) [] w =
      (Some (if ok st then Status_default else st, ctx'', body), w')"
    unfolding body_def by blast
  then show ?thesis
    using assms(5) by (cases "ok st") (simp_all add: reply_to_def body_def ok_iff_code Let_def)
qed

definition user_result :: "'o Message \<Rightarrow> Status \<Rightarrow> 'o \<Rightarrow> Status \<times> 'o" where
  "user_result MO st r =
     (if ok st then (Status_default, r) else (Status_make (error_code st) ''remote error'', msg_default MO))"

lemma stub_result:
  assumes "proto_message MO encO" and "length (encO r) < 2 ^ 31"
    and "uint (code_value (error_code st)) < 2 ^ 16"
  defines "body \<equiv> if ok st then encO r else []"
  shows "fst (case_prod (Stub_on_response MO tr req_text) (call_result (response_header h (error_code st) body, body))) =
    user_result MO st r"
proof -
  have code: "code_of_wire (code_to_wire (error_code st)) = error_code st"
    by (rule code_of_wire_to_wire) (rule assms(3))
  then show ?thesis
    using ParseProto_enc [OF assms(1,2)]
    by (cases "ok st")
      (simp_all add: user_result_def call_result_def response_header_def body_def Stub_on_response_def ok_iff_code Let_def
        code_to_wire_def code_of_wire_def)
qed

text \<open>The client again: the response arrives, and the call's callback is called.\<close>

lemma client_completes:
  assumes "stream_socket A rx tx" and "io_running s" "reader s" "dispatch (config s) = Inline"
    and "map_of (pending s) (call_id rh) = Some (Some c)" and "frame_type rh = kResponse"
    and "next_frame (rx sock) = Some ((rh, rp), rest)"
  shows "\<exists>s'. (chan_step A)\<^sup>*\<^sup>* s s' \<and>
    events s' = events s @ [case_prod (Responded c) (call_result (rh, rp))] \<and>
    pending s' = filter (\<lambda>e. fst e \<noteq> call_id rh) (pending s)"
proof -
  let ?s = "s\<lparr>socket := sock\<rparr>"
  have "chan_step A s ?s" by (rule chan_step.network)
  moreover have "chan_step A ?s (ReadLoop_turn A ?s)" by (rule chan_step.read) (simp_all add: assms)
  ultimately have "(chan_step A)\<^sup>*\<^sup>* s (ReadLoop_turn A ?s)"
    by (meson converse_rtranclp_into_rtranclp rtranclp.rtrancl_refl)
  moreover from ReadLoop_turn_response [of A rx tx ?s rh rp rest c] assms obtain sock' where
    "ReadLoop_turn A ?s = ?s\<lparr>socket := sock', pending := filter (\<lambda>e. fst e \<noteq> call_id rh) (pending ?s),
      events := events ?s @ [if code_of_wire (status_code rh) = OK then Responded c Status_default rp
        else Responded c (Status_make (code_of_wire (status_code rh)) ''remote error'') []]\<rparr>" by auto
  ultimately show ?thesis by (intro exI [of _ "ReadLoop_turn A ?s"]) (simp add: call_result_def)
qed

text \<open>The whole way back: the response of a generated handler reaches the user of the stub.\<close>

lemma answer_arrives:
  assumes "stream_socket A rx tx" and "io_running s" "reader s" "dispatch (config s) = Inline"
    and "map_of (pending s) (call_id hdr) = Some (Some c)"
    and "proto_message MO encO" "length (encO r) < 2 ^ 31" "uint (code_value (error_code st)) < 2 ^ 16"
  defines "body \<equiv> if ok st then encO r else []"
  assumes "rx sock = frame_bytes (response_header hdr (error_code st) body, body)"
  shows "\<exists>s' st' reply. (chan_step A)\<^sup>*\<^sup>* s s' \<and>
    pending s' = filter (\<lambda>e. fst e \<noteq> call_id hdr) (pending s) \<and>
    events s' = events s @ [Responded c st' reply] \<and>
    fst (Stub_on_response MO tr req_text st' reply) = user_result MO st r"
proof -
  let ?rh = "response_header hdr (error_code st) body"
  have rh: "frame_type ?rh = kResponse" "call_id ?rh = call_id hdr" by (simp_all add: response_header_def)
  have "wf_frame (?rh, body)"
    using assms(7) by (simp add: wf_frame_def response_header_def body_def unat_of_nat_u32)
  from next_frame_bytes [OF this, of "[]"] assms(10) have "next_frame (rx sock) = Some ((?rh, body), [])" by simp
  from client_completes [OF assms(1-4) _ rh(1) this] assms(5) rh obtain s' where
    s': "(chan_step A)\<^sup>*\<^sup>* s s'" "events s' = events s @ [case_prod (Responded c) (call_result (?rh, body))]"
    "pending s' = filter (\<lambda>e. fst e \<noteq> call_id hdr) (pending s)" by auto
  obtain st' reply where res: "call_result (?rh, body) = (st', reply)" by fastforce
  moreover have "fst (Stub_on_response MO tr req_text st' reply) = user_result MO st r"
    using stub_result [OF assms(6,7,8), of tr req_text hdr] res by (simp add: body_def)
  ultimately show ?thesis using s' by (intro exI [of _ s'] exI [of _ st'] exI [of _ reply]) simp
qed

subsection \<open>A concrete channel and session\<close>

text \<open>The pipe with unlimited room.\<close>

definition tape_asio :: "pipe asio" where
  "tape_asio = pipe_asio\<lparr>asio_write := (\<lambda>s bs. (None, s\<lparr>p_tx := p_tx s @ concat bs\<rparr>))\<rparr>"

lemma tape_socket: "stream_socket tape_asio p_rx p_tx" "writable tape_asio"
  by (auto simp: stream_socket_def writable_def tape_asio_def pipe_asio_def)

lemma demo_waiting: "waiting_session (Run_start demo_session)"
  by (simp add: waiting_session_def Run_start_def demo_session_def Session_new_def ss_log_def)

lemma demo_calling: "calling 5 [1, 2] (User 7) (demo_called Inline)"
  by (simp add: calling_def demo_called_eq demo_chan_defs)

end
