(* ===== verification/Go_Channel.thy ===== *)
theory Go_Channel
  imports Go_Wire
begin

text \<open>
  \<open>src/go/channel.go\<close>: the client of the Go implementation. Every call runs on the goroutine of its
  caller, one more goroutine per connection reads, and three mutexes order them: \<open>mu\<close> guards the
  fields and is never held across a blocking operation, \<open>connectMu\<close> is held while a connection is
  set up, \<open>writeMu\<close> while a frame is written.

  The state holds the fields of \<open>Channel\<close>, the connections dialled so far, every goroutine that is
  inside the channel, as the point it has reached, and a log of what happened. A section under \<open>mu\<close> is
  one step; so is every blocking call, at its completion. Callbacks are called outside of the locks,
  one step each; what they do with the channel are calls of their own.
\<close>

subsection \<open>State\<close>

record Go_ChannelConfig =
  cfg_HandshakeHeader :: bytes
  cfg_OnPush :: bool

text \<open>
  What a function value is: a callback of the application, the closure of \<open>UnaryCall\<close> that sends to
  its \<open>done\<close> channel, the argument of \<open>ConnectAsync\<close>.
\<close>

datatype go_cb = GoUser nat | GoDone nat | GoConnected nat

text \<open>Who called \<open>ensureConnected\<close>.\<close>

datatype go_caller = ForCall u32 bytes go_cb | ForConnect | ForConnectAsync go_cb

text \<open>
  Where a goroutine is. A connection is named by its position in the list of connections; \<open>next\<close> is
  where the goroutine continues.
\<close>

datatype go_pc =
    EC_check go_caller
  | EC_lock go_caller
  | EC_recheck go_caller
  | EC_dial go_caller
  | EC_write go_caller nat
  | EC_read go_caller nat
  | EC_install go_caller nat
  | EC_spawn go_caller nat u64
  | AC_register u32 bytes go_cb
  | AC_lock Go_FrameHeader bytes nat u64 go_pc
  | AC_header Go_FrameHeader bytes nat u64 go_pc
  | AC_payload Go_FrameHeader bytes nat u64 go_pc
  | RL_read nat u64
  | RL_frame nat u64 Go_FrameHeader bytes
  | TD_lock u64 Go_Status go_pc
  | TD_close nat Go_Status "go_cb list" go_pc
  | TD_calls Go_Status "go_cb list" go_pc
  | CL_lock
  | CallCb go_cb Go_Status bytes go_pc
  | AwaitDone nat
  | Finished

datatype go_event =
    GoAsked go_cb
  | GoCalled go_cb Go_Status bytes
  | GoDropped go_cb
  | GoRegistered u32
  | GoPushed u32 bytes
  | GoWrite nat bytes bool
  | GoConnectReturned Go_Status
  | GoUnaryReturned nat Go_Status bytes
  | GoTraced string string string Go_Status

record 'c go_chan =
  gc_host :: string
  gc_port :: u16
  gc_config :: Go_ChannelConfig
  gc_interceptor :: bool
  connectMu :: bool
  writeMu :: bool
  gc_conn :: "nat option"
  gc_connected :: bool
  gc_closed :: bool
  gc_gen :: u64
  nextCallID :: u32
  gc_pending :: "(u32 \<times> go_cb) list"
  conns :: "'c list"
  dones :: nat
  gos :: "go_pc list"
  gc_events :: "go_event list"

definition Go_CreateChannel :: "string \<Rightarrow> u16 \<Rightarrow> Go_ChannelConfig option \<Rightarrow> 'c go_chan" where
  "Go_CreateChannel host port config =
     (let cfg = (case config of Some c \<Rightarrow> c | None \<Rightarrow> \<lparr>cfg_HandshakeHeader = [], cfg_OnPush = False\<rparr>);
          cfg = (if cfg_HandshakeHeader cfg = []
                 then cfg\<lparr>cfg_HandshakeHeader := bytes_of_string ''pc1''\<rparr> else cfg)
      in \<lparr>gc_host = host, gc_port = port, gc_config = cfg, gc_interceptor = False, connectMu = False,
          writeMu = False, gc_conn = None, gc_connected = False, gc_closed = False, gc_gen = 0,
          nextCallID = 1, gc_pending = [], conns = [], dones = 0, gos = [], gc_events = []\<rparr>)"

definition go_log :: "go_event \<Rightarrow> 'c go_chan \<Rightarrow> 'c go_chan" where
  "go_log e s = s\<lparr>gc_events := gc_events s @ [e]\<rparr>"

text \<open>The conversation with one connection; \<open>conn.Close()\<close> whose error is dropped.\<close>

definition set_conn :: "nat \<Rightarrow> 'c \<Rightarrow> 'c go_chan \<Rightarrow> 'c go_chan" where
  "set_conn h c s = s\<lparr>conns := (conns s)[h := c]\<rparr>"

definition conn_Write :: "'c net \<Rightarrow> nat \<Rightarrow> bytes \<Rightarrow> 'c go_chan \<Rightarrow> string option \<times> 'c go_chan" where
  "conn_Write N h b s =
     (let (err, c) = net_Write N (conns s ! h) b
      in (err, go_log (GoWrite h b (err = None)) (set_conn h c s)))"

definition conn_Close :: "'c net \<Rightarrow> nat \<Rightarrow> 'c go_chan \<Rightarrow> 'c go_chan" where
  "conn_Close N h s = set_conn h (snd (net_Close N (conns s ! h))) s"

text \<open>\<open>m[k] = v\<close>: an entry with the same key is replaced, and its callback lost.\<close>

definition pending_set :: "u32 \<Rightarrow> go_cb \<Rightarrow> 'c go_chan \<Rightarrow> 'c go_chan" where
  "pending_set k cb s =
     (case map_of (gc_pending s) k of
        None \<Rightarrow> s\<lparr>gc_pending := (k, cb) # gc_pending s\<rparr>
      | Some old \<Rightarrow>
          go_log (GoDropped old) (s\<lparr>gc_pending := (k, cb) # filter (\<lambda>(k', _). k' \<noteq> k) (gc_pending s)\<rparr>))"

subsection \<open>ensureConnected\<close>

definition channel_closed :: Go_Status where
  "channel_closed = go_status Go_Unavailable ''channel closed''"

text \<open>The section under \<open>mu\<close>, once before and once after \<open>connectMu\<close> is taken.\<close>

definition ensureConnected_check :: "'c go_chan \<Rightarrow> Go_Status option" where
  "ensureConnected_check s =
     (if gc_closed s then Some channel_closed
      else if gc_connected s \<and> gc_conn s \<noteq> None then Some StatusOK
      else None)"

text \<open>Where a goroutine continues that called \<open>AsyncUnaryCall\<close> with the callback.\<close>

fun call_return :: "go_cb \<Rightarrow> go_pc" where
  "call_return (GoDone k) = AwaitDone k"
| "call_return cb = Finished"

text \<open>What the caller of \<open>ensureConnected\<close> does with its result.\<close>

fun ec_return :: "go_caller \<Rightarrow> Go_Status \<Rightarrow> 'c go_chan \<Rightarrow> go_pc \<times> 'c go_chan" where
  "ec_return (ForCall mid req cb) st s =
     (if \<not> IsOK st then (CallCb cb st [] (call_return cb), s) else (AC_register mid req cb, s))"
| "ec_return ForConnect st s = (Finished, go_log (GoConnectReturned st) s)"
| "ec_return (ForConnectAsync cb) st s = (CallCb cb st [] Finished, s)"

definition ensureConnected_dial :: "go_caller \<Rightarrow> string + 'c \<Rightarrow> 'c go_chan \<Rightarrow> go_pc \<times> 'c go_chan" where
  "ensureConnected_dial k r s =
     (case r of
        Inl err \<Rightarrow> ec_return k (go_status Go_Unavailable (''connect: '' @ err)) (s\<lparr>connectMu := False\<rparr>)
      | Inr c \<Rightarrow>
          let h = length (conns s); s = s\<lparr>conns := conns s @ [c]\<rparr>
          in if cfg_HandshakeHeader (gc_config s) \<noteq> [] then (EC_write k h, s) else (EC_install k h, s))"

definition ensureConnected_write :: "'c net \<Rightarrow> go_caller \<Rightarrow> nat \<Rightarrow> 'c go_chan \<Rightarrow> go_pc \<times> 'c go_chan" where
  "ensureConnected_write N k h s =
     (case conn_Write N h (cfg_HandshakeHeader (gc_config s)) s of
        (Some err, s) \<Rightarrow>
          ec_return k (go_status Go_Unavailable (''handshake write: '' @ err))
            ((conn_Close N h s)\<lparr>connectMu := False\<rparr>)
      | (None, s) \<Rightarrow> (EC_read k h, s))"

definition ensureConnected_read :: "'c net \<Rightarrow> go_caller \<Rightarrow> nat \<Rightarrow> 'c go_chan \<Rightarrow> go_pc \<times> 'c go_chan" where
  "ensureConnected_read N k h s =
     (let hdr = cfg_HandshakeHeader (gc_config s);
          (err, received, c) = net_ReadFull N (conns s ! h) (replicate (length hdr) 0);
          s = set_conn h c s
      in case err of
           Some err \<Rightarrow>
             ec_return k (go_status Go_Unavailable (''handshake read: '' @ err))
               ((conn_Close N h s)\<lparr>connectMu := False\<rparr>)
         | None \<Rightarrow>
             if received \<noteq> hdr then
               ec_return k (go_status Go_FailedPrecondition ''handshake mismatch'')
                 ((conn_Close N h s)\<lparr>connectMu := False\<rparr>)
             else (EC_install k h, s))"

text \<open>The last section under \<open>mu\<close>, and the start of the read loop after it.\<close>

definition ensureConnected_install :: "'c net \<Rightarrow> go_caller \<Rightarrow> nat \<Rightarrow> 'c go_chan \<Rightarrow> go_pc \<times> 'c go_chan" where
  "ensureConnected_install N k h s =
     (if gc_closed s then ec_return k channel_closed ((conn_Close N h s)\<lparr>connectMu := False\<rparr>)
      else
        let gen = gc_gen s + 1
        in (EC_spawn k h gen, s\<lparr>gc_gen := gen, gc_conn := Some h, gc_connected := True\<rparr>))"

definition ensureConnected_spawn :: "go_caller \<Rightarrow> nat \<Rightarrow> u64 \<Rightarrow> 'c go_chan \<Rightarrow> go_pc \<times> 'c go_chan" where
  "ensureConnected_spawn k h gen s =
     ec_return k StatusOK (s\<lparr>gos := gos s @ [RL_read h gen], connectMu := False\<rparr>)"

subsection \<open>AsyncUnaryCall\<close>

definition AsyncUnaryCall_register :: "u32 \<Rightarrow> bytes \<Rightarrow> go_cb \<Rightarrow> 'c go_chan \<Rightarrow> go_pc \<times> 'c go_chan" where
  "AsyncUnaryCall_register mid request cb s =
     (if gc_closed s then
        (CallCb cb (go_status Go_Cancelled ''channel closed'') [] (call_return cb), s)
      else case (gc_connected s, gc_conn s) of
        (True, Some h) \<Rightarrow>
          let callID = nextCallID s;
              s = s\<lparr>nextCallID := nextCallID s + 1\<rparr>;
              s = go_log (GoRegistered callID) (pending_set callID cb s);
              reqHdr = Go_FrameHeader_zero\<lparr>fh_Type := FrameRequest, fh_CallID := callID, fh_MethodID := mid,
                fh_PayloadSize := of_nat (length request)\<rparr>
          in (AC_lock reqHdr request h (gc_gen s) (call_return cb), s)
      | _ \<Rightarrow> (CallCb cb (go_status Go_Unavailable ''not connected'') [] (call_return cb), s))"

text \<open>\<open>WriteFrame\<close> under \<open>writeMu\<close>: its two writes, and what follows.\<close>

definition write_failed :: "string \<Rightarrow> u64 \<Rightarrow> go_pc \<Rightarrow> 'c go_chan \<Rightarrow> go_pc \<times> 'c go_chan" where
  "write_failed err gen next s =
     (TD_lock gen (go_status Go_Unavailable (''write: '' @ err)) next, s\<lparr>writeMu := False\<rparr>)"

definition AsyncUnaryCall_header ::
  "'c net \<Rightarrow> Go_FrameHeader \<Rightarrow> bytes \<Rightarrow> nat \<Rightarrow> u64 \<Rightarrow> go_pc \<Rightarrow> 'c go_chan \<Rightarrow> go_pc \<times> 'c go_chan" where
  "AsyncUnaryCall_header N hdr request h gen next s =
     (case conn_Write N h (Go_Serialize hdr) s of
        (Some err, s) \<Rightarrow> write_failed err gen next s
      | (None, s) \<Rightarrow>
          if length request > 0 then (AC_payload hdr request h gen next, s)
          else (next, s\<lparr>writeMu := False\<rparr>))"

definition AsyncUnaryCall_payload ::
  "'c net \<Rightarrow> bytes \<Rightarrow> nat \<Rightarrow> u64 \<Rightarrow> go_pc \<Rightarrow> 'c go_chan \<Rightarrow> go_pc \<times> 'c go_chan" where
  "AsyncUnaryCall_payload N request h gen next s =
     (case conn_Write N h request s of
        (Some err, s) \<Rightarrow> write_failed err gen next s
      | (None, s) \<Rightarrow> (next, s\<lparr>writeMu := False\<rparr>))"

subsection \<open>readLoop\<close>

definition readLoop_read :: "'c net \<Rightarrow> nat \<Rightarrow> u64 \<Rightarrow> 'c go_chan \<Rightarrow> go_pc \<times> 'c go_chan" where
  "readLoop_read N h gen s =
     (let (r, c) = Go_ReadFrame N (conns s ! h); s = set_conn h c s
      in case r of
           Inl err \<Rightarrow> (TD_lock gen (go_status Go_Unavailable (''read: '' @ err)) Finished, s)
         | Inr (hdr, payload) \<Rightarrow> (RL_frame h gen hdr payload, s))"

definition readLoop_frame ::
  "nat \<Rightarrow> u64 \<Rightarrow> Go_FrameHeader \<Rightarrow> bytes \<Rightarrow> 'c go_chan \<Rightarrow> go_pc \<times> 'c go_chan" where
  "readLoop_frame h gen hdr payload s =
     (if fh_Type hdr = FramePush then
        (RL_read h gen, if cfg_OnPush (gc_config s) then go_log (GoPushed (fh_MethodID hdr) payload) s else s)
      else if fh_Type hdr = FrameResponse then
        (case map_of (gc_pending s) (fh_CallID hdr) of
           None \<Rightarrow> (RL_read h gen, s)
         | Some cb \<Rightarrow>
             let s = s\<lparr>gc_pending := filter (\<lambda>(k, _). k \<noteq> fh_CallID hdr) (gc_pending s)\<rparr>;
                 code = go_code_of_wire (fh_StatusCode hdr)
             in if code \<noteq> Go_OK then (CallCb cb (go_status code ''remote error'') [] (RL_read h gen), s)
                else (CallCb cb StatusOK payload (RL_read h gen), s))
      else (TD_lock gen (go_status Go_Internal ''unexpected frame type'') Finished, s))"

subsection \<open>teardown and Close\<close>

text \<open>What \<open>teardown\<close> and \<open>Close\<close> do under \<open>mu\<close> once they are to take effect.\<close>

definition disconnect :: "Go_Status \<Rightarrow> go_pc \<Rightarrow> 'c go_chan \<Rightarrow> go_pc \<times> 'c go_chan" where
  "disconnect st next s =
     (let conn = gc_conn s; snapshot = map snd (gc_pending s);
          s = s\<lparr>gc_gen := gc_gen s + 1, gc_conn := None, gc_connected := False, gc_pending := []\<rparr>
      in case conn of
           Some h \<Rightarrow> (TD_close h st snapshot next, s)
         | None \<Rightarrow> (TD_calls st snapshot next, s))"

definition teardown :: "u64 \<Rightarrow> Go_Status \<Rightarrow> go_pc \<Rightarrow> 'c go_chan \<Rightarrow> go_pc \<times> 'c go_chan" where
  "teardown gen st next s = (if gen \<noteq> gc_gen s then (next, s) else disconnect st next s)"

definition Go_Close :: "'c go_chan \<Rightarrow> go_pc \<times> 'c go_chan" where
  "Go_Close s =
     (if gc_closed s then (Finished, s)
      else disconnect (go_status Go_Cancelled ''channel closed'') Finished (s\<lparr>gc_closed := True\<rparr>))"

text \<open>The loop over the snapshot; the order in which a map is ranged over is not specified.\<close>

definition call_one :: "nat \<Rightarrow> Go_Status \<Rightarrow> go_cb list \<Rightarrow> go_pc \<Rightarrow> 'c go_chan \<Rightarrow> go_pc \<times> 'c go_chan" where
  "call_one i st cbs next s =
     (if cbs = [] then (next, s)
      else let i = i mod length cbs
           in (CallCb (cbs ! i) st [] (TD_calls st (take i cbs @ drop (Suc i) cbs) next), s))"

subsection \<open>Goroutines\<close>

text \<open>\<open>r := <-done\<close>: what the closure sent.\<close>

fun done_result :: "nat \<Rightarrow> go_event list \<Rightarrow> (Go_Status \<times> bytes) option" where
  "done_result k [] = None"
| "done_result k (GoCalled cb st p # es) = (if cb = GoDone k then Some (st, p) else done_result k es)"
| "done_result k (_ # es) = done_result k es"

text \<open>
  The next step of a goroutine, or \<open>None\<close> if it has to wait. What the runtime decides comes in: the
  outcome of \<open>net.Dial\<close> and the next entry of a map.
\<close>

fun turn :: "'c net \<Rightarrow> string + 'c \<Rightarrow> nat \<Rightarrow> go_pc \<Rightarrow> 'c go_chan \<Rightarrow> (go_pc \<times> 'c go_chan) option" where
  "turn N r i (EC_check k) s =
     (case ensureConnected_check s of Some st \<Rightarrow> Some (ec_return k st s) | None \<Rightarrow> Some (EC_lock k, s))"
| "turn N r i (EC_lock k) s = (if connectMu s then None else Some (EC_recheck k, s\<lparr>connectMu := True\<rparr>))"
| "turn N r i (EC_recheck k) s =
     (case ensureConnected_check s of
        Some st \<Rightarrow> Some (ec_return k st (s\<lparr>connectMu := False\<rparr>))
      | None \<Rightarrow> Some (EC_dial k, s))"
| "turn N r i (EC_dial k) s = Some (ensureConnected_dial k r s)"
| "turn N r i (EC_write k h) s = Some (ensureConnected_write N k h s)"
| "turn N r i (EC_read k h) s = Some (ensureConnected_read N k h s)"
| "turn N r i (EC_install k h) s = Some (ensureConnected_install N k h s)"
| "turn N r i (EC_spawn k h gen) s = Some (ensureConnected_spawn k h gen s)"
| "turn N r i (AC_register mid req cb) s = Some (AsyncUnaryCall_register mid req cb s)"
| "turn N r i (AC_lock hdr req h gen next) s =
     (if writeMu s then None else Some (AC_header hdr req h gen next, s\<lparr>writeMu := True\<rparr>))"
| "turn N r i (AC_header hdr req h gen next) s = Some (AsyncUnaryCall_header N hdr req h gen next s)"
| "turn N r i (AC_payload hdr req h gen next) s = Some (AsyncUnaryCall_payload N req h gen next s)"
| "turn N r i (RL_read h gen) s = Some (readLoop_read N h gen s)"
| "turn N r i (RL_frame h gen hdr payload) s = Some (readLoop_frame h gen hdr payload s)"
| "turn N r i (TD_lock gen st next) s = Some (teardown gen st next s)"
| "turn N r i (TD_close h st cbs next) s = Some (TD_calls st cbs next, conn_Close N h s)"
| "turn N r i (TD_calls st cbs next) s = Some (call_one i st cbs next s)"
| "turn N r i CL_lock s = Some (Go_Close s)"
| "turn N r i (CallCb cb st payload next) s = Some (next, go_log (GoCalled cb st payload) s)"
| "turn N r i (AwaitDone k) s =
     (case done_result k (gc_events s) of
        Some (st, payload) \<Rightarrow> Some (Finished, go_log (GoUnaryReturned k st payload) s)
      | None \<Rightarrow> None)"
| "turn N r i Finished s = None"

text \<open>The calls of the application.\<close>

definition go_spawn :: "go_pc \<Rightarrow> 'c go_chan \<Rightarrow> 'c go_chan" where
  "go_spawn pc s = s\<lparr>gos := gos s @ [pc]\<rparr>"

definition Go_AsyncUnaryCall :: "u32 \<Rightarrow> bytes \<Rightarrow> go_cb \<Rightarrow> 'c go_chan \<Rightarrow> 'c go_chan" where
  "Go_AsyncUnaryCall mid request cb s = go_spawn (EC_check (ForCall mid request cb)) (go_log (GoAsked cb) s)"

definition Go_UnaryCall :: "u32 \<Rightarrow> bytes \<Rightarrow> 'c go_chan \<Rightarrow> 'c go_chan" where
  "Go_UnaryCall mid request s =
     (let done = GoDone (dones s) in Go_AsyncUnaryCall mid request done (s\<lparr>dones := dones s + 1\<rparr>))"

definition Go_Connect :: "'c go_chan \<Rightarrow> 'c go_chan" where
  "Go_Connect s = go_spawn (EC_check ForConnect) s"

definition Go_ConnectAsync :: "nat \<Rightarrow> 'c go_chan \<Rightarrow> 'c go_chan" where
  "Go_ConnectAsync n s =
     go_spawn (EC_check (ForConnectAsync (GoConnected n))) (go_log (GoAsked (GoConnected n)) s)"

definition Go_SetInterceptor :: "bool \<Rightarrow> 'c go_chan \<Rightarrow> 'c go_chan" where
  "Go_SetInterceptor fn s = s\<lparr>gc_interceptor := fn\<rparr>"

definition Go_Tracing :: "'c go_chan \<Rightarrow> bool" where
  "Go_Tracing s = gc_interceptor s"

definition Go_Trace :: "string \<Rightarrow> string \<Rightarrow> string \<Rightarrow> Go_Status \<Rightarrow> 'c go_chan \<Rightarrow> 'c go_chan" where
  "Go_Trace m requestText responseText st s =
     (if gc_interceptor s then go_log (GoTraced m requestText responseText st) s else s)"

text \<open>One step: a call, a turn of one of the goroutines, or something that happens on the network.\<close>

inductive go_step :: "'c net \<Rightarrow> 'c go_chan \<Rightarrow> 'c go_chan \<Rightarrow> bool" for N where
  call: "go_step N s (Go_AsyncUnaryCall mid req (GoUser n) s)"
| unary: "go_step N s (Go_UnaryCall mid req s)"
| connect: "go_step N s (Go_Connect s)"
| connect_async: "go_step N s (Go_ConnectAsync n s)"
| close: "go_step N s (go_spawn CL_lock s)"
| set_interceptor: "go_step N s (Go_SetInterceptor fn s)"
| trace: "go_step N s (Go_Trace m rq rs st s)"
| run: "j < length (gos s) \<Longrightarrow> turn N r i (gos s ! j) s = Some (pc, t) \<Longrightarrow>
    go_step N s (t\<lparr>gos := (gos t)[j := pc]\<rparr>)"
| network: "h < length (conns s) \<Longrightarrow> go_step N s (set_conn h c s)"

definition go_init :: "'c go_chan \<Rightarrow> bool" where
  "go_init s \<longleftrightarrow> (\<exists>host port config. s = Go_CreateChannel host port config)"

end
