(* ===== verification/Go_Channel_Inv.thy ===== *)
theory Go_Channel_Inv
  imports Go_Channel "HOL-Library.Multiset"
begin

text \<open>
  The turns of the goroutines of the Go channel, case by case, and the invariants of every reachable
  state: callbacks are accounted for, the connection has its reader, the locks their holders, and call
  ids are consecutive.
\<close>

subsection \<open>Fields\<close>

lemma go_log_fields [simp]:
  "gc_pending (go_log e s) = gc_pending s" "gos (go_log e s) = gos s" "gc_closed (go_log e s) = gc_closed s"
  "gc_connected (go_log e s) = gc_connected s" "gc_conn (go_log e s) = gc_conn s" "gc_gen (go_log e s) = gc_gen s"
  "connectMu (go_log e s) = connectMu s" "writeMu (go_log e s) = writeMu s" "conns (go_log e s) = conns s"
  "nextCallID (go_log e s) = nextCallID s" "gc_config (go_log e s) = gc_config s" "dones (go_log e s) = dones s"
  "gc_events (go_log e s) = gc_events s @ [e]"
  by (simp_all add: go_log_def)

lemma set_conn_fields [simp]:
  "gc_pending (set_conn h c s) = gc_pending s" "gos (set_conn h c s) = gos s"
  "gc_closed (set_conn h c s) = gc_closed s" "gc_connected (set_conn h c s) = gc_connected s"
  "gc_conn (set_conn h c s) = gc_conn s" "gc_gen (set_conn h c s) = gc_gen s"
  "connectMu (set_conn h c s) = connectMu s" "writeMu (set_conn h c s) = writeMu s"
  "conns (set_conn h c s) = (conns s)[h := c]" "nextCallID (set_conn h c s) = nextCallID s"
  "gc_config (set_conn h c s) = gc_config s" "gc_events (set_conn h c s) = gc_events s" "dones (set_conn h c s) = dones s"
  by (simp_all add: set_conn_def)

lemma conn_Close_fields [simp]:
  "gc_pending (conn_Close N h s) = gc_pending s" "gos (conn_Close N h s) = gos s"
  "gc_closed (conn_Close N h s) = gc_closed s" "gc_connected (conn_Close N h s) = gc_connected s"
  "gc_conn (conn_Close N h s) = gc_conn s" "gc_gen (conn_Close N h s) = gc_gen s"
  "connectMu (conn_Close N h s) = connectMu s" "writeMu (conn_Close N h s) = writeMu s"
  "nextCallID (conn_Close N h s) = nextCallID s" "gc_config (conn_Close N h s) = gc_config s"
  "gc_events (conn_Close N h s) = gc_events s" "dones (conn_Close N h s) = dones s"
  "length (conns (conn_Close N h s)) = length (conns s)"
  by (simp_all add: conn_Close_def)

lemma conn_Write_fields:
  assumes "conn_Write N h b s = (err, t)"
  shows "gc_pending t = gc_pending s" "gos t = gos s" "gc_closed t = gc_closed s" "gc_connected t = gc_connected s"
    "gc_conn t = gc_conn s" "gc_gen t = gc_gen s" "connectMu t = connectMu s" "writeMu t = writeMu s"
    "nextCallID t = nextCallID s" "gc_config t = gc_config s" "length (conns t) = length (conns s)" "dones t = dones s"
    "gc_events t = gc_events s @ [GoWrite h b (err = None)]"
  using assms by (auto simp: conn_Write_def case_prod_unfold Let_def)

lemma pending_set_fields [simp]:
  "gos (pending_set k cb s) = gos s" "gc_closed (pending_set k cb s) = gc_closed s"
  "gc_connected (pending_set k cb s) = gc_connected s" "gc_conn (pending_set k cb s) = gc_conn s"
  "gc_gen (pending_set k cb s) = gc_gen s" "connectMu (pending_set k cb s) = connectMu s"
  "writeMu (pending_set k cb s) = writeMu s" "nextCallID (pending_set k cb s) = nextCallID s"
  "gc_config (pending_set k cb s) = gc_config s" "conns (pending_set k cb s) = conns s"
  by (simp_all add: pending_set_def split: option.split)

lemma ec_return_fields [simp]:
  "gc_connected (snd (ec_return k st s)) = gc_connected s" "gc_conn (snd (ec_return k st s)) = gc_conn s"
  "gc_closed (snd (ec_return k st s)) = gc_closed s" "gc_gen (snd (ec_return k st s)) = gc_gen s"
  "connectMu (snd (ec_return k st s)) = connectMu s" "writeMu (snd (ec_return k st s)) = writeMu s"
  "nextCallID (snd (ec_return k st s)) = nextCallID s" "conns (snd (ec_return k st s)) = conns s"
  "gc_pending (snd (ec_return k st s)) = gc_pending s" "gos (snd (ec_return k st s)) = gos s"
  by (cases k; simp)+

subsection \<open>What a turn can do\<close>

text \<open>The operations on a connection, and a state in which only connections and log have moved on.\<close>

definition conn_op :: "'c net \<Rightarrow> 'c \<Rightarrow> 'c \<Rightarrow> bool" where
  "conn_op N c d \<longleftrightarrow>
     (\<exists>buf. d = snd (snd (net_ReadFull N c buf))) \<or> (\<exists>b. d = snd (net_Write N c b)) \<or> d = snd (net_Close N c)"

definition io_effect :: "'c net \<Rightarrow> go_event list \<Rightarrow> 'c go_chan \<Rightarrow> 'c go_chan \<Rightarrow> bool" where
  "io_effect N ws s u \<longleftrightarrow>
     (\<exists>cs. u = s\<lparr>conns := cs, gc_events := gc_events s @ ws\<rparr> \<and> length cs = length (conns s) \<and>
        (\<forall>h < length cs. (conn_op N)\<^sup>*\<^sup>* (conns s ! h) (cs ! h)))"

lemma io_effect_set_conn:
  assumes "(conn_op N)\<^sup>*\<^sup>* (conns s ! h) c"
  shows "io_effect N [] s (set_conn h c s)"
proof -
  have "(conn_op N)\<^sup>*\<^sup>* (conns s ! g) ((conns s)[h := c] ! g)" if "g < length (conns s)" for g
    using assms that by (cases "g = h") simp_all
  then show ?thesis unfolding io_effect_def set_conn_def by (intro exI [of _ "(conns s)[h := c]"]) simp
qed

lemma io_effect_refl: "io_effect N [] s s"
  unfolding io_effect_def by (intro exI [of _ "conns s"]) simp

lemma io_effect_trans:
  assumes "io_effect N ws s t" and "io_effect N vs t u"
  shows "io_effect N (ws @ vs) s u"
proof -
  obtain cs ds where "t = s\<lparr>conns := cs, gc_events := gc_events s @ ws\<rparr>" "length cs = length (conns s)"
    "\<forall>h < length cs. (conn_op N)\<^sup>*\<^sup>* (conns s ! h) (cs ! h)"
    and "u = t\<lparr>conns := ds, gc_events := gc_events t @ vs\<rparr>" "length ds = length (conns t)"
    "\<forall>h < length ds. (conn_op N)\<^sup>*\<^sup>* (conns t ! h) (ds ! h)"
    using assms by (auto simp: io_effect_def)
  then show ?thesis unfolding io_effect_def
    by (intro exI [of _ ds]) (auto intro: rtranclp_trans)
qed

lemma io_effect_Write:
  assumes "conn_Write N h b s = (err, t)"
  shows "io_effect N [GoWrite h b (err = None)] s t"
proof -
  let ?c = "snd (net_Write N (conns s ! h) b)"
  have "io_effect N [] s (set_conn h ?c s)"
    by (rule io_effect_set_conn) (rule r_into_rtranclp, auto simp: conn_op_def)
  moreover have "t = go_log (GoWrite h b (err = None)) (set_conn h ?c s)"
    using assms by (auto simp: conn_Write_def case_prod_unfold Let_def)
  ultimately show ?thesis by (auto simp: io_effect_def go_log_def)
qed

lemma io_effect_Close: "io_effect N [] s (conn_Close N h s)"
  unfolding conn_Close_def by (rule io_effect_set_conn) (rule r_into_rtranclp, simp add: conn_op_def)

lemma io_effect_ReadFull:
  "net_ReadFull N (conns s ! h) buf = (e, b, c) \<Longrightarrow> io_effect N [] s (set_conn h c s)"
  by (rule io_effect_set_conn) (rule r_into_rtranclp, unfold conn_op_def, metis snd_conv)

lemma Go_ReadFrame_ops: "Go_ReadFrame N c = (x, d) \<Longrightarrow> (conn_op N)\<^sup>*\<^sup>* c d"
proof -
  assume read: "Go_ReadFrame N c = (x, d)"
  obtain e b c1 where 1: "net_ReadFull N c (replicate FrameHeaderSize 0) = (e, b, c1)" by (metis surj_pair)
  obtain e' b' c2 where 2: "net_ReadFull N c1 (replicate (unat (fh_PayloadSize (DeserializeFrameHeader b))) 0) = (e', b', c2)"
    by (metis surj_pair)
  have "conn_op N c c1" "conn_op N c1 c2" unfolding conn_op_def using 1 2 by (metis snd_conv)+
  moreover have "d = c1 \<or> d = c2" using read 1 2
    by (cases e; cases e'; cases "fh_PayloadSize (DeserializeFrameHeader b) > 0") (auto simp: Go_ReadFrame_def Let_def)
  ultimately show ?thesis by (meson converse_rtranclp_into_rtranclp r_into_rtranclp)
qed

lemma io_effectE:
  assumes "io_effect N ws s u"
  obtains cs where "u = s\<lparr>conns := cs, gc_events := gc_events s @ ws\<rparr>" and "length cs = length (conns s)"
  using assms by (auto simp: io_effect_def)

text \<open>Who is setting up a connection, and which connection a goroutine that writes it has.\<close>

fun setup_caller :: "go_pc \<Rightarrow> go_caller option" where
  "setup_caller (EC_recheck k) = Some k"
| "setup_caller (EC_dial k) = Some k"
| "setup_caller (EC_write k h) = Some k"
| "setup_caller (EC_read k h) = Some k"
| "setup_caller (EC_install k h) = Some k"
| "setup_caller _ = None"

fun setup_conn :: "go_pc \<Rightarrow> nat option" where
  "setup_conn (EC_write k h) = Some h"
| "setup_conn (EC_read k h) = Some h"
| "setup_conn (EC_install k h) = Some h"
| "setup_conn _ = None"

text \<open>The outcomes of the operations that have several.\<close>

lemma ensureConnected_write_cases:
  "(\<exists>b u. io_effect N [GoWrite h b True] s u \<and> ensureConnected_write N k h s = (EC_read k h, u)) \<or>
   (\<exists>st b u. io_effect N [GoWrite h b False] s u \<and>
      ensureConnected_write N k h s = ec_return k st (u\<lparr>connectMu := False\<rparr>))"
proof -
  obtain e t where w: "conn_Write N h (cfg_HandshakeHeader (gc_config s)) s = (e, t)" by fastforce
  note io = io_effect_Write [OF w] io_effect_trans [OF io_effect_Write [OF w] io_effect_Close [of N t h]]
  show ?thesis
  proof (cases e)
    case None
    then have "ensureConnected_write N k h s = (EC_read k h, t)" using w by (simp add: ensureConnected_write_def)
    with io(1) None show ?thesis by auto
  next
    case (Some err)
    then have "ensureConnected_write N k h s = ec_return k (go_status Go_Unavailable (''handshake write: '' @ err))
        ((conn_Close N h t)\<lparr>connectMu := False\<rparr>)" using w by (simp add: ensureConnected_write_def)
    moreover have "io_effect N [GoWrite h (cfg_HandshakeHeader (gc_config s)) False] s (conn_Close N h t)"
      using io(2) Some by simp
    ultimately show ?thesis by blast
  qed
qed

lemma ensureConnected_read_cases:
  "(\<exists>u. io_effect N [] s u \<and> ensureConnected_read N k h s = (EC_install k h, u)) \<or>
   (\<exists>st u. io_effect N [] s u \<and> ensureConnected_read N k h s = ec_return k st (u\<lparr>connectMu := False\<rparr>))"
proof -
  obtain e b c where w: "net_ReadFull N (conns s ! h) (replicate (length (cfg_HandshakeHeader (gc_config s))) 0) = (e, b, c)"
    by (metis surj_pair)
  let ?u = "conn_Close N h (set_conn h c s)"
  have io: "io_effect N [] s (set_conn h c s)" "io_effect N [] s ?u"
    using io_effect_ReadFull [OF w] io_effect_trans [OF io_effect_ReadFull [OF w] io_effect_Close [of N _ h]] by simp_all
  have "\<exists>st. ensureConnected_read N k h s = ec_return k st (?u\<lparr>connectMu := False\<rparr>)"
    if "\<not> (e = None \<and> b = cfg_HandshakeHeader (gc_config s))"
    using that w by (cases e) (auto simp: ensureConnected_read_def Let_def)
  moreover have "ensureConnected_read N k h s = (EC_install k h, set_conn h c s)"
    if "e = None \<and> b = cfg_HandshakeHeader (gc_config s)"
    using that w by (simp add: ensureConnected_read_def Let_def)
  ultimately show ?thesis using io by blast
qed

lemma AsyncUnaryCall_register_cases:
  "(\<exists>st. AsyncUnaryCall_register mid req cb s = (CallCb cb st [] (call_return cb), s)) \<or>
   (\<exists>h hdr. \<not> gc_closed s \<and> gc_connected s \<and> gc_conn s = Some h \<and>
      AsyncUnaryCall_register mid req cb s = (AC_lock hdr req h (gc_gen s) (call_return cb),
        go_log (GoRegistered (nextCallID s)) (pending_set (nextCallID s) cb (s\<lparr>nextCallID := nextCallID s + 1\<rparr>))))"
  by (cases "gc_closed s"; cases "gc_connected s"; cases "gc_conn s") (simp_all add: AsyncUnaryCall_register_def Let_def)

lemma AsyncUnaryCall_header_cases:
  "(\<exists>u. io_effect N [GoWrite h (Go_Serialize hdr) True] s u \<and>
      (AsyncUnaryCall_header N hdr req h gen nxt s = (AC_payload hdr req h gen nxt, u) \<or>
       AsyncUnaryCall_header N hdr req h gen nxt s = (nxt, u\<lparr>writeMu := False\<rparr>))) \<or>
   (\<exists>u st. io_effect N [GoWrite h (Go_Serialize hdr) False] s u \<and>
      AsyncUnaryCall_header N hdr req h gen nxt s = (TD_lock gen st nxt, u\<lparr>writeMu := False\<rparr>))"
proof -
  obtain e t where w: "conn_Write N h (Go_Serialize hdr) s = (e, t)" by fastforce
  from io_effect_Write [OF w] w show ?thesis
    by (cases e) (auto simp: AsyncUnaryCall_header_def write_failed_def)
qed

lemma AsyncUnaryCall_payload_cases:
  "(\<exists>u. io_effect N [GoWrite h req True] s u \<and> AsyncUnaryCall_payload N req h gen nxt s = (nxt, u\<lparr>writeMu := False\<rparr>)) \<or>
   (\<exists>u st. io_effect N [GoWrite h req False] s u \<and>
      AsyncUnaryCall_payload N req h gen nxt s = (TD_lock gen st nxt, u\<lparr>writeMu := False\<rparr>))"
proof -
  obtain e t where w: "conn_Write N h req s = (e, t)" by fastforce
  from io_effect_Write [OF w] w show ?thesis
    by (cases e) (auto simp: AsyncUnaryCall_payload_def write_failed_def)
qed

lemma readLoop_read_cases:
  "(\<exists>hdr payload u. io_effect N [] s u \<and> Inr (hdr, payload) = fst (Go_ReadFrame N (conns s ! h)) \<and>
      readLoop_read N h gen s = (RL_frame h gen hdr payload, u)) \<or>
   (\<exists>st u. io_effect N [] s u \<and> readLoop_read N h gen s = (TD_lock gen st Finished, u))"
proof -
  obtain x c where x: "Go_ReadFrame N (conns s ! h) = (x, c)" by fastforce
  from io_effect_set_conn [OF Go_ReadFrame_ops [OF x]] x show ?thesis
    by (cases x) (auto simp: readLoop_read_def)
qed

lemma readLoop_frame_cases:
  "readLoop_frame h gen hdr payload s = (RL_read h gen, s) \<or>
   readLoop_frame h gen hdr payload s = (RL_read h gen, go_log (GoPushed (fh_MethodID hdr) payload) s) \<or>
   (\<exists>st. readLoop_frame h gen hdr payload s = (TD_lock gen st Finished, s)) \<or>
   (\<exists>cb st b. map_of (gc_pending s) (fh_CallID hdr) = Some cb \<and>
      readLoop_frame h gen hdr payload s =
        (CallCb cb st b (RL_read h gen), s\<lparr>gc_pending := filter (\<lambda>(k, _). k \<noteq> fh_CallID hdr) (gc_pending s)\<rparr>))"
  by (cases "map_of (gc_pending s) (fh_CallID hdr)") (simp_all add: readLoop_frame_def Let_def)

lemma call_one_cases:
  "cbs = [] \<and> call_one i st cbs nxt s = (nxt, s) \<or>
   (\<exists>cb cbs'. mset cbs = {#cb#} + mset cbs' \<and> call_one i st cbs nxt s = (CallCb cb st [] (TD_calls st cbs' nxt), s))"
proof (cases "cbs = []")
  case False
  let ?i = "i mod length cbs"
  have "cbs = take ?i cbs @ cbs ! ?i # drop (Suc ?i) cbs" using False by (simp add: id_take_nth_drop)
  from arg_cong [OF this, of mset]
  have "mset cbs = {#cbs ! ?i#} + mset (take ?i cbs @ drop (Suc ?i) cbs)" by simp
  with False show ?thesis by (auto simp: call_one_def Let_def simp del: mset_append)
qed (simp add: call_one_def)

text \<open>
  Every turn is one of these. The cases of the setup that give up, and those of a frame that was
  written or could not be, are taken together.
\<close>

lemma turn_cases:
  assumes "turn N r i pc s = Some p"
  obtains
    (connect) k where "pc = EC_check k" "p = (EC_lock k, s)"
  | (checked) k st where "pc = EC_check k" "p = ec_return k st s"
  | (locked) k where "pc = EC_lock k" "\<not> connectMu s" "p = (EC_recheck k, s\<lparr>connectMu := True\<rparr>)"
  | (recheck) k where "pc = EC_recheck k" "\<not> gc_closed s" "p = (EC_dial k, s)"
  | (give_up) k st ws u where "setup_caller pc = Some k" "io_effect N ws s u"
      "p = ec_return k st (u\<lparr>connectMu := False\<rparr>)"
      "ws = [] \<or> (\<exists>h b. setup_conn pc = Some h \<and> ws = [GoWrite h b False])"
  | (dialled) k c pc' where "pc = EC_dial k" "p = (pc', s\<lparr>conns := conns s @ [c]\<rparr>)"
      "pc' = EC_write k (length (conns s)) \<or> pc' = EC_install k (length (conns s))"
  | (wrote_handshake) k h b u where "pc = EC_write k h" "io_effect N [GoWrite h b True] s u" "p = (EC_read k h, u)"
  | (read_handshake) k h u where "pc = EC_read k h" "io_effect N [] s u" "p = (EC_install k h, u)"
  | (install) k h where "pc = EC_install k h" "\<not> gc_closed s"
      "p = (EC_spawn k h (gc_gen s + 1), s\<lparr>gc_gen := gc_gen s + 1, gc_conn := Some h, gc_connected := True\<rparr>)"
  | (spawn) k h gen where "pc = EC_spawn k h gen"
      "p = ec_return k StatusOK (s\<lparr>gos := gos s @ [RL_read h gen], connectMu := False\<rparr>)"
  | (refused) mid req cb st where "pc = AC_register mid req cb" "p = (CallCb cb st [] (call_return cb), s)"
  | (register) mid req cb hdr h where "pc = AC_register mid req cb" "\<not> gc_closed s" "gc_connected s" "gc_conn s = Some h"
      "p = (AC_lock hdr req h (gc_gen s) (call_return cb),
            go_log (GoRegistered (nextCallID s)) (pending_set (nextCallID s) cb (s\<lparr>nextCallID := nextCallID s + 1\<rparr>)))"
  | (write_locked) hdr req h gen nxt where "pc = AC_lock hdr req h gen nxt" "\<not> writeMu s"
      "p = (AC_header hdr req h gen nxt, s\<lparr>writeMu := True\<rparr>)"
  | (header) hdr req h gen nxt u where "pc = AC_header hdr req h gen nxt"
      "io_effect N [GoWrite h (Go_Serialize hdr) True] s u" "p = (AC_payload hdr req h gen nxt, u)"
  | (written) hdr req h gen nxt b u where "pc = AC_header hdr req h gen nxt \<or> pc = AC_payload hdr req h gen nxt"
      "io_effect N [GoWrite h b True] s u" "p = (nxt, u\<lparr>writeMu := False\<rparr>)"
  | (write_error) hdr req h gen nxt b st u where "pc = AC_header hdr req h gen nxt \<or> pc = AC_payload hdr req h gen nxt"
      "io_effect N [GoWrite h b False] s u" "p = (TD_lock gen st nxt, u\<lparr>writeMu := False\<rparr>)"
  | (frame) h gen hdr payload u where "pc = RL_read h gen" "io_effect N [] s u" "p = (RL_frame h gen hdr payload, u)"
      "Inr (hdr, payload) = fst (Go_ReadFrame N (conns s ! h))"
  | (read_error) h gen st u where "pc = RL_read h gen \<or> (\<exists>hdr payload. pc = RL_frame h gen hdr payload)"
      "io_effect N [] s u" "p = (TD_lock gen st Finished, u)"
  | (ignored) h gen hdr payload where "pc = RL_frame h gen hdr payload" "p = (RL_read h gen, s)"
  | (pushed) h gen hdr payload mid where "pc = RL_frame h gen hdr payload"
      "p = (RL_read h gen, go_log (GoPushed mid payload) s)"
  | (response) h gen hdr payload cb st b where "pc = RL_frame h gen hdr payload"
      "map_of (gc_pending s) (fh_CallID hdr) = Some cb"
      "p = (CallCb cb st b (RL_read h gen), s\<lparr>gc_pending := filter (\<lambda>(k, _). k \<noteq> fh_CallID hdr) (gc_pending s)\<rparr>)"
  | (stale) gen st nxt where "pc = TD_lock gen st nxt" "gen \<noteq> gc_gen s" "p = (nxt, s)"
  | (down) st nxt where "pc = TD_lock (gc_gen s) st nxt" "p = disconnect st nxt s"
  | (close) st where "pc = CL_lock" "\<not> gc_closed s" "p = disconnect st Finished (s\<lparr>gc_closed := True\<rparr>)"
  | (close_again) "pc = CL_lock" "gc_closed s" "p = (Finished, s)"
  | (closed_conn) h st cbs nxt u where "pc = TD_close h st cbs nxt" "io_effect N [] s u" "p = (TD_calls st cbs nxt, u)"
  | (calls_done) st nxt where "pc = TD_calls st [] nxt" "p = (nxt, s)"
  | (call_next) st cbs cbs' cb nxt where "pc = TD_calls st cbs nxt" "p = (CallCb cb st [] (TD_calls st cbs' nxt), s)"
      "mset cbs = {#cb#} + mset cbs'"
  | (called) cb st b nxt where "pc = CallCb cb st b nxt" "p = (nxt, go_log (GoCalled cb st b) s)"
  | (result) k st b where "pc = AwaitDone k" "done_result k (gc_events s) = Some (st, b)"
      "p = (Finished, go_log (GoUnaryReturned k st b) s)"
proof -
  note eq = assms [symmetric]
  show ?thesis
  proof (cases pc)
    case (EC_check k)
    with eq connect checked show ?thesis by (cases "ensureConnected_check s") simp_all
  next
    case (EC_lock k)
    with eq locked show ?thesis by (cases "connectMu s") simp_all
  next
    case (EC_recheck k)
    show ?thesis
    proof (cases "ensureConnected_check s")
      case None
      with EC_recheck eq show ?thesis by (intro recheck) (simp_all add: ensureConnected_check_def split: if_splits)
    next
      case (Some st)
      with EC_recheck eq show ?thesis by (intro give_up [OF _ io_effect_refl]) simp_all
    qed
  next
    case (EC_dial k)
    show ?thesis
    proof (cases r)
      case (Inl err)
      with EC_dial eq show ?thesis by (intro give_up [OF _ io_effect_refl]) (simp_all add: ensureConnected_dial_def)
    next
      case (Inr c)
      with EC_dial eq show ?thesis by (intro dialled [of k "fst p" c]) (auto simp: ensureConnected_dial_def Let_def)
    qed
  next
    case (EC_write k h)
    with eq have p: "ensureConnected_write N k h s = p" by simp
    from ensureConnected_write_cases [of N h s k, unfolded p] show ?thesis
      by (elim disjE exE conjE)
        (rule wrote_handshake [OF EC_write], assumption+, rule give_up, auto simp: EC_write)
  next
    case (EC_read k h)
    with eq have p: "ensureConnected_read N k h s = p" by simp
    from ensureConnected_read_cases [of N s k h, unfolded p] show ?thesis
      by (elim disjE exE conjE) (rule read_handshake [OF EC_read], assumption+, rule give_up, auto simp: EC_read)
  next
    case (EC_install k h)
    show ?thesis
    proof (cases "gc_closed s")
      case True
      with EC_install eq show ?thesis
        by (intro give_up [OF _ io_effect_Close]) (simp_all add: ensureConnected_install_def)
    next
      case False
      with EC_install eq show ?thesis by (intro install) (simp_all add: ensureConnected_install_def Let_def)
    qed
  next
    case (EC_spawn k h gen)
    with eq show ?thesis by (intro spawn) (simp_all add: ensureConnected_spawn_def)
  next
    case (AC_register mid req cb)
    with eq have p: "AsyncUnaryCall_register mid req cb s = p" by simp
    from AsyncUnaryCall_register_cases [of mid req cb s, unfolded p] show ?thesis
      by (elim disjE exE conjE) (rule refused [OF AC_register], assumption, rule register [OF AC_register], assumption+)
  next
    case (AC_lock hdr req h gen nxt)
    with eq show ?thesis by (intro write_locked) (simp_all split: if_splits)
  next
    case (AC_header hdr req h gen nxt)
    with eq have p: "AsyncUnaryCall_header N hdr req h gen nxt s = p" by simp
    from AsyncUnaryCall_header_cases [of N h hdr s req gen nxt, unfolded p] show ?thesis
      by (elim disjE exE conjE)
        (rule header [OF AC_header], assumption+, rule written [OF disjI1 [OF AC_header]], assumption+,
         rule write_error [OF disjI1 [OF AC_header]], assumption+)
  next
    case (AC_payload hdr req h gen nxt)
    with eq have p: "AsyncUnaryCall_payload N req h gen nxt s = p" by simp
    from AsyncUnaryCall_payload_cases [of N h req s gen nxt, unfolded p] show ?thesis
      by (elim disjE exE conjE)
        (rule written [OF disjI2 [OF AC_payload]], assumption+, rule write_error [OF disjI2 [OF AC_payload]], assumption+)
  next
    case (RL_read h gen)
    with eq have p: "readLoop_read N h gen s = p" by simp
    from readLoop_read_cases [of N s h gen, unfolded p] show ?thesis
      by (elim disjE exE conjE) (rule frame [OF RL_read], assumption+, rule read_error [OF disjI1 [OF RL_read]], assumption+)
  next
    case (RL_frame h gen hdr payload)
    with eq have p: "readLoop_frame h gen hdr payload s = p" by simp
    from readLoop_frame_cases [of h gen hdr payload s, unfolded p] show ?thesis
      by (elim disjE exE conjE)
        (rule ignored [OF RL_frame], assumption, rule pushed [OF RL_frame], assumption,
         rule read_error [OF _ io_effect_refl], use RL_frame in blast, assumption,
         rule response [OF RL_frame], assumption+)
  next
    case (TD_lock gen st nxt)
    show ?thesis
    proof (cases "gen = gc_gen s")
      case True
      with TD_lock eq show ?thesis by (intro down) (simp_all add: teardown_def)
    next
      case False
      with TD_lock eq show ?thesis by (intro stale) (simp_all add: teardown_def)
    qed
  next
    case CL_lock
    with eq close close_again show ?thesis by (cases "gc_closed s") (simp_all add: Go_Close_def)
  next
    case (TD_close h st cbs nxt)
    with eq show ?thesis by (intro closed_conn [OF _ io_effect_Close]) simp_all
  next
    case (TD_calls st cbs nxt)
    with eq have p: "call_one i st cbs nxt s = p" by simp
    from call_one_cases [of cbs i st nxt s, unfolded p] show ?thesis
      by (elim disjE exE conjE) (rule calls_done, use TD_calls in simp, assumption, rule call_next [OF TD_calls], assumption+)
  next
    case (CallCb cb st b nxt)
    with eq show ?thesis by (intro called) simp_all
  next
    case (AwaitDone k)
    with eq show ?thesis by (cases "done_result k (gc_events s)") (auto intro: result)
  qed (use eq in simp)
qed

lemma io_effect_fields:
  assumes "io_effect N ws s u"
  shows "gc_pending u = gc_pending s" "gos u = gos s" "gc_closed u = gc_closed s" "gc_connected u = gc_connected s"
    "gc_conn u = gc_conn s" "gc_gen u = gc_gen s" "connectMu u = connectMu s" "writeMu u = writeMu s"
    "nextCallID u = nextCallID s" "gc_config u = gc_config s" "length (conns u) = length (conns s)"
    "gc_events u = gc_events s @ ws"
  using assms by (auto elim!: io_effectE)

lemma disconnect_fields [simp]:
  "gos (snd (disconnect st nxt s)) = gos s" "gc_pending (snd (disconnect st nxt s)) = []"
  "gc_connected (snd (disconnect st nxt s)) = False" "gc_conn (snd (disconnect st nxt s)) = None"
  "gc_closed (snd (disconnect st nxt s)) = gc_closed s" "connectMu (snd (disconnect st nxt s)) = connectMu s"
  "writeMu (snd (disconnect st nxt s)) = writeMu s" "nextCallID (snd (disconnect st nxt s)) = nextCallID s"
  "conns (snd (disconnect st nxt s)) = conns s" "gc_events (snd (disconnect st nxt s)) = gc_events s"
  by (simp_all add: disconnect_def Let_def split: option.split)

lemma disconnect_pc:
  "fst (disconnect st nxt s) = (case gc_conn s of Some h \<Rightarrow> TD_close h st (map snd (gc_pending s)) nxt
     | None \<Rightarrow> TD_calls st (map snd (gc_pending s)) nxt)"
  by (simp add: disconnect_def Let_def split: option.split)

subsection \<open>Callbacks\<close>

text \<open>The callbacks a goroutine will call, those asked for, called and lost so far.\<close>

fun caller_cb :: "go_caller \<Rightarrow> go_cb multiset" where
  "caller_cb (ForCall mid req cb) = {#cb#}"
| "caller_cb ForConnect = {#}"
| "caller_cb (ForConnectAsync cb) = {#cb#}"

fun holds_cb :: "go_pc \<Rightarrow> go_cb multiset" where
  "holds_cb (EC_check k) = caller_cb k"
| "holds_cb (EC_lock k) = caller_cb k"
| "holds_cb (EC_recheck k) = caller_cb k"
| "holds_cb (EC_dial k) = caller_cb k"
| "holds_cb (EC_write k h) = caller_cb k"
| "holds_cb (EC_read k h) = caller_cb k"
| "holds_cb (EC_install k h) = caller_cb k"
| "holds_cb (EC_spawn k h gen) = caller_cb k"
| "holds_cb (AC_register mid req cb) = {#cb#}"
| "holds_cb (AC_lock hdr req h gen next) = holds_cb next"
| "holds_cb (AC_header hdr req h gen next) = holds_cb next"
| "holds_cb (AC_payload hdr req h gen next) = holds_cb next"
| "holds_cb (TD_lock gen st next) = holds_cb next"
| "holds_cb (TD_close h st cbs next) = mset cbs + holds_cb next"
| "holds_cb (TD_calls st cbs next) = mset cbs + holds_cb next"
| "holds_cb (CallCb cb st payload next) = {#cb#} + holds_cb next"
| "holds_cb _ = {#}"

fun go_ev_asked :: "go_event \<Rightarrow> go_cb multiset" where
  "go_ev_asked (GoAsked cb) = {#cb#}"
| "go_ev_asked _ = {#}"

fun go_ev_done :: "go_event \<Rightarrow> go_cb multiset" where
  "go_ev_done (GoCalled cb st payload) = {#cb#}"
| "go_ev_done _ = {#}"

fun go_ev_lost :: "go_event \<Rightarrow> go_cb multiset" where
  "go_ev_lost (GoDropped cb) = {#cb#}"
| "go_ev_lost _ = {#}"

definition go_asked :: "'c go_chan \<Rightarrow> go_cb multiset" where
  "go_asked s = (\<Sum>e\<leftarrow>gc_events s. go_ev_asked e)"

definition go_called :: "'c go_chan \<Rightarrow> go_cb multiset" where
  "go_called s = (\<Sum>e\<leftarrow>gc_events s. go_ev_done e)"

definition go_lost :: "'c go_chan \<Rightarrow> go_cb multiset" where
  "go_lost s = (\<Sum>e\<leftarrow>gc_events s. go_ev_lost e)"

definition go_registered :: "'c go_chan \<Rightarrow> go_cb multiset" where
  "go_registered s = mset (map snd (gc_pending s))"

definition go_in_flight :: "'c go_chan \<Rightarrow> go_cb multiset" where
  "go_in_flight s = go_registered s + (\<Sum>pc\<leftarrow>gos s. holds_cb pc)"

text \<open>What a turn of a goroutine accounts for, apart from what goroutines hold.\<close>

definition kept :: "'c go_chan \<Rightarrow> go_cb multiset" where
  "kept s = go_registered s + go_called s + go_lost s"

lemmas go_counts = go_asked_def go_called_def go_lost_def go_registered_def kept_def

lemma map_of_split:
  "map_of xs k = Some v \<Longrightarrow> distinct (map fst xs) \<Longrightarrow>
   mset (map snd xs) = {#v#} + mset (map snd (filter (\<lambda>(k', _). k' \<noteq> k) xs))"
proof (induction xs)
  case (Cons x xs)
  obtain a b where x: "x = (a, b)" by (cases x)
  show ?case
  proof (cases "a = k")
    case True
    then have "\<forall>y \<in> set xs. fst y \<noteq> k" using Cons.prems(2) x by (auto simp: image_iff)
    then have "filter (\<lambda>(k', _). k' \<noteq> k) xs = xs" by (auto simp: filter_id_conv)
    then show ?thesis using True Cons.prems(1) x by simp
  next
    case False
    then show ?thesis using Cons x by simp
  qed
qed simp

lemma distinct_fst_filter: "distinct (map fst xs) \<Longrightarrow> distinct (map fst (filter P xs))"
  by (induction xs) auto

lemma pending_set_kept:
  assumes "distinct (map fst (gc_pending s))"
  shows "kept (pending_set k cb s) = kept s + {#cb#}" and "go_asked (pending_set k cb s) = go_asked s"
    and "distinct (map fst (gc_pending (pending_set k cb s)))"
proof -
  have "kept (pending_set k cb s) = kept s + {#cb#} \<and> go_asked (pending_set k cb s) = go_asked s \<and>
    distinct (map fst (gc_pending (pending_set k cb s)))"
  proof (cases "map_of (gc_pending s) k")
    case None
    then have "k \<notin> fst ` set (gc_pending s)" by (simp add: map_of_eq_None_iff)
    with None assms show ?thesis by (simp add: pending_set_def go_counts)
  next
    case (Some old)
    from map_of_split [OF this assms] Some assms show ?thesis
      by (auto simp: pending_set_def go_counts distinct_fst_filter)
  qed
  then show "kept (pending_set k cb s) = kept s + {#cb#}" and "go_asked (pending_set k cb s) = go_asked s"
    and "distinct (map fst (gc_pending (pending_set k cb s)))" by blast+
qed

lemma holds_call_return [simp]: "holds_cb (call_return cb) = {#}"
  by (cases cb) simp_all

lemma ec_return_kept:
  "kept (snd (ec_return k st s)) + holds_cb (fst (ec_return k st s)) = kept s + caller_cb k"
  "go_asked (snd (ec_return k st s)) = go_asked s"
  by (cases k; simp add: go_counts)+

lemma setup_holds: "setup_caller pc = Some k \<Longrightarrow> holds_cb pc = caller_cb k"
  by (cases pc) simp_all

lemma io_effect_kept:
  "io_effect N [] s u \<Longrightarrow> kept u = kept s \<and> go_asked u = go_asked s"
  "io_effect N [GoWrite h b x] s u \<Longrightarrow> kept u = kept s \<and> go_asked u = go_asked s"
  by (auto simp: go_counts elim!: io_effectE)

lemma disconnect_kept:
  "kept (snd (disconnect st nxt s)) + holds_cb (fst (disconnect st nxt s)) = kept s + holds_cb nxt"
  "go_asked (snd (disconnect st nxt s)) = go_asked s"
  by (simp_all add: disconnect_pc go_counts split: option.split)

text \<open>
  A turn moves callbacks and loses none; it adds at most the goroutine of a new read loop.
\<close>

definition turn_ok :: "go_pc \<Rightarrow> 'c go_chan \<Rightarrow> go_pc \<times> 'c go_chan \<Rightarrow> bool" where
  "turn_ok pc s p \<longleftrightarrow>
     kept (snd p) + holds_cb (fst p) = kept s + holds_cb pc \<and> go_asked (snd p) = go_asked s \<and>
     distinct (map fst (gc_pending (snd p))) \<and>
     (gos (snd p) = gos s \<or> (\<exists>h gen. gos (snd p) = gos s @ [RL_read h gen]))"

lemma kept_simps [simp]:
  "kept (s\<lparr>connectMu := b\<rparr>) = kept s" "kept (s\<lparr>writeMu := b\<rparr>) = kept s" "kept (s\<lparr>conns := cs\<rparr>) = kept s"
  "kept (s\<lparr>gos := gs\<rparr>) = kept s" "kept (s\<lparr>nextCallID := n\<rparr>) = kept s"
  "kept (s\<lparr>gc_gen := g, gc_conn := co, gc_connected := b\<rparr>) = kept s" "kept (set_conn h k s) = kept s"
  "kept (conn_Close N h s) = kept s" "kept (go_log (GoWrite h x b) s) = kept s" "kept (go_log (GoPushed m p) s) = kept s"
  "kept (go_log (GoUnaryReturned dn st p) s) = kept s" "kept (go_log (GoCalled cb st p) s) = kept s + {#cb#}"
  "kept (s\<lparr>gc_closed := b\<rparr>) = kept s" "kept (go_log (GoRegistered cid) s) = kept s"
  by (simp_all add: go_counts)

lemma go_asked_simps [simp]:
  "go_asked (s\<lparr>connectMu := b\<rparr>) = go_asked s" "go_asked (s\<lparr>writeMu := b\<rparr>) = go_asked s"
  "go_asked (s\<lparr>conns := cs\<rparr>) = go_asked s" "go_asked (s\<lparr>gos := gs\<rparr>) = go_asked s"
  "go_asked (s\<lparr>nextCallID := n\<rparr>) = go_asked s" "go_asked (s\<lparr>gc_pending := pe\<rparr>) = go_asked s"
  "go_asked (s\<lparr>gc_gen := g, gc_conn := co, gc_connected := b\<rparr>) = go_asked s"
  "go_asked (s\<lparr>gc_gen := g, gc_conn := co, gc_connected := b, gc_pending := pe\<rparr>) = go_asked s"
  "go_asked (set_conn h k s) = go_asked s" "go_asked (conn_Close N h s) = go_asked s"
  "go_asked (go_log (GoWrite h x b) s) = go_asked s" "go_asked (go_log (GoPushed m p) s) = go_asked s"
  "go_asked (go_log (GoUnaryReturned dn st p) s) = go_asked s" "go_asked (go_log (GoCalled cb st p) s) = go_asked s"
  "go_asked (s\<lparr>gc_closed := b\<rparr>) = go_asked s" "go_asked (go_log (GoRegistered cid) s) = go_asked s"
  by (simp_all add: go_counts)

lemma turn_turn_ok:
  assumes "turn N r i pc s = Some p" and d: "distinct (map fst (gc_pending s))"
  shows "turn_ok pc s p"
  using assms(1)
proof (cases rule: turn_cases)
  case (register mid req cb hdr h)
  have "distinct (map fst (gc_pending (s\<lparr>nextCallID := nextCallID s + 1\<rparr>)))" using d by simp
  from pending_set_kept [OF this, of "nextCallID s" cb] register show ?thesis by (simp add: turn_ok_def)
next
  case (response h gen hdr payload cb st b)
  with map_of_split [OF response(2) d] d show ?thesis
    by (simp add: turn_ok_def go_counts distinct_fst_filter)
next
  case (give_up k st ws u)
  with d io_effect_kept(1) [of N s u] io_effect_kept(2) [of N _ _ _ s u] show ?thesis
    by (auto simp: turn_ok_def ec_return_kept setup_holds io_effect_fields)
qed (use d in \<open>auto simp: turn_ok_def ec_return_kept disconnect_kept io_effect_fields dest: io_effect_kept\<close>)

definition go_balance :: "'c go_chan \<Rightarrow> bool" where
  "go_balance s \<longleftrightarrow>
     go_asked s = go_in_flight s + go_called s + go_lost s \<and> distinct (map fst (gc_pending s))"

lemma go_balance_kept:
  "go_balance s \<longleftrightarrow> go_asked s = kept s + (\<Sum>pc\<leftarrow>gos s. holds_cb pc) \<and> distinct (map fst (gc_pending s))"
  by (simp add: go_balance_def kept_def go_in_flight_def ac_simps)

lemma go_balance_run:
  assumes "go_balance s" and "j < length (gos s)" and "turn N r i (gos s ! j) s = Some (pc, t)"
  shows "go_balance (t\<lparr>gos := (gos t)[j := pc]\<rparr>)"
proof -
  have ok: "kept t + holds_cb pc = kept s + holds_cb (gos s ! j)" "go_asked t = go_asked s"
    "distinct (map fst (gc_pending t))" "gos t = gos s \<or> (\<exists>h gen. gos t = gos s @ [RL_read h gen])"
    using turn_turn_ok [OF assms(3)] assms(1) by (simp_all add: go_balance_def turn_ok_def)
  let ?H = "\<lambda>gs. \<Sum>pc\<leftarrow>gs. holds_cb pc"
  have len: "j < length (gos t)" and nth: "gos t ! j = gos s ! j" and sum: "?H (gos t) = ?H (gos s)"
    using ok(4) assms(2) by (auto simp: nth_append)
  have "kept t + ?H ((gos t)[j := pc]) + holds_cb (gos s ! j) = kept t + holds_cb pc + ?H (gos s)"
    using sum_list_upd [OF len, of holds_cb pc] by (simp add: nth sum ac_simps)
  also have "\<dots> = kept s + ?H (gos s) + holds_cb (gos s ! j)" by (simp only: ok(1)) (simp only: ac_simps)
  finally have "kept t + ?H ((gos t)[j := pc]) = kept s + ?H (gos s)" by simp
  with assms(1) ok(2,3) show ?thesis by (simp add: go_balance_kept)
qed

lemma go_balance_spawn:
  "go_balance s \<Longrightarrow> go_asked t = go_asked s + holds_cb pc \<Longrightarrow> kept t = kept s \<Longrightarrow> gos t = gos s \<Longrightarrow>
   gc_pending t = gc_pending s \<Longrightarrow> go_balance (go_spawn pc t)"
  by (simp add: go_balance_kept go_spawn_def ac_simps)

lemma go_balance_step: "go_step N s t \<Longrightarrow> go_balance s \<Longrightarrow> go_balance t"
proof (induction rule: go_step.induct)
  case (run j s r i pc t)
  then show ?case by (blast intro: go_balance_run)
next
  case (call s mid req n)
  then show ?case unfolding Go_AsyncUnaryCall_def by (rule go_balance_spawn) (simp_all add: go_counts)
next
  case (unary s mid req)
  then show ?case unfolding Go_UnaryCall_def Go_AsyncUnaryCall_def Let_def
    by (rule go_balance_spawn) (simp_all add: go_counts)
next
  case (connect s)
  then show ?case unfolding Go_Connect_def by (rule go_balance_spawn) simp_all
next
  case (connect_async s n)
  then show ?case unfolding Go_ConnectAsync_def by (rule go_balance_spawn) (simp_all add: go_counts)
next
  case (close s)
  then show ?case by (rule go_balance_spawn) simp_all
qed (simp_all add: go_balance_def go_in_flight_def go_counts Go_SetInterceptor_def Go_Trace_def)

subsection \<open>The connection and its reader\<close>

text \<open>
  The goroutine serves generation \<open>gen\<close>: it reads the connection, is about to start the read loop,
  or is about to tear the connection down.
\<close>

fun serves :: "u64 \<Rightarrow> go_pc \<Rightarrow> bool" where
  "serves gen (EC_spawn k h g) = (g = gen)"
| "serves gen (RL_read h g) = (g = gen)"
| "serves gen (RL_frame h g hdr payload) = (g = gen)"
| "serves gen (TD_lock g st next) = (g = gen)"
| "serves gen (CallCb cb st payload next) = serves gen next"
| "serves gen _ = False"

definition go_conn_inv :: "'c go_chan \<Rightarrow> bool" where
  "go_conn_inv s \<longleftrightarrow>
     (gc_connected s \<longleftrightarrow> gc_conn s \<noteq> None) \<and> (gc_closed s \<longrightarrow> \<not> gc_connected s) \<and>
     (gc_pending s \<noteq> [] \<longrightarrow> gc_connected s) \<and>
     (gc_connected s \<longrightarrow> (\<exists>pc \<in> set (gos s). serves (gc_gen s) pc))"

text \<open>What a turn does to the fields that \<open>mu\<close> guards.\<close>

definition conn_kept :: "'c go_chan \<Rightarrow> 'c go_chan \<Rightarrow> bool" where
  "conn_kept s t \<longleftrightarrow>
     gc_connected t = gc_connected s \<and> gc_conn t = gc_conn s \<and> gc_closed t = gc_closed s \<and>
     gc_gen t = gc_gen s \<and> (gc_pending t \<noteq> [] \<longrightarrow> gc_pending s \<noteq> [] \<or> gc_connected s)"

definition conn_turn :: "go_pc \<Rightarrow> 'c go_chan \<Rightarrow> go_pc \<times> 'c go_chan \<Rightarrow> bool" where
  "conn_turn pc s p \<longleftrightarrow>
     conn_kept s (snd p) \<and>
       (serves (gc_gen s) pc \<longrightarrow> serves (gc_gen s) (fst p) \<or> (\<exists>h. gos (snd p) = gos s @ [RL_read h (gc_gen s)])) \<or>
     \<not> gc_connected (snd p) \<and> gc_conn (snd p) = None \<and> gc_pending (snd p) = [] \<or>
     gc_connected (snd p) \<and> gc_conn (snd p) \<noteq> None \<and> \<not> gc_closed (snd p) \<and> serves (gc_gen (snd p)) (fst p)"

lemma conn_turn_turn:
  assumes "turn N r i pc s = Some p"
  shows "conn_turn pc s p"
  using assms
proof (cases rule: turn_cases)
  case (response h gen hdr payload cb st b)
  then show ?thesis by (auto simp: conn_turn_def conn_kept_def filter_empty_conv)
next
  case (give_up k st ws u)
  then have "\<not> serves gen pc" for gen by (cases pc) simp_all
  with give_up show ?thesis by (simp add: conn_turn_def conn_kept_def io_effect_fields)
qed (auto simp: conn_turn_def conn_kept_def io_effect_fields disconnect_pc split: option.split)

lemma serving_kept:
  assumes "\<exists>q \<in> set (gos s). serves gen q" and "j < length (gos s)"
    and "gos t = gos s \<or> (\<exists>h g. gos t = gos s @ [RL_read h g])"
    and "serves gen (gos s ! j) \<longrightarrow> serves gen pc \<or> (\<exists>h. gos t = gos s @ [RL_read h gen])"
  shows "\<exists>q \<in> set ((gos t)[j := pc]). serves gen q"
proof -
  from assms(1) obtain n where n: "n < length (gos s)" "serves gen (gos s ! n)" by (auto simp: in_set_conv_nth)
  have len: "length (gos s) \<le> length (gos t)" "gos t ! n = gos s ! n" using assms(3) n(1) by (auto simp: nth_append)
  show ?thesis
  proof (cases "n = j")
    case False
    then have "(gos t)[j := pc] ! n = gos s ! n" "n < length ((gos t)[j := pc])" using len n(1) by simp_all
    then show ?thesis using n(2) by (metis nth_mem)
  next
    case True
    with assms(4) n(2) consider "serves gen pc" | h where "gos t = gos s @ [RL_read h gen]" by blast
    then show ?thesis
    proof cases
      case 1
      have "pc \<in> set ((gos t)[j := pc])" using assms(2) len(1) by (simp add: set_update_memI)
      with 1 show ?thesis by blast
    next
      case 2
      then have "RL_read h gen \<in> set ((gos t)[j := pc])" using assms(2) by (simp add: list_update_append)
      then show ?thesis by force
    qed
  qed
qed

lemma go_conn_run:
  assumes "go_conn_inv s" and "distinct (map fst (gc_pending s))" and j: "j < length (gos s)"
    and "turn N r i (gos s ! j) s = Some (pc, t)"
  shows "go_conn_inv (t\<lparr>gos := (gos t)[j := pc]\<rparr>)"
proof -
  have gos: "gos t = gos s \<or> (\<exists>h g. gos t = gos s @ [RL_read h g])"
    using turn_turn_ok [OF assms(4,2)] by (simp add: turn_ok_def)
  from conn_turn_turn [OF assms(4)] consider
    (same) "conn_kept s t" "serves (gc_gen s) (gos s ! j) \<longrightarrow>
        serves (gc_gen s) pc \<or> (\<exists>h. gos t = gos s @ [RL_read h (gc_gen s)])"
  | (down) "\<not> gc_connected t" "gc_conn t = None" "gc_pending t = []"
  | (up) "gc_connected t" "gc_conn t \<noteq> None" "\<not> gc_closed t" "serves (gc_gen t) pc"
    by (auto simp: conn_turn_def)
  then show ?thesis
  proof cases
    case same
    from serving_kept [OF _ j gos same(2)] same(1) assms(1) show ?thesis
      by (auto simp: go_conn_inv_def conn_kept_def)
  next
    case up
    have "pc \<in> set ((gos t)[j := pc])" using j gos by (auto simp: set_update_memI)
    with up show ?thesis by (auto simp: go_conn_inv_def)
  qed (simp add: go_conn_inv_def)
qed

lemma go_conn_mono:
  "go_conn_inv s \<Longrightarrow> gc_connected t = gc_connected s \<Longrightarrow> gc_conn t = gc_conn s \<Longrightarrow> gc_closed t = gc_closed s \<Longrightarrow>
   gc_gen t = gc_gen s \<Longrightarrow> gc_pending t = gc_pending s \<Longrightarrow> set (gos s) \<subseteq> set (gos t) \<Longrightarrow> go_conn_inv t"
  by (auto simp: go_conn_inv_def)

lemmas go_calls = Go_AsyncUnaryCall_def Go_UnaryCall_def Go_Connect_def Go_ConnectAsync_def Go_SetInterceptor_def
  Go_Trace_def go_spawn_def Let_def

lemma go_conn_step: "go_step N s t \<Longrightarrow> go_balance s \<Longrightarrow> go_conn_inv s \<Longrightarrow> go_conn_inv t"
proof (induction rule: go_step.induct)
  case (run j s r i pc t)
  then show ?case by (intro go_conn_run) (simp_all add: go_balance_def)
qed (erule go_conn_mono; auto simp: go_calls)+

subsection \<open>The two mutexes\<close>

fun has_connectMu :: "go_pc \<Rightarrow> bool" where
  "has_connectMu (EC_recheck k) = True"
| "has_connectMu (EC_dial k) = True"
| "has_connectMu (EC_write k h) = True"
| "has_connectMu (EC_read k h) = True"
| "has_connectMu (EC_install k h) = True"
| "has_connectMu (EC_spawn k h gen) = True"
| "has_connectMu _ = False"

fun has_writeMu :: "go_pc \<Rightarrow> bool" where
  "has_writeMu (AC_header hdr req h gen next) = True"
| "has_writeMu (AC_payload hdr req h gen next) = True"
| "has_writeMu _ = False"

text \<open>Where a goroutine continues after a call into the channel it holds no lock.\<close>

fun resting :: "go_pc \<Rightarrow> bool" where
  "resting Finished = True"
| "resting (AwaitDone k) = True"
| "resting (RL_read h gen) = True"
| "resting (TD_calls st cbs next) = resting next"
| "resting _ = False"

fun pc_ok :: "go_pc \<Rightarrow> bool" where
  "pc_ok (AC_lock hdr req h gen next) = resting next"
| "pc_ok (AC_header hdr req h gen next) = resting next"
| "pc_ok (AC_payload hdr req h gen next) = resting next"
| "pc_ok (TD_lock gen st next) = resting next"
| "pc_ok (TD_close h st cbs next) = resting next"
| "pc_ok (TD_calls st cbs next) = resting next"
| "pc_ok (CallCb cb st payload next) = resting next"
| "pc_ok _ = True"

definition holders :: "(go_pc \<Rightarrow> bool) \<Rightarrow> 'c go_chan \<Rightarrow> nat" where
  "holders P s = length (filter P (gos s))"

definition go_mutex_inv :: "'c go_chan \<Rightarrow> bool" where
  "go_mutex_inv s \<longleftrightarrow>
     holders has_connectMu s = of_bool (connectMu s) \<and> holders has_writeMu s = of_bool (writeMu s) \<and>
     (\<forall>pc \<in> set (gos s). pc_ok pc)"

text \<open>A turn takes or releases a lock exactly when the flag changes.\<close>

definition lock_ok :: "bool \<Rightarrow> bool \<Rightarrow> bool \<Rightarrow> bool \<Rightarrow> bool" where
  "lock_ok had mu has mu' \<longleftrightarrow> (if had = has then mu' = mu else mu = had \<and> mu' = has)"

definition lock_turn :: "go_pc \<Rightarrow> 'c go_chan \<Rightarrow> go_pc \<times> 'c go_chan \<Rightarrow> bool" where
  "lock_turn pc s p \<longleftrightarrow>
     lock_ok (has_connectMu pc) (connectMu s) (has_connectMu (fst p)) (connectMu (snd p)) \<and>
     lock_ok (has_writeMu pc) (writeMu s) (has_writeMu (fst p)) (writeMu (snd p)) \<and> pc_ok (fst p)"

lemma lock_ok_simps [simp]:
  "lock_ok b mu b mu' \<longleftrightarrow> mu' = mu" "lock_ok True mu False mu' \<longleftrightarrow> mu \<and> \<not> mu'" "lock_ok False mu True mu' \<longleftrightarrow> \<not> mu \<and> mu'"
  by (auto simp: lock_ok_def)

lemma resting_simps [simp]:
  "resting pc \<Longrightarrow> \<not> has_connectMu pc" "resting pc \<Longrightarrow> \<not> has_writeMu pc" "resting pc \<Longrightarrow> pc_ok pc"
  "resting (call_return cb)"
  by (cases pc; simp)+ (cases cb; simp)

lemma ec_return_lock [simp]:
  "\<not> has_connectMu (fst (ec_return k st s))" "\<not> has_writeMu (fst (ec_return k st s))" "pc_ok (fst (ec_return k st s))"
  by (cases k; simp)+

lemma disconnect_lock [simp]:
  "\<not> has_connectMu (fst (disconnect st nxt s))" "\<not> has_writeMu (fst (disconnect st nxt s))"
  "pc_ok (fst (disconnect st nxt s)) \<longleftrightarrow> resting nxt"
  by (simp_all add: disconnect_pc split: option.split)

lemma setup_lock: "setup_caller pc = Some k \<Longrightarrow> has_connectMu pc \<and> \<not> has_writeMu pc"
  by (cases pc) simp_all

lemma lock_turn_turn:
  assumes "turn N r i pc s = Some p" and "pc_ok pc" and "has_connectMu pc \<longrightarrow> connectMu s" and "has_writeMu pc \<longrightarrow> writeMu s"
  shows "lock_turn pc s p"
  using assms(1)
proof (cases rule: turn_cases)
  case (give_up k st ws u)
  with assms(3) setup_lock [OF give_up(1)] show ?thesis by (simp add: lock_turn_def io_effect_fields)
qed (use assms(2-4) in \<open>auto simp: lock_turn_def io_effect_fields\<close>)

lemma holders_run:
  assumes "j < length (gos s)" and "gos t = gos s \<or> (\<exists>h g. gos t = gos s @ [RL_read h g])"
    and "\<And>h g. \<not> P (RL_read h g)"
  shows "holders P (t\<lparr>gos := (gos t)[j := pc]\<rparr>) + of_bool (P (gos s ! j)) = holders P s + of_bool (P pc)"
proof -
  have "j < length (gos t)" "gos t ! j = gos s ! j" "length (filter P (gos t)) = length (filter P (gos s))"
    using assms by (auto simp: nth_append)
  with length_filter_upd [of j "gos t" P pc] show ?thesis by (simp add: holders_def)
qed

lemma go_mutex_run:
  assumes "go_mutex_inv s" and "distinct (map fst (gc_pending s))" and j: "j < length (gos s)"
    and turn: "turn N r i (gos s ! j) s = Some (pc, t)"
  shows "go_mutex_inv (t\<lparr>gos := (gos t)[j := pc]\<rparr>)"
proof -
  have gos: "gos t = gos s \<or> (\<exists>h g. gos t = gos s @ [RL_read h g])"
    using turn_turn_ok [OF turn assms(2)] by (simp add: turn_ok_def)
  have mem: "gos s ! j \<in> set (gos s)" using j by simp
  have pos: "P (gos s ! j) \<Longrightarrow> holders P s \<noteq> 0" for P
    using mem by (auto simp: holders_def filter_empty_conv)
  have "lock_turn (gos s ! j) s (pc, t)"
    using assms(1) mem pos [of has_connectMu] pos [of has_writeMu]
    by (intro lock_turn_turn [OF turn]) (auto simp: go_mutex_inv_def)
  moreover note holders_run [OF j gos, of has_connectMu pc] holders_run [OF j gos, of has_writeMu pc]
  moreover have "\<forall>q \<in> set ((gos t)[j := pc]). q = pc \<or> q \<in> set (gos s) \<or> (\<exists>h g. q = RL_read h g)"
    using gos set_update_subset_insert [of "gos t" j pc] by auto
  ultimately show ?thesis
    using assms(1) by (auto simp: go_mutex_inv_def lock_turn_def lock_ok_def of_bool_def split: if_splits)
qed

lemma go_mutex_step: "go_step N s t \<Longrightarrow> go_balance s \<Longrightarrow> go_mutex_inv s \<Longrightarrow> go_mutex_inv t"
proof (induction rule: go_step.induct)
  case (run j s r i pc t)
  then show ?case by (intro go_mutex_run) (simp_all add: go_balance_def)
qed (auto simp: go_calls go_mutex_inv_def holders_def)

subsection \<open>Call ids\<close>

definition go_ids :: "'c go_chan \<Rightarrow> u32 list" where
  "go_ids s = concat (map (\<lambda>e. case e of GoRegistered k \<Rightarrow> [k] | _ \<Rightarrow> []) (gc_events s))"

definition go_id_inv :: "'c go_chan \<Rightarrow> bool" where
  "go_id_inv s \<longleftrightarrow>
     nextCallID s = of_nat (Suc (length (go_ids s))) \<and>
     (\<forall>i < length (go_ids s). go_ids s ! i = of_nat (Suc i)) \<and>
     fst ` set (gc_pending s) \<subseteq> given_ids (length (go_ids s)) \<and>
     (length (go_ids s) \<le> 2 ^ 32 \<longrightarrow> go_lost s = {#})"

text \<open>A turn registers a call or leaves ids and losses as they are.\<close>

definition same_ids :: "'c go_chan \<Rightarrow> 'c go_chan \<Rightarrow> bool" where
  "same_ids s t \<longleftrightarrow>
     go_ids t = go_ids s \<and> nextCallID t = nextCallID s \<and> set (gc_pending t) \<subseteq> set (gc_pending s) \<and> go_lost t = go_lost s"

lemma go_id_same: "go_id_inv s \<Longrightarrow> same_ids s t \<Longrightarrow> go_id_inv t"
  by (fastforce simp: go_id_inv_def same_ids_def)

lemma go_ids_log [simp]:
  "go_ids (go_log e s) = go_ids s @ (case e of GoRegistered k \<Rightarrow> [k] | _ \<Rightarrow> [])"
  "go_lost (go_log e s) = go_lost s + go_ev_lost e"
  by (simp_all add: go_ids_def go_lost_def)

lemma go_ids_register:
  assumes "go_id_inv s"
  shows "go_id_inv (go_log (GoRegistered (nextCallID s)) (pending_set (nextCallID s) cb
    (s\<lparr>nextCallID := nextCallID s + 1\<rparr>)))" (is "go_id_inv ?t")
proof -
  let ?n = "length (go_ids s)"
  have id: "nextCallID s = of_nat (Suc ?n)" and sub: "fst ` set (gc_pending s) \<subseteq> given_ids ?n"
    using assms by (simp_all add: go_id_inv_def)
  have ids: "go_ids ?t = go_ids s @ [nextCallID s]"
    by (simp add: pending_set_def go_ids_def split: option.split)
  have lost: "go_lost ?t = {#}" if "Suc ?n \<le> 2 ^ 32"
  proof -
    have "nextCallID s \<notin> fst ` set (gc_pending s)" using fresh_id [of ?n] that id sub by auto
    then have "map_of (gc_pending s) (nextCallID s) = None" by (simp add: map_of_eq_None_iff)
    with assms that show ?thesis by (simp add: pending_set_def go_id_inv_def go_lost_def)
  qed
  have "fst ` set (gc_pending ?t) \<subseteq> insert (nextCallID s) (fst ` set (gc_pending s))"
    by (auto simp: pending_set_def split: option.split)
  then have "fst ` set (gc_pending ?t) \<subseteq> given_ids (Suc ?n)"
    using sub id by (auto simp: given_ids_Suc)
  moreover have "nextCallID ?t = of_nat (Suc (Suc ?n))"
    by (simp add: id pending_set_def split: option.split)
  moreover have "go_ids ?t ! i = of_nat (Suc i)" if "i < Suc ?n" for i
    using that assms id unfolding ids by (auto simp: go_id_inv_def nth_append less_Suc_eq)
  ultimately show ?thesis using lost unfolding go_id_inv_def ids by simp
qed

lemma same_ids_ec [simp]: "same_ids s t \<Longrightarrow> same_ids s (snd (ec_return k st t))"
  by (cases k) (auto simp: same_ids_def)

lemma same_ids_io:
  "io_effect N [] s u \<Longrightarrow> same_ids s u" "io_effect N [GoWrite h b x] s u \<Longrightarrow> same_ids s u"
  by (auto simp: same_ids_def go_ids_def go_lost_def elim!: io_effectE)

lemma same_ids_fields [simp]:
  "same_ids s (t\<lparr>connectMu := b\<rparr>) = same_ids s t" "same_ids s (t\<lparr>writeMu := b\<rparr>) = same_ids s t"
  "same_ids s (t\<lparr>gos := gs\<rparr>) = same_ids s t" "same_ids s (t\<lparr>conns := cs\<rparr>) = same_ids s t"
  "same_ids s (t\<lparr>gc_gen := g, gc_conn := co, gc_connected := b\<rparr>) = same_ids s t" "same_ids s s"
  "same_ids s (snd (disconnect st nxt t)) = same_ids s (t\<lparr>gc_pending := []\<rparr>)" "same_ids s (t\<lparr>gc_closed := b\<rparr>) = same_ids s t"
  by (auto simp: same_ids_def go_ids_def go_lost_def)

lemma ids_turn:
  assumes "turn N r i pc s = Some p"
  shows "same_ids s (snd p) \<or>
    (\<exists>cb. snd p = go_log (GoRegistered (nextCallID s)) (pending_set (nextCallID s) cb (s\<lparr>nextCallID := nextCallID s + 1\<rparr>)))"
  using assms
proof (cases rule: turn_cases)
  case (give_up k st ws u)
  with same_ids_io(1) [of N s u] same_ids_io(2) [of N _ _ _ s u] show ?thesis by auto
qed (auto dest: same_ids_io, auto simp: same_ids_def go_ids_def go_lost_def)

lemma go_id_gos [simp]: "go_id_inv (s\<lparr>gos := gs\<rparr>) = go_id_inv s"
  by (simp add: go_id_inv_def go_ids_def go_lost_def)

lemma go_id_step: "go_step N s t \<Longrightarrow> go_id_inv s \<Longrightarrow> go_id_inv t"
proof (induction rule: go_step.induct)
  case (run j s r i pc t)
  from ids_turn [OF run(2)] go_id_same [OF run(3)] go_ids_register [OF run(3)] show ?case by auto
qed (auto intro: go_id_same simp: same_ids_def go_calls go_ids_def go_lost_def)

subsection \<open>Every reachable state\<close>

definition go_inv :: "'c go_chan \<Rightarrow> bool" where
  "go_inv s \<longleftrightarrow> go_balance s \<and> go_conn_inv s \<and> go_mutex_inv s \<and> go_id_inv s"

interpretation go: inductive_invariant go_init "go_step N" go_inv for N :: "'c net"
proof unfold_locales
  show "go_inv s" if "go_init s" for s :: "'c go_chan"
    using that by (auto simp: go_init_def Go_CreateChannel_def go_inv_def go_balance_def go_conn_inv_def go_mutex_inv_def
        go_id_inv_def go_ids_def go_in_flight_def go_counts holders_def Let_def)
  show "go_inv t" if "go_inv s" "go_step N s t" for s t :: "'c go_chan"
    using that go_balance_step go_conn_step go_mutex_step go_id_step unfolding go_inv_def by blast
qed

end
