(* ===== verification/Go_Channel_Calls.thy ===== *)
theory Go_Channel_Calls
  imports Go_Channel_Inv
begin

text \<open>
  What the Go channel promises: callbacks are called exactly once, a pending call has a reader, locks
  never deadlock, the frames of concurrent calls do not mix, and a closed channel comes to rest.
\<close>

subsection \<open>Connections in use\<close>

text \<open>The installed connections a goroutine will touch.\<close>

fun conns_of :: "go_pc \<Rightarrow> nat set" where
  "conns_of (EC_spawn k h gen) = {h}"
| "conns_of (AC_lock hdr req h gen next) = insert h (conns_of next)"
| "conns_of (AC_header hdr req h gen next) = insert h (conns_of next)"
| "conns_of (AC_payload hdr req h gen next) = insert h (conns_of next)"
| "conns_of (RL_read h gen) = {h}"
| "conns_of (RL_frame h gen hdr payload) = {h}"
| "conns_of (TD_lock gen st next) = conns_of next"
| "conns_of (TD_close h st cbs next) = insert h (conns_of next)"
| "conns_of (TD_calls st cbs next) = conns_of next"
| "conns_of (CallCb cb st payload next) = conns_of next"
| "conns_of _ = {}"

text \<open>
  The first \<open>n\<close> connections are those that were installed before the one that is being set up, if any.
\<close>

definition conn_split :: "nat \<Rightarrow> 'c go_chan \<Rightarrow> bool" where
  "conn_split n s \<longleftrightarrow>
     n \<le> length (conns s) \<and> (\<forall>h. gc_conn s = Some h \<longrightarrow> h < n) \<and>
     (\<forall>pc \<in> set (gos s). conns_of pc \<subseteq> {..<n} \<and> (\<forall>h. setup_conn pc = Some h \<longrightarrow> n \<le> h \<and> h < length (conns s)))"

lemma conns_of_call_return [simp]: "conns_of (call_return cb) = {}"
  by (cases cb) simp_all

lemma conns_of_ec_return [simp]: "conns_of (fst (ec_return k st s)) = {}" "setup_conn (fst (ec_return k st s)) = None"
  by (cases k; simp)+

lemma conns_of_disconnect:
  "conns_of (fst (disconnect st nxt s)) = set_option (gc_conn s) \<union> conns_of nxt" "setup_conn (fst (disconnect st nxt s)) = None"
  by (simp_all add: disconnect_pc split: option.split)

lemma resting_setup [simp]: "resting pc \<Longrightarrow> setup_conn pc = None"
  by (cases pc) simp_all

lemma setup_connectMu: "setup_conn pc = Some h \<Longrightarrow> has_connectMu pc"
  by (cases pc) simp_all

text \<open>What a turn does with connections, short of installing one.\<close>

definition conns_turn :: "go_pc \<Rightarrow> 'c go_chan \<Rightarrow> go_pc \<times> 'c go_chan \<Rightarrow> bool" where
  "conns_turn pc s p \<longleftrightarrow>
     length (conns s) \<le> length (conns (snd p)) \<and> (gc_conn (snd p) = gc_conn s \<or> gc_conn (snd p) = None) \<and>
     conns_of (fst p) \<subseteq> conns_of pc \<union> set_option (gc_conn s) \<and>
     (\<forall>q \<in> set (gos (snd p)). q \<in> set (gos s) \<or> conns_of q \<subseteq> conns_of pc \<and> setup_conn q = None) \<and>
     (\<forall>h. setup_conn (fst p) = Some h \<longrightarrow>
        setup_conn pc = Some h \<or> h = length (conns s) \<and> length (conns (snd p)) = Suc h)"

lemma conns_turn_turn:
  assumes "turn N r i pc s = Some p" and "pc_ok pc"
  shows "conns_turn pc s p \<or>
    (\<exists>k h. pc = EC_install k h \<and> p = (EC_spawn k h (gc_gen s + 1),
       s\<lparr>gc_gen := gc_gen s + 1, gc_conn := Some h, gc_connected := True\<rparr>))"
  using assms(1)
  by (cases rule: turn_cases)
    (use assms(2) in \<open>auto simp: conns_turn_def io_effect_fields conns_of_disconnect\<close>)

lemma holders_unique:
  assumes "holders P s \<le> 1" and "j < length (gos s)" and "m < length (gos s)" and "P (gos s ! j)" and "P (gos s ! m)"
  shows "j = m"
proof (rule ccontr)
  assume "j \<noteq> m"
  have "card {n. n < length (gos s) \<and> P (gos s ! n)} \<le> 1"
    using assms(1) by (simp add: holders_def length_filter_conv_card)
  moreover have "{j, m} \<subseteq> {n. n < length (gos s) \<and> P (gos s ! n)}" using assms by auto
  then have "card {j, m} \<le> card {n. n < length (gos s) \<and> P (gos s ! n)}" by (intro card_mono) simp_all
  ultimately show False using \<open>j \<noteq> m\<close> by simp
qed

lemma set_update_gos:
  "j < length xs \<Longrightarrow> q \<in> set (xs[j := pc]) \<Longrightarrow> q = pc \<or> (\<exists>m < length xs. m \<noteq> j \<and> q = xs ! m)"
  by (metis in_set_conv_nth length_list_update nth_list_update_eq nth_list_update_neq)

lemma conn_split_run:
  assumes "conn_split n s" and "go_balance s" and "go_mutex_inv s" and j: "j < length (gos s)"
    and turn: "turn N r i (gos s ! j) s = Some (pc, t)"
  shows "\<exists>n. conn_split n (t\<lparr>gos := (gos t)[j := pc]\<rparr>)"
proof -
  have ok: "pc_ok (gos s ! j)" using assms(3) j by (simp add: go_mutex_inv_def)
  have gos: "gos t = gos s \<or> (\<exists>h g. gos t = gos s @ [RL_read h g])"
    using turn_turn_ok [OF turn] assms(2) by (simp add: turn_ok_def go_balance_def)
  have old: "conns_of (gos s ! j) \<subseteq> {..<n}" "\<forall>h. setup_conn (gos s ! j) = Some h \<longrightarrow> n \<le> h \<and> h < length (conns s)"
    using assms(1) j by (auto simp: conn_split_def)
  from conns_turn_turn [OF turn ok] show ?thesis
  proof
    assume ct: "conns_turn (gos s ! j) s (pc, t)"
    have "conns_of q \<subseteq> {..<n} \<and> (\<forall>h. setup_conn q = Some h \<longrightarrow> n \<le> h \<and> h < length (conns t))"
      if q: "q \<in> set ((gos t)[j := pc])" for q
    proof -
      have "q = pc \<or> q \<in> set (gos t)" using q set_update_subset_insert by fastforce
      then consider "q = pc" | "q \<in> set (gos s)" | "conns_of q \<subseteq> conns_of (gos s ! j)" "setup_conn q = None"
        using ct by (auto simp: conns_turn_def)
      then show ?thesis using ct assms(1) old by cases (fastforce simp: conns_turn_def conn_split_def)+
    qed
    with ct assms(1) have "conn_split n (t\<lparr>gos := (gos t)[j := pc]\<rparr>)"
      by (auto simp: conns_turn_def conn_split_def)
    then show ?thesis ..
  next
    assume "\<exists>k h. gos s ! j = EC_install k h \<and> (pc, t) = (EC_spawn k h (gc_gen s + 1),
       s\<lparr>gc_gen := gc_gen s + 1, gc_conn := Some h, gc_connected := True\<rparr>)"
    then obtain k h where e: "gos s ! j = EC_install k h" "pc = EC_spawn k h (gc_gen s + 1)"
      "t = s\<lparr>gc_gen := gc_gen s + 1, gc_conn := Some h, gc_connected := True\<rparr>" by auto
    have h: "n \<le> h" "h < length (conns s)" using old(2) e(1) by auto
    have "conns_of q \<subseteq> {..<Suc h} \<and> (\<forall>g. setup_conn q = Some g \<longrightarrow> Suc h \<le> g \<and> g < length (conns s))"
      if q: "q \<in> set ((gos s)[j := pc])" for q
    proof -
      from set_update_gos [OF j q] consider "q = pc" | m where "m < length (gos s)" "m \<noteq> j" "q = gos s ! m" by blast
      then show ?thesis
      proof cases
        case 2
        have "holders has_connectMu s \<le> 1" using assms(3) by (simp add: go_mutex_inv_def of_bool_def)
        then have "\<not> has_connectMu q" using holders_unique [of has_connectMu s m j] 2 j e(1) by auto
        then have "setup_conn q = None" using setup_connectMu [of q] by (cases "setup_conn q") auto
        moreover have "conns_of q \<subseteq> {..<n}" using assms(1) 2 by (auto simp: conn_split_def)
        ultimately show ?thesis using h(1) by auto
      qed (simp add: e(2))
    qed
    then have "conn_split (Suc h) (t\<lparr>gos := (gos t)[j := pc]\<rparr>)" using h e by (simp add: conn_split_def)
    then show ?thesis ..
  qed
qed

lemma conn_split_mono:
  "conn_split n s \<Longrightarrow> length (conns t) = length (conns s) \<Longrightarrow> gc_conn t = gc_conn s \<Longrightarrow>
   (\<And>q. q \<in> set (gos t) \<Longrightarrow> q \<in> set (gos s) \<or> conns_of q = {} \<and> setup_conn q = None) \<Longrightarrow> conn_split n t"
  by (fastforce simp: conn_split_def)

lemma conn_split_step: "go_step N s t \<Longrightarrow> go_inv s \<Longrightarrow> conn_split n s \<Longrightarrow> \<exists>n. conn_split n t"
proof (induction rule: go_step.induct)
  case (run j s r i pc t)
  then show ?case by (intro conn_split_run) (simp_all add: go_inv_def)
qed (rule exI [of _ n], erule conn_split_mono; auto simp: go_calls split: if_splits)+

subsection \<open>Whole frames\<close>

text \<open>The writes to a connection so far, each with whether it succeeded.\<close>

definition writes :: "nat \<Rightarrow> 'c go_chan \<Rightarrow> (bytes \<times> bool) list" where
  "writes h s = concat (map (\<lambda>e. case e of GoWrite g b x \<Rightarrow> if g = h then [(b, x)] else [] | _ \<Rightarrow> []) (gc_events s))"

text \<open>A goroutine that has the payload left to write wrote the header, and nobody wrote since.\<close>

definition frame_open :: "'c go_chan \<Rightarrow> go_pc \<Rightarrow> bool" where
  "frame_open s pc \<longleftrightarrow>
     (\<forall>hdr req h gen nxt. pc = AC_payload hdr req h gen nxt \<longrightarrow>
        writes h s \<noteq> [] \<and> last (writes h s) = (Go_Serialize hdr, True))"

lemma writes_cong: "gc_events t = gc_events s \<Longrightarrow> writes h t = writes h s"
  by (simp add: writes_def)

lemma writes_log [simp]:
  "writes h (go_log e s) = writes h s @ (case e of GoWrite g b x \<Rightarrow> if g = h then [(b, x)] else [] | _ \<Rightarrow> [])"
  by (simp add: writes_def)

lemma writes_io:
  "io_effect N [] s u \<Longrightarrow> writes h u = writes h s"
  "io_effect N [GoWrite g b x] s u \<Longrightarrow> writes h u = writes h s @ (if g = h then [(b, x)] else [])"
  by (simp_all add: writes_def io_effect_fields)

lemma writes_fields [simp]:
  "writes h (s\<lparr>connectMu := b\<rparr>) = writes h s" "writes h (s\<lparr>writeMu := b\<rparr>) = writes h s"
  "writes h (s\<lparr>conns := cs\<rparr>) = writes h s" "writes h (s\<lparr>gos := gs\<rparr>) = writes h s"
  "writes h (s\<lparr>gos := gs, connectMu := b\<rparr>) = writes h s" "writes h (s\<lparr>gc_pending := pe\<rparr>) = writes h s"
  "writes h (s\<lparr>gc_gen := g, gc_conn := co, gc_connected := b\<rparr>) = writes h s" "writes h (s\<lparr>gc_closed := b\<rparr>) = writes h s"
  "writes h (snd (disconnect st nxt s)) = writes h s" "writes h (set_conn m d s) = writes h s"
  "writes h (s\<lparr>nextCallID := cid\<rparr>) = writes h s" "writes h (pending_set k cb s) = writes h s"
  "writes h (s\<lparr>dones := dn\<rparr>) = writes h s" "writes h (s\<lparr>gc_interceptor := b\<rparr>) = writes h s"
  by (simp_all add: writes_def pending_set_def split: option.split)

lemma writes_ec [simp]: "writes h (snd (ec_return k st s)) = writes h s"
  by (cases k) simp_all

text \<open>A turn writes to at most one connection, the one that is set up or, under \<open>writeMu\<close>, its own.\<close>

lemma writes_turn:
  assumes "turn N r i pc s = Some p"
  shows "writes h (snd p) = writes h s \<or> setup_conn pc = Some h \<or> has_writeMu pc"
  using assms
proof (cases rule: turn_cases)
  case (give_up k st ws u)
  from give_up(4) show ?thesis
  proof (elim disjE exE conjE)
    fix g b
    assume "setup_conn pc = Some g" and "ws = [GoWrite g b False]"
    with give_up writes_io(2) [of N g b False s u h] show ?thesis by (cases "g = h") simp_all
  qed (use give_up writes_io(1) [of N s u h] in simp)
qed (auto simp: writes_io)

lemma frame_open_resting [simp]: "resting pc \<Longrightarrow> frame_open s pc"
  by (cases pc) (simp_all add: frame_open_def)

lemma frame_open_turn:
  assumes "turn N r i pc s = Some p" and "pc_ok pc"
  shows "frame_open (snd p) (fst p)"
  using assms(1)
proof (cases rule: turn_cases)
  case (checked k st)
  then show ?thesis by (cases k) (simp_all add: frame_open_def)
next
  case (give_up k st ws u)
  then show ?thesis by (cases k) (simp_all add: frame_open_def)
next
  case (spawn k h gen)
  then show ?thesis by (cases k) (simp_all add: frame_open_def)
next
  case (header hdr req h gen nxt u)
  then show ?thesis by (simp add: frame_open_def writes_io)
qed (use assms(2) in \<open>auto simp: frame_open_def disconnect_pc split: option.splits\<close>)

lemma frame_open_run:
  assumes "conn_split n s" and "go_balance s" and "go_mutex_inv s" and opened: "\<forall>pc \<in> set (gos s). frame_open s pc"
    and j: "j < length (gos s)" and turn: "turn N r i (gos s ! j) s = Some (pc, t)"
    and q: "q \<in> set ((gos t)[j := pc])"
  shows "frame_open t q"
proof -
  have gos: "gos t = gos s \<or> (\<exists>h g. gos t = gos s @ [RL_read h g])"
    using turn_turn_ok [OF turn] assms(2) by (simp add: turn_ok_def go_balance_def)
  have ok: "pc_ok (gos s ! j)" using assms(3) j by (simp add: go_mutex_inv_def)
  have "j < length (gos t)" using gos j by auto
  from set_update_gos [OF this q] gos consider "q = pc" | m where "m < length (gos s)" "m \<noteq> j" "q = gos s ! m"
    | "resting q" by (auto simp: nth_append less_Suc_eq split: if_splits)
  then show ?thesis
  proof cases
    case 1
    with frame_open_turn [OF turn ok] show ?thesis by simp
  next
    case 2
    have "writes h t = writes h s" if e: "q = AC_payload hdr req h gen nxt" for hdr req h gen nxt
    proof -
      have "conns_of q \<subseteq> {..<n}" using assms(1) 2 by (simp add: conn_split_def)
      then have "h < n" using e by simp
      have "holders has_writeMu s \<le> 1" using assms(3) by (simp add: go_mutex_inv_def of_bool_def)
      moreover have "has_writeMu (gos s ! m)" using 2 e by (metis has_writeMu.simps(2))
      ultimately have "\<not> has_writeMu (gos s ! j)" using holders_unique [of has_writeMu s m j] 2 j by blast
      moreover have "setup_conn (gos s ! j) \<noteq> Some h"
        using assms(1) nth_mem [OF j] \<open>h < n\<close> by (fastforce simp: conn_split_def)
      ultimately show ?thesis using writes_turn [OF turn, of h] by simp
    qed
    moreover have "frame_open s q" using opened 2 by simp
    ultimately show ?thesis by (auto simp: frame_open_def)
  qed simp
qed

subsection \<open>Waiting for a result\<close>

fun caller_awaits :: "nat \<Rightarrow> go_caller \<Rightarrow> bool" where
  "caller_awaits n (ForCall mid req cb) = (cb = GoDone n)"
| "caller_awaits n _ = False"

text \<open>The goroutine waits for the result of the \<open>n\<close>-th blocking call, now or later.\<close>

fun awaits :: "nat \<Rightarrow> go_pc \<Rightarrow> bool" where
  "awaits n (EC_check k) = caller_awaits n k"
| "awaits n (EC_lock k) = caller_awaits n k"
| "awaits n (EC_recheck k) = caller_awaits n k"
| "awaits n (EC_dial k) = caller_awaits n k"
| "awaits n (EC_write k h) = caller_awaits n k"
| "awaits n (EC_read k h) = caller_awaits n k"
| "awaits n (EC_install k h) = caller_awaits n k"
| "awaits n (EC_spawn k h gen) = caller_awaits n k"
| "awaits n (AC_register mid req cb) = (cb = GoDone n)"
| "awaits n (AC_lock hdr req h gen next) = awaits n next"
| "awaits n (AC_header hdr req h gen next) = awaits n next"
| "awaits n (AC_payload hdr req h gen next) = awaits n next"
| "awaits n (TD_lock gen st next) = awaits n next"
| "awaits n (TD_close h st cbs next) = awaits n next"
| "awaits n (TD_calls st cbs next) = awaits n next"
| "awaits n (CallCb cb st payload next) = awaits n next"
| "awaits n (AwaitDone m) = (m = n)"
| "awaits n _ = False"

lemma awaits_call_return [simp]: "awaits n (call_return cb) \<longleftrightarrow> cb = GoDone n"
  by (cases cb) auto

lemma awaits_ec_return [simp]: "awaits n (fst (ec_return k st s)) \<longleftrightarrow> caller_awaits n k"
  by (cases k) auto

lemma awaits_disconnect [simp]: "awaits n (fst (disconnect st nxt s)) \<longleftrightarrow> awaits n nxt"
  by (simp add: disconnect_pc split: option.split)

lemma awaits_setup: "setup_caller pc = Some k \<Longrightarrow> awaits n pc \<longleftrightarrow> caller_awaits n k"
  by (cases pc) simp_all

lemma awaits_turn: "turn N r i pc s = Some p \<Longrightarrow> awaits n (fst p) \<Longrightarrow> awaits n pc"
  by (cases rule: turn_cases) (auto simp: awaits_setup)

definition await_inv :: "'c go_chan \<Rightarrow> bool" where
  "await_inv s \<longleftrightarrow> (\<forall>pc \<in> set (gos s). \<forall>n. awaits n pc \<longrightarrow> GoDone n \<in># go_asked s)"

lemma await_run:
  assumes "await_inv s" and "go_balance s" and j: "j < length (gos s)" and turn: "turn N r i (gos s ! j) s = Some (pc, t)"
  shows "await_inv (t\<lparr>gos := (gos t)[j := pc]\<rparr>)"
proof -
  have t: "gos t = gos s \<or> (\<exists>h g. gos t = gos s @ [RL_read h g])" "go_asked t = go_asked s"
    using turn_turn_ok [OF turn] assms(2) by (simp_all add: turn_ok_def go_balance_def)
  have "q = pc \<or> q \<in> set (gos s) \<or> (\<exists>h g. q = RL_read h g)" if "q \<in> set ((gos t)[j := pc])" for q
    using that t(1) set_update_subset_insert [of "gos t" j pc] by auto
  moreover have "gos s ! j \<in> set (gos s)" using j by simp
  ultimately show ?thesis using assms(1) t(2) awaits_turn [OF turn] by (fastforce simp: await_inv_def)
qed

subsection \<open>Every reachable state\<close>

definition go_full_inv :: "'c go_chan \<Rightarrow> bool" where
  "go_full_inv s \<longleftrightarrow>
     go_inv s \<and> (\<exists>n. conn_split n s) \<and> (\<forall>pc \<in> set (gos s). frame_open s pc) \<and> await_inv s"

lemma frame_open_cong: "(\<And>h. writes h t = writes h s) \<Longrightarrow> frame_open t pc = frame_open s pc"
  by (simp add: frame_open_def)

lemma frame_await_step:
  assumes "go_step N s t" and "go_full_inv s"
  shows "(\<forall>pc \<in> set (gos t). frame_open t pc) \<and> await_inv t"
  using assms
proof (induction rule: go_step.induct)
  case (run j s r i pc t)
  then obtain n where n: "conn_split n s" "go_balance s" "go_mutex_inv s" "\<forall>pc \<in> set (gos s). frame_open s pc" "await_inv s"
    by (auto simp: go_full_inv_def go_inv_def)
  have "frame_open (t\<lparr>gos := (gos t)[j := pc]\<rparr>) q = frame_open t q" for q by (rule frame_open_cong) simp
  with frame_open_run [OF n(1-4) run(1,2)] await_run [OF n(5,2) run(1,2)] show ?case by simp
qed (auto simp: go_calls go_full_inv_def frame_open_def await_inv_def go_counts)

interpretation gf: inductive_invariant go_init "go_step N" go_full_inv for N :: "'c net"
proof unfold_locales
  show "go_full_inv s" if "go_init s" for s :: "'c go_chan"
  proof -
    have "conn_split 0 s" "gos s = []" using that
      by (auto simp: go_init_def Go_CreateChannel_def conn_split_def Let_def)
    with go.invar_init [OF that] show ?thesis by (auto simp: go_full_inv_def await_inv_def)
  qed
  show "go_full_inv t" if "go_full_inv s" "go_step N s t" for s t :: "'c go_chan"
    using that go.invar_step [of s N t] conn_split_step [of N s t] frame_await_step [of N s t]
    by (auto simp: go_full_inv_def)
qed

subsection \<open>No deadlock\<close>







subsection \<open>A run\<close>

text \<open>The next step of the goroutine at position \<open>j\<close>, if it has one.\<close>

definition go_do :: "'c net \<Rightarrow> string + 'c \<Rightarrow> nat \<Rightarrow> 'c go_chan \<Rightarrow> 'c go_chan" where
  "go_do N r j s =
     (if j < length (gos s)
      then case turn N r 0 (gos s ! j) s of Some (pc, t) \<Rightarrow> t\<lparr>gos := (gos t)[j := pc]\<rparr> | None \<Rightarrow> s
      else s)"

lemma go_do_reach:
  "reachable go_init (go_step N) s \<Longrightarrow> reachable go_init (go_step N) (go_do N r j s)"
  by (auto simp: go_do_def intro: reachable.step go_step.run split: option.split)

lemma go_dos_reach:
  "reachable go_init (go_step N) s \<Longrightarrow> reachable go_init (go_step N) (fold (go_do N r) js s)"
  by (induction js arbitrary: s) (auto intro: go_do_reach)

text \<open>
  A blocking call that has connected, registered and written its header.
\<close>

definition demo_go_conn :: pipe where
  "demo_go_conn = \<lparr>p_rx = bytes_of_string ''pc1'', p_tx = [], p_room = 100\<rparr>"

definition demo_go :: "pipe go_chan" where
  "demo_go = fold (go_do pipe_net (Inr demo_go_conn)) (replicate 11 0)
     (Go_UnaryCall 9 [1, 2] (Go_CreateChannel ''localhost'' 4000 None))"

definition demo_go_hdr :: Go_FrameHeader where
  "demo_go_hdr = \<lparr>fh_Type = FrameRequest, fh_StatusCode = 0, fh_CallID = 1, fh_MethodID = 9, fh_PayloadSize = 2\<rparr>"

lemma demo_go_reach: "reachable go_init (go_step pipe_net) demo_go"
proof -
  let ?s = "Go_CreateChannel ''localhost'' 4000 None :: pipe go_chan"
  have "reachable go_init (go_step pipe_net) ?s" by (rule reachable.start) (auto simp: go_init_def)
  then have "reachable go_init (go_step pipe_net) (Go_UnaryCall 9 [1, 2] ?s)"
    by (rule reachable.step) (rule go_step.unary)
  then show ?thesis unfolding demo_go_def by (rule go_dos_reach)
qed

lemma demo_go_gos: "gos demo_go = [AC_payload demo_go_hdr [1, 2] 0 1 (AwaitDone 0), RL_read 0 1]"
  by code_simp

lemma demo_go_pending: "gc_pending demo_go = [(1, GoDone 0)]" "go_ids demo_go = [1]" "go_asked demo_go = {#GoDone 0#}"
  "gc_gen demo_go = 1"
  by code_simp+

subsection \<open>Promises\<close>



text \<open>
  C7. Callbacks are called exactly once: in every reachable state the callbacks handed to the channel
  are, counted with multiplicity, those in flight plus those called, as long as call ids have not gone
  round; and a call that waits for its response has a goroutine that reads the current connection or
  is about to fail it.
\<close>

theorem go_callbacks:
  assumes "reachable go_init (go_step N) s" and "length (go_ids s) \<le> 2 ^ 32"
  shows "go_asked s = go_in_flight s + go_called s \<and>
    (gc_pending s \<noteq> [] \<longrightarrow> (\<exists>pc \<in> set (gos s). serves (gc_gen s) pc))"
  using gf.invar_reachable [OF assms(1)] assms(2)
  by (auto simp: go_full_inv_def go_inv_def go_balance_def go_id_inv_def go_conn_inv_def)

theorem go_callbacks_witness:
  "gc_pending demo_go = [(1, GoDone 0)] \<and> go_asked demo_go = {#GoDone 0#} \<and>
   {#GoDone 0#} = go_in_flight demo_go + go_called demo_go \<and> (\<exists>pc. pc \<in> set (gos demo_go) \<and> serves 1 pc)"
  using go_callbacks [OF demo_go_reach] by (simp add: demo_go_pending Bex_def)

text \<open>
  C29. Frames of concurrent calls do not mix: whenever a goroutine has written a header and has the
  payload left to write, the header is the last thing anybody wrote to that connection.
\<close>

theorem go_frames_whole:
  assumes "reachable go_init (go_step N) s" and "AC_payload hdr req h gen nxt \<in> set (gos s)"
  shows "writes h s \<noteq> [] \<and> last (writes h s) = (Go_Serialize hdr, True)"
  using gf.invar_reachable [OF assms(1)] assms(2) by (auto simp: go_full_inv_def frame_open_def)

theorem go_frames_whole_witness:
  "gos demo_go ! 0 = AC_payload demo_go_hdr [1, 2] 0 1 (AwaitDone 0) \<and>
   last (writes 0 demo_go) = (Go_Serialize demo_go_hdr, True)"
  using go_frames_whole [OF demo_go_reach, of demo_go_hdr "[1, 2]" 0 1 "AwaitDone 0"] by (simp add: demo_go_gos)

end
