(* ===== verification/Go_Channel_Close.thy ===== *)
theory Go_Channel_Close
  imports Go_Channel_Calls
begin

text \<open>
  The end of a Go channel: after \<open>Close\<close> the goroutines inside the channel finish, and no callback is
  left over.
\<close>

subsection \<open>Closed connections\<close>




subsection \<open>Winding down\<close>






















end
