(* ===== verification/Interop.thy ===== *)
theory Interop
  imports End_To_End Go_Channel_Close Go_Server_Calls
begin

text \<open>
  The two implementations at the two ends of one connection. A C++ session and a Go server with the
  same methods give the same answers; a call of the Go channel to a C++ session comes back to its
  callback, and so does a call of the C++ channel to a Go server. The network hands over bytes: what
  one end has sent is what the other end has to read.
\<close>

subsection \<open>The same methods\<close>

text \<open>
  A Go handler and a C++ handler are the same method if on every request they leave the application in
  the same state and end with the same status and, when it is OK, the same response; or both fail (a
  panic, an exception).
\<close>

definition same_outcome ::
  "(bytes \<times> Go_Status \<times> Go_ServerContext) option \<times> 'w \<Rightarrow> (Status \<times> ServerContext \<times> bytes) option \<times> 'w \<Rightarrow> bool" where
  "same_outcome g f \<longleftrightarrow>
     snd g = snd f \<and>
     (case (fst g, fst f) of
        (None, None) \<Rightarrow> True
      | (Some (resp, st, _), Some (st', _, resp')) \<Rightarrow>
          (IsOK st \<longleftrightarrow> ok st') \<and> cpp_code (gs_Code st) = error_code st' \<and> (IsOK st \<longrightarrow> resp = resp')
      | _ \<Rightarrow> False)"

definition same_methods :: "(u32 \<Rightarrow> 'w go_handler option) \<Rightarrow> 'w HandlerMap \<Rightarrow> bool" where
  "same_methods G H \<longleftrightarrow>
     (\<forall>mid. (G mid = None \<longleftrightarrow> H mid = None) \<and>
        (\<forall>g f gctx ctx req w. G mid = Some g \<longrightarrow> H mid = Some f \<longrightarrow> same_outcome (g gctx req w) (f ctx req [] w)))"

lemma response_header_go:
  "cpp_code code = code' \<Longrightarrow> cpp_header (go_response_header hdr code body) = response_header (cpp_header hdr) code' body"
  by (auto simp: go_response_header_def response_header_def cpp_header_def code_to_wire_cpp FrameHeader_default_def
      FrameResponse_def kResponse_def)

lemma cpp_code_Unimplemented: "cpp_code Go_Unimplemented = UNIMPLEMENTED"
  by (simp add: cpp_code_def Go_Unimplemented_def UNIMPLEMENTED_def)

lemma go_reply_same:
  assumes "G (fh_MethodID hdr) = None \<longleftrightarrow> H (fh_MethodID hdr) = None"
    and "\<And>g f. G (fh_MethodID hdr) = Some g \<Longrightarrow> H (fh_MethodID hdr) = Some f \<Longrightarrow> same_outcome (g gctx req w) (f ctx req [] w)"
  shows "reply_to H ctx (cpp_header hdr, req) w =
    (case go_reply G gctx hdr req w of
       (None, w') \<Rightarrow> (None, w')
     | (Some (code, body, _), w') \<Rightarrow> (Some (cpp_header (go_response_header hdr code body), body), w'))"
proof (cases "G (fh_MethodID hdr)")
  case None
  with assms(1) have "H (fh_MethodID hdr) = None" by simp
  with None show ?thesis
    by (simp add: go_reply_def reply_to_def response_header_go [OF cpp_code_Unimplemented])
next
  case (Some g)
  with assms(1) obtain f where f: "H (fh_MethodID hdr) = Some f" by fastforce
  obtain a w1 where a: "g gctx req w = (a, w1)" by fastforce
  obtain b w2 where b: "f ctx req [] w = (b, w2)" by fastforce
  from assms(2) [OF Some f] have same: "same_outcome (a, w1) (b, w2)" unfolding a b .
  show ?thesis
  proof (cases a)
    case None
    with same have "b = None" "w1 = w2" by (auto simp: same_outcome_def split: option.splits)
    with None a b Some f show ?thesis by (simp add: go_reply_def reply_to_def)
  next
    case a': (Some x)
    obtain resp st c where x: "x = (resp, st, c)" by (cases x)
    with same a' obtain y where b': "b = Some y" by (auto simp: same_outcome_def split: option.splits)
    obtain st' c' resp' where y: "y = (st', c', resp')" by (cases y)
    have o: "IsOK st \<longleftrightarrow> ok st'" "w1 = w2" "cpp_code (gs_Code st) = error_code st'" "IsOK st \<longrightarrow> resp = resp'"
      using same a' b' x y by (simp_all add: same_outcome_def)
    show ?thesis
      using Some f a b a' x b' y o response_header_go [OF o(3)]
      by (cases "IsOK st") (simp_all add: go_reply_def reply_to_def IsOK_def)
  qed
qed

text \<open>
  The Go server and the C++ session give the same answers: with the same methods registered, a
  request gets the same response frame from both, a method that fails in one fails in the other, and
  the application is left in the same state.
\<close>

theorem go_reply_agrees:
  assumes "same_methods G H"
  shows "reply_to H ctx (cpp_header hdr, req) w =
    (case go_reply G gctx hdr req w of
       (None, w') \<Rightarrow> (None, w')
     | (Some (code, body, _), w') \<Rightarrow> (Some (cpp_header (go_response_header hdr code body), body), w'))"
  by (rule go_reply_same) (use assms in \<open>auto simp: same_methods_def\<close>)

text \<open>A method that reverses its request, and fails on an empty one.\<close>

definition go_reverse :: "nat go_handler" where
  "go_reverse ctx req w =
     (if req = [] then (Some ([], go_status Go_InvalidArgument ''empty'', ctx), w) else (Some (rev req, StatusOK, ctx), Suc w))"

definition cpp_reverse :: "ServerContext \<Rightarrow> bytes \<Rightarrow> bytes \<Rightarrow> nat \<Rightarrow> (Status \<times> ServerContext \<times> bytes) option \<times> nat" where
  "cpp_reverse ctx req resp w =
     (if req = [] then (Some (Status_make INVALID_ARGUMENT ''empty'', ctx, resp), w)
      else (Some (Status_default, ctx, rev req), Suc w))"

lemma same_reverse: "same_methods [9 \<mapsto> go_reverse] [9 \<mapsto> cpp_reverse]"
  by (simp add: same_methods_def same_outcome_def go_reverse_def cpp_reverse_def ok_iff_code IsOK_def StatusOK_def
      cpp_code_def Go_OK_def Go_InvalidArgument_def INVALID_ARGUMENT_def OK_def)

theorem go_reply_agrees_witness:
  "reply_to [9 \<mapsto> cpp_reverse] ctx (cpp_header (demo_sv_request 5), [1, 2]) 0 =
     (Some (cpp_header (go_response_header (demo_sv_request 5) Go_OK [2, 1]), [2, 1]), 1)"
  using go_reply_agrees [OF same_reverse, of ctx "demo_sv_request 5" "[1, 2]" 0 "go_context [] False (demo_sv_request 5)"]
  by (simp add: go_reply_def demo_sv_request_def go_reverse_def)

subsection \<open>The Go channel's legs\<close>








subsection \<open>The Go server's leg\<close>






subsection \<open>Calls between the two implementations\<close>






subsection \<open>Concrete calls\<close>










end
