(* ===== verification/Plugin.thy ===== *)
theory Plugin
  imports Generator
begin

text \<open>
  \<open>protoc/plugin.cpp\<close>: the compiler plugin. It reads a request, refuses methods whose ids collide,
  and answers with one header per service. Decoding the request and encoding the response belong
  to protobuf: the model starts from the decoded request, or none, and ends with the response and
  whether writing it succeeded.
\<close>

subsection \<open>The collision check\<close>

type_synonym seen = "u32 \<Rightarrow> string option"

definition collision_error :: "string \<Rightarrow> string \<Rightarrow> string" where
  "collision_error other full =
     ''protocomm: FNV1a32 method-ID collision between '' @ [CHR 0x27] @ other @ [CHR 0x27] @ '' and '' @
     [CHR 0x27] @ full @ [CHR 0x27] @ ''. '' @ ''Rename one of the methods.''"

text \<open>The body of the innermost loop: an error, or the map with the method entered.\<close>

definition check_method :: "string \<Rightarrow> seen \<Rightarrow> string + seen" where
  "check_method full seen =
     (let h = Fnv1a32 full
      in case seen h of
           Some other \<Rightarrow> if other = full then Inr seen else Inl (collision_error other full)
         | None \<Rightarrow> Inr (seen(h \<mapsto> full)))"

fun check_all :: "string list \<Rightarrow> seen \<Rightarrow> string + seen" where
  "check_all [] seen = Inr seen"
| "check_all (full # rest) seen =
     (case check_method full seen of Inl e \<Rightarrow> Inl e | Inr seen \<Rightarrow> check_all rest seen)"

text \<open>The full names in the order of the three nested loops.\<close>

definition full_names :: "FileDescriptorProto list \<Rightarrow> string list" where
  "full_names files =
     [method_full_name (package f) (service_name s) (method_name m).
        f \<leftarrow> files, s \<leftarrow> services f, m \<leftarrow> methods s]"

subsection \<open>The response\<close>

record CodeGeneratorResponse =
  resp_error :: "string option"
  resp_files :: "(string \<times> string) list"

definition service_file :: "FileDescriptorProto \<Rightarrow> ServiceDescriptorProto \<Rightarrow> string \<times> string" where
  "service_file f s =
     (let p = package f; n = ns_from_pkg p; sname = service_name s;
          ctx = \<lparr>ctx_file = f, svc = s, pkg = p, ns = n, svc_name = sname, has_ns = (n \<noteq> [])\<rparr>
      in (output_path p sname, GenerateServiceFile [] ctx))"

definition generate_files :: "FileDescriptorProto list \<Rightarrow> (string \<times> string) list" where
  "generate_files files =
     concat (map (\<lambda>f. if services f = [] then [] else map (service_file f) (services f)) files)"

definition no_files_error :: string where
  "no_files_error = ''No output files generated. Check that .proto contains services and methods.''"

definition plugin_response :: "FileDescriptorProto list \<Rightarrow> CodeGeneratorResponse" where
  "plugin_response files =
     (case check_all (full_names files) Map.empty of
        Inl e \<Rightarrow> \<lparr>resp_error = Some e, resp_files = []\<rparr>
      | Inr _ \<Rightarrow>
          (let out = generate_files files
           in \<lparr>resp_error = (if out = [] then Some no_files_error else None), resp_files = out\<rparr>))"

text \<open>
  \<open>main\<close>: the exit code and what was written. The result of the write after a collision is
  ignored.
\<close>

definition plugin_main :: "FileDescriptorProto list option \<Rightarrow> bool \<Rightarrow> int \<times> CodeGeneratorResponse option" where
  "plugin_main req written =
     (case req of
        None \<Rightarrow> (1, None)
      | Some files \<Rightarrow>
          (case check_all (full_names files) Map.empty of
             Inl _ \<Rightarrow> (0, Some (plugin_response files))
           | Inr _ \<Rightarrow> (if \<not> written then 1 else 0, Some (plugin_response files))))"

subsection \<open>The check decides injectivity\<close>

text \<open>
  What the loops do, for any hash: they go through the names and stop at the first whose hash is taken
  by another name.
\<close>

fun scan_names :: "(string \<Rightarrow> u32) \<Rightarrow> string list \<Rightarrow> seen \<Rightarrow> (string \<times> string) + seen" where
  "scan_names hash [] seen = Inr seen"
| "scan_names hash (full # rest) seen =
     (case seen (hash full) of
        Some other \<Rightarrow> if other = full then scan_names hash rest seen else Inl (other, full)
      | None \<Rightarrow> scan_names hash rest (seen(hash full \<mapsto> full)))"

definition collision :: "(string \<Rightarrow> string \<Rightarrow> string) \<Rightarrow> (string \<times> string) + seen \<Rightarrow> string + seen" where
  "collision err r = map_sum (case_prod err) id r"

lemma collision_simps [simp]: "collision err (Inl (x, y)) = Inl (err x y)" "collision err (Inr s) = Inr s"
  by (simp_all add: collision_def)

lemma check_all_scan: "check_all xs seen = collision collision_error (scan_names Fnv1a32 xs seen)"
  by (induction xs arbitrary: seen) (auto simp: check_method_def Let_def split: option.split)

lemma scan_names_append:
  "scan_names hash (xs @ ys) seen =
     (case scan_names hash xs seen of Inl e \<Rightarrow> Inl e | Inr seen \<Rightarrow> scan_names hash ys seen)"
  by (induction xs arbitrary: seen) (auto split: option.split)

text \<open>The map holds names under their own hashes, and exactly the names of \<open>xs\<close>.\<close>

definition seen_ok :: "(string \<Rightarrow> u32) \<Rightarrow> string set \<Rightarrow> seen \<Rightarrow> bool" where
  "seen_ok hash xs seen \<longleftrightarrow>
     (\<forall>h x. seen h = Some x \<longrightarrow> x \<in> xs \<and> hash x = h) \<and> (\<forall>x \<in> xs. seen (hash x) = Some x)"

lemma seen_ok_insert:
  assumes "seen_ok hash xs seen" "seen (hash x) = None"
  shows "seen_ok hash (insert x xs) (seen(hash x \<mapsto> x))"
proof -
  have "hash y \<noteq> hash x" if "y \<in> xs" for y
    using assms that by (metis option.distinct(1) seen_ok_def)
  with assms(1) show ?thesis by (simp add: seen_ok_def)
qed

lemma seen_ok_inj: "seen_ok hash xs seen \<Longrightarrow> inj_on hash xs"
  unfolding seen_ok_def by (metis inj_onI option.inject)

lemma scan_names_ok:
  assumes "seen_ok hash xs seen"
  shows "case scan_names hash ys seen of
      Inl (x, y) \<Rightarrow> x \<in> xs \<union> set ys \<and> y \<in> set ys \<and> x \<noteq> y \<and> hash x = hash y
    | Inr seen' \<Rightarrow> seen_ok hash (xs \<union> set ys) seen'"
  using assms
proof (induction ys arbitrary: xs seen)
  case (Cons y ys)
  show ?case
  proof (cases "seen (hash y)")
    case None
    define seen' where "seen' = seen(hash y \<mapsto> y)"
    with None have "scan_names hash (y # ys) seen = scan_names hash ys seen'" by simp
    with Cons.IH [OF seen_ok_insert [OF Cons.prems None], folded seen'_def] show ?thesis by (auto split: sum.splits)
  next
    case (Some x)
    with Cons.prems have x: "x \<in> xs" "hash x = hash y" by (simp_all add: seen_ok_def)
    show ?thesis
    proof (cases "x = y")
      case True
      with x(1) have "xs \<union> set (y # ys) = xs \<union> set ys" by auto
      with Cons.IH [OF Cons.prems] Some True show ?thesis by (auto split: sum.splits)
    qed (use Some x in auto)
  qed
qed simp

lemma scan_names_inj:
  "case scan_names hash xs Map.empty of
     Inl (x, y) \<Rightarrow> x \<in> set xs \<and> y \<in> set xs \<and> x \<noteq> y \<and> hash x = hash y
   | Inr _ \<Rightarrow> inj_on hash (set xs)"
proof -
  have "seen_ok hash {} Map.empty" by (simp add: seen_ok_def)
  from scan_names_ok [OF this, of xs] show ?thesis
    by (auto split: sum.splits dest: seen_ok_inj)
qed

lemma check_all_names:
  "case check_all xs Map.empty of
     Inl e \<Rightarrow> (\<exists>x \<in> set xs. \<exists>y \<in> set xs. x \<noteq> y \<and> Fnv1a32 x = Fnv1a32 y \<and> e = collision_error x y)
   | Inr _ \<Rightarrow> inj_on Fnv1a32 (set xs)"
  using scan_names_inj [where hash = Fnv1a32 and xs = xs] by (auto simp: check_all_scan split: sum.splits) blast

text \<open>
  C30. The collision check is exact: the plugin generates code if and only if the hash is
  injective on the full names of all methods of the request, so method ids identify methods;
  otherwise it answers with an error that names two different methods with the same id.
\<close>

theorem plugin_collision_check:
  "(resp_files (plugin_response files) = [] \<and>
     (\<exists>x \<in> set (full_names files). \<exists>y \<in> set (full_names files). x \<noteq> y \<and> Fnv1a32 x = Fnv1a32 y \<and>
        resp_error (plugin_response files) = Some (collision_error x y))) =
   (\<not> inj_on Fnv1a32 (set (full_names files)))"
proof (cases "check_all (full_names files) Map.empty")
  case (Inl e)
  with check_all_names [of "full_names files"] show ?thesis
    by (auto simp: plugin_response_def inj_on_def)
next
  case (Inr s)
  with check_all_names [of "full_names files"] have "inj_on Fnv1a32 (set (full_names files))" by simp
  then show ?thesis by (auto dest: inj_onD)
qed

lemma generate_files_eq:
  "generate_files files = [service_file f s. f \<leftarrow> files, s \<leftarrow> services f]"
  by (induction files) (simp_all add: generate_files_def)

lemma check_all_inj:
  "(\<exists>s. check_all xs Map.empty = Inr s) = inj_on Fnv1a32 (set xs)"
  using check_all_names [of xs] by (cases "check_all xs Map.empty") (auto dest: inj_onD)

text \<open>
  The plugin's answer: when the ids are injective, one header per service of every file of
  the request, in order, at the service's output path, and no error unless no file has a service;
  when they are not, no file. It exits with 1 if and only if the request does not parse or the
  response of a collision-free request cannot be written.
\<close>

theorem plugin_main_result:
  "plugin_main (Some files) written = (if inj_on Fnv1a32 (set (full_names files))
     then (if written then 0 else 1,
       Some \<lparr>resp_error = (if list_all (\<lambda>f. services f = []) files then Some no_files_error else None),
             resp_files = [service_file f s. f \<leftarrow> files, s \<leftarrow> services f]\<rparr>)
     else (0, Some (plugin_response files))) \<and> plugin_main None written = (1, None)"
proof (cases "check_all (full_names files) Map.empty")
  case (Inl e)
  then have "\<not> inj_on Fnv1a32 (set (full_names files))"
    using check_all_inj [of "full_names files"] by simp
  then show ?thesis by (simp add: plugin_main_def Inl)
next
  case (Inr s)
  then have "inj_on Fnv1a32 (set (full_names files))"
    using check_all_inj [of "full_names files"] by simp
  then show ?thesis
    by (simp add: plugin_main_def plugin_response_def Inr Let_def generate_files_eq list_all_iff)
qed

end
