(* ===== verification/Go_Generator.thy ===== *)
theory Go_Generator
  imports Plugin Go_Wire
begin

text \<open>
  \<open>src/go/protoc-gen-protocomm-go/main.go\<close>: the plugin that emits Go stubs and services. The plugin
  framework \<open>protogen\<close> decodes the request, prepares the descriptors, and turns the names of other
  packages into qualified identifiers as they are printed; the records keep the fields the plugin
  reads, and \<open>q\<close> is how \<open>protogen\<close> prints an identifier in the generated file. Emission is modelled as in
  \<open>Generator\<close>: the text that is printed, character for character. Names in a proto file are ASCII.
\<close>

subsection \<open>Descriptors\<close>

record GoIdent =
  GoName :: string
  GoImportPath :: string

record go_method_desc =
  gm_Name :: string
  gm_GoName :: string
  gm_Input :: GoIdent
  gm_Output :: GoIdent

record go_service_desc =
  gsd_Name :: string
  gsd_GoName :: string
  gsd_Methods :: "go_method_desc list"

record go_file_desc =
  gf_Path :: string
  gf_Package :: string
  gf_Generate :: bool
  gf_GeneratedFilenamePrefix :: string
  gf_GoPackageName :: string
  gf_Services :: "go_service_desc list"

subsection \<open>Names and numbers\<close>

fun plugin_fnv1a32_loop :: "u32 \<Rightarrow> bytes \<Rightarrow> u32" where
  "plugin_fnv1a32_loop h [] = h"
| "plugin_fnv1a32_loop h (b # bs) = plugin_fnv1a32_loop ((h XOR ucast b) * 0x01000193) bs"

definition plugin_fnv1a32 :: "string \<Rightarrow> u32" where
  "plugin_fnv1a32 s = plugin_fnv1a32_loop 0x811c9dc5 (bytes_of_string s)"

definition methodFullName :: "string \<Rightarrow> string \<Rightarrow> string \<Rightarrow> string" where
  "methodFullName p s m =
     (if p = [] then ''/'' @ s @ ''/'' @ m else ''/'' @ p @ ''.'' @ s @ ''/'' @ m)"

definition unexport :: "string \<Rightarrow> string" where
  "unexport s =
     (case s of
        [] \<Rightarrow> s
      | r # rs \<Rightarrow> if of_char r \<ge> (65 :: nat) \<and> of_char r \<le> (90 :: nat) then char_of (of_char r + 32 :: nat) # rs else s)"

definition pcIdent :: "string \<Rightarrow> GoIdent" where
  "pcIdent name = \<lparr>GoName = name, GoImportPath = ''github.com/boeing666/protocomm/go''\<rparr>"

definition protoIdent :: "string \<Rightarrow> GoIdent" where
  "protoIdent name = \<lparr>GoName = name, GoImportPath = ''google.golang.org/protobuf/proto''\<rparr>"

definition prototraceIdent :: "string \<Rightarrow> GoIdent" where
  "prototraceIdent name = \<lparr>GoName = name, GoImportPath = ''github.com/boeing666/protocomm/go/prototrace''\<rparr>"

text \<open>
  The verbs of \<open>fmt\<close> and \<open>strconv\<close> that the plugin uses: \<open>%08x\<close> on 32 bits, and \<open>Quote\<close> (also \<open>%q\<close>) on
  printable ASCII, where only the double quote and the backslash are escaped.
\<close>

definition hex_digit :: "nat \<Rightarrow> char" where
  "hex_digit n = (if n < 10 then char_of (48 + n) else char_of (87 + n))"

definition hex8 :: "u32 \<Rightarrow> string" where
  "hex8 h = map (\<lambda>i. hex_digit (unat h div 16 ^ i mod 16)) [7, 6, 5, 4, 3, 2, 1, 0]"

definition Quote :: "string \<Rightarrow> string" where
  "Quote s = dq @ concat (map (\<lambda>c. if c = CHR 0x22 \<or> c = CHR 0x5C then [CHR 0x5C, c] else [c]) s) @ dq"

subsection \<open>The collision check\<close>

definition go_collision_error :: "string \<Rightarrow> string \<Rightarrow> string" where
  "go_collision_error prev full =
     ''protocomm: FNV1a32 method-ID collision between '' @ Quote prev @ '' and '' @ Quote full @
     ''. Rename one of the methods.''"

text \<open>The three nested loops, each with the map as it goes on or the error it returns with.\<close>

fun check_go_methods :: "string \<Rightarrow> string \<Rightarrow> go_method_desc list \<Rightarrow> seen \<Rightarrow> string + seen" where
  "check_go_methods p protoSvc [] seen = Inr seen"
| "check_go_methods p protoSvc (m # ms) seen =
     (let full = methodFullName p protoSvc (gm_Name m); h = plugin_fnv1a32 full
      in case seen h of
           Some prev \<Rightarrow>
             if prev = full then check_go_methods p protoSvc ms seen else Inl (go_collision_error prev full)
         | None \<Rightarrow> check_go_methods p protoSvc ms (seen(h \<mapsto> full)))"

fun check_go_services :: "string \<Rightarrow> go_service_desc list \<Rightarrow> seen \<Rightarrow> string + seen" where
  "check_go_services p [] seen = Inr seen"
| "check_go_services p (s # ss) seen =
     (case check_go_methods p (gsd_Name s) (gsd_Methods s) seen of
        Inl e \<Rightarrow> Inl e
      | Inr seen \<Rightarrow> check_go_services p ss seen)"

fun check_go_files :: "go_file_desc list \<Rightarrow> seen \<Rightarrow> string + seen" where
  "check_go_files [] seen = Inr seen"
| "check_go_files (f # fs) seen =
     (case check_go_services (gf_Package f) (gf_Services f) seen of
        Inl e \<Rightarrow> Inl e
      | Inr seen \<Rightarrow> check_go_files fs seen)"

definition checkHashCollisions :: "go_file_desc list \<Rightarrow> string option" where
  "checkHashCollisions files =
     (case check_go_files files Map.empty of Inl e \<Rightarrow> Some e | Inr _ \<Rightarrow> None)"

subsection \<open>Emission\<close>

text \<open>\<open>g.P\<close> prints its arguments and a newline.\<close>

definition g_P :: "string list \<Rightarrow> string" where
  "g_P args = concat args @ nl"

definition tabs :: "nat \<Rightarrow> string" where
  "tabs n = replicate n (CHR 0x09)"

definition go_method_id :: "string \<Rightarrow> go_method_desc \<Rightarrow> string" where
  "go_method_id goSvc m = goSvc @ ''_'' @ gm_GoName m @ ''_MethodID''"

text \<open>\<open>return nil, Status{Code: Internal, Message: "what: " + err.Error()}\<close>.\<close>

definition return_internal :: "(GoIdent \<Rightarrow> string) \<Rightarrow> nat \<Rightarrow> string \<Rightarrow> string" where
  "return_internal q n what =
     g_P [tabs n, ''return nil, '', q (pcIdent ''Status''), ''{Code: '', q (pcIdent ''Internal''),
       '', Message: '', dq, what, '': '', dq, '' + err.Error()}'']"

definition go_client_method ::
  "(GoIdent \<Rightarrow> string) \<Rightarrow> string \<Rightarrow> string \<Rightarrow> go_method_desc \<Rightarrow> string" where
  "go_client_method q goSvc protoSvc m =
     (let client = goSvc @ ''Client''; mid = go_method_id goSvc m; inp = q (gm_Input m); out = q (gm_Output m);
          full = protoSvc @ ''.'' @ gm_Name m
      in concat
        [g_P [''func (c *'', client, '') '', gm_GoName m, ''(req *'', inp, '') (*'', out, '', '', q (pcIdent ''Status''), '') {''],
         g_P [tabs 1, ''data, err := '', q (protoIdent ''Marshal''), ''(req)''],
         g_P [tabs 1, ''if err != nil {''],
         return_internal q 2 ''marshal'',
         g_P [tabs 1, ''}''],
         g_P [tabs 1, ''respData, st := c.ch.UnaryCall('', mid, '', data)''],
         g_P [tabs 1, ''if !st.IsOK() {''],
         g_P [tabs 2, ''if c.ch.Tracing() {''],
         g_P [tabs 3, ''c.ch.Trace('', Quote full, '', '', q (prototraceIdent ''Render''), ''(req), '', dq, dq, '', st)''],
         g_P [tabs 2, ''}''],
         g_P [tabs 2, ''return nil, st''],
         g_P [tabs 1, ''}''],
         g_P [tabs 1, ''resp := new('', out, '')''],
         g_P [tabs 1, ''if err := '', q (protoIdent ''Unmarshal''), ''(respData, resp); err != nil {''],
         return_internal q 2 ''unmarshal'',
         g_P [tabs 1, ''}''],
         g_P [tabs 1, ''if c.ch.Tracing() {''],
         g_P [tabs 2, ''c.ch.Trace('', Quote full, '', '', q (prototraceIdent ''Render''), ''(req), '',
           q (prototraceIdent ''Render''), ''(resp), st)''],
         g_P [tabs 1, ''}''],
         g_P [tabs 1, ''return resp, '', q (pcIdent ''StatusOK''), ''()''],
         g_P [''}''],
         g_P []])"

definition genClient :: "(GoIdent \<Rightarrow> string) \<Rightarrow> go_service_desc \<Rightarrow> string \<Rightarrow> string \<Rightarrow> string" where
  "genClient q sd goSvc protoSvc =
     (let client = goSvc @ ''Client''
      in concat
        [g_P [''// '', client, '' is the client stub for the '', goSvc, '' service.''],
         g_P [''type '', client, '' struct {''],
         g_P [tabs 1, ''ch *'', q (pcIdent ''Channel'')],
         g_P [''}''],
         g_P [],
         g_P [''// New'', client, '' creates a client stub bound to the given channel.''],
         g_P [''func New'', client, ''(ch *'', q (pcIdent ''Channel''), '') *'', client, '' {''],
         g_P [tabs 1, ''return &'', client, ''{ch: ch}''],
         g_P [''}''],
         g_P []] @
      concat (map (go_client_method q goSvc protoSvc) (gsd_Methods sd)))"

definition genServerInterface :: "(GoIdent \<Rightarrow> string) \<Rightarrow> go_service_desc \<Rightarrow> string \<Rightarrow> string" where
  "genServerInterface q sd goSvc =
     (let server = goSvc @ ''Server''
      in g_P [''// '', server, '' is the server-side interface for the '', goSvc, '' service.''] @
         g_P [''type '', server, '' interface {''] @
         concat (map (\<lambda>m. g_P [tabs 1, gm_GoName m, ''(ctx *'', q (pcIdent ''ServerContext''), '', req *'', q (gm_Input m),
           '') (*'', q (gm_Output m), '', '', q (pcIdent ''Status''), '')'']) (gsd_Methods sd)) @
         g_P [''}''] @ g_P [])"

definition genUnimplementedServer :: "(GoIdent \<Rightarrow> string) \<Rightarrow> go_service_desc \<Rightarrow> string \<Rightarrow> string" where
  "genUnimplementedServer q sd goSvc =
     (let uname = ''Unimplemented'' @ goSvc @ ''Server''
      in g_P [''// '', uname, '' returns UNIMPLEMENTED for every method.''] @
         g_P [''type '', uname, '' struct{}''] @
         g_P [] @
         concat (map (\<lambda>m. concat
           [g_P [''func ('', uname, '') '', gm_GoName m, ''(_ *'', q (pcIdent ''ServerContext''), '', _ *'', q (gm_Input m),
              '') (*'', q (gm_Output m), '', '', q (pcIdent ''Status''), '') {''],
            g_P [tabs 1, ''return nil, '', q (pcIdent ''Status''), ''{Code: '', q (pcIdent ''Unimplemented''),
              '', Message: '', dq, gm_GoName m, '' not implemented'', dq, ''}''],
            g_P [''}''],
            g_P []]) (gsd_Methods sd)))"

definition go_register_method ::
  "(GoIdent \<Rightarrow> string) \<Rightarrow> string \<Rightarrow> string \<Rightarrow> go_method_desc \<Rightarrow> string" where
  "go_register_method q goSvc protoSvc m =
     (let mid = go_method_id goSvc m; full = protoSvc @ ''.'' @ gm_Name m
      in concat
        [g_P [tabs 1, ''srv.RegisterMethod('', mid, '', func(ctx *'', q (pcIdent ''ServerContext''),
           '', data []byte) ([]byte, '', q (pcIdent ''Status''), '') {''],
         g_P [tabs 2, ''ctx.MethodName = '', Quote full],
         g_P [tabs 2, ''req := new('', q (gm_Input m), '')''],
         g_P [tabs 2, ''if err := '', q (protoIdent ''Unmarshal''), ''(data, req); err != nil {''],
         return_internal q 3 ''unmarshal'',
         g_P [tabs 2, ''}''],
         g_P [tabs 2, ''if ctx.Trace {''],
         g_P [tabs 3, ''ctx.RequestText = '', q (prototraceIdent ''Render''), ''(req)''],
         g_P [tabs 2, ''}''],
         g_P [tabs 2, ''resp, st := impl.'', gm_GoName m, ''(ctx, req)''],
         g_P [tabs 2, ''if !st.IsOK() {''],
         g_P [tabs 3, ''return nil, st''],
         g_P [tabs 2, ''}''],
         g_P [tabs 2, ''if ctx.Trace {''],
         g_P [tabs 3, ''ctx.ResponseText = '', q (prototraceIdent ''Render''), ''(resp)''],
         g_P [tabs 2, ''}''],
         g_P [tabs 2, ''out, err := '', q (protoIdent ''Marshal''), ''(resp)''],
         g_P [tabs 2, ''if err != nil {''],
         return_internal q 3 ''marshal'',
         g_P [tabs 2, ''}''],
         g_P [tabs 2, ''return out, '', q (pcIdent ''StatusOK''), ''()''],
         g_P [tabs 1, ''})'']])"

definition genRegister :: "(GoIdent \<Rightarrow> string) \<Rightarrow> go_service_desc \<Rightarrow> string \<Rightarrow> string \<Rightarrow> string" where
  "genRegister q sd goSvc protoSvc =
     (let server = goSvc @ ''Server''
      in g_P [''// Register'', server, '' registers a '', server, '' with the protocomm server.''] @
         g_P [''func Register'', server, ''(srv *'', q (pcIdent ''Server''), '', impl '', server, '') {''] @
         concat (map (go_register_method q goSvc protoSvc) (gsd_Methods sd)) @
         g_P [''}''] @ g_P [])"

definition genServiceWrapper :: "(GoIdent \<Rightarrow> string) \<Rightarrow> go_service_desc \<Rightarrow> string \<Rightarrow> string" where
  "genServiceWrapper q sd goSvc =
     (let server = goSvc @ ''Server''; wrapper = unexport goSvc @ ''ServiceRegistrar''
      in concat
        [g_P [''type '', wrapper, '' struct{ impl '', server, '' }''],
         g_P [],
         g_P [''func (r *'', wrapper, '') RegisterWith(srv *'', q (pcIdent ''Server''), '') {''],
         g_P [tabs 1, ''Register'', server, ''(srv, r.impl)''],
         g_P [''}''],
         g_P [],
         g_P [''// New'', goSvc, ''Service wraps impl as a '', q (pcIdent ''Service''), '' for use with ServerBuilder.''],
         g_P [''func New'', goSvc, ''Service(impl '', server, '') '', q (pcIdent ''Service''), '' {''],
         g_P [tabs 1, ''return &'', wrapper, ''{impl: impl}''],
         g_P [''}''],
         g_P []])"

definition go_method_constant :: "string \<Rightarrow> string \<Rightarrow> string \<Rightarrow> go_method_desc \<Rightarrow> string" where
  "go_method_constant p protoSvc goSvc m =
     (let full = methodFullName p protoSvc (gm_Name m)
      in g_P [tabs 1, goSvc, ''_'', gm_GoName m, ''_MethodID uint32 = '', ''0x'' @ hex8 (plugin_fnv1a32 full), '' // '', full])"

definition genService :: "(GoIdent \<Rightarrow> string) \<Rightarrow> go_file_desc \<Rightarrow> go_service_desc \<Rightarrow> string" where
  "genService q fd sd =
     (let p = gf_Package fd; protoSvc = gsd_Name sd; goSvc = gsd_GoName sd
      in g_P [''// Method IDs for '', goSvc, '' service.''] @
         g_P [''const (''] @
         concat (map (go_method_constant p protoSvc goSvc) (gsd_Methods sd)) @
         g_P ['')''] @ g_P [] @
         genClient q sd goSvc protoSvc @
         genServerInterface q sd goSvc @
         genUnimplementedServer q sd goSvc @
         genRegister q sd goSvc protoSvc @
         genServiceWrapper q sd goSvc)"

definition generateFile :: "(GoIdent \<Rightarrow> string) \<Rightarrow> go_file_desc \<Rightarrow> string \<times> string" where
  "generateFile q fd =
     (gf_GeneratedFilenamePrefix fd @ ''_protocomm.pb.go'',
      concat
        [g_P [''// Code generated by protoc-gen-protocomm-go. DO NOT EDIT.''],
         g_P [''// source: '', gf_Path fd],
         g_P [],
         g_P [''package '', gf_GoPackageName fd],
         g_P []] @
      concat (map (genService q fd) (gf_Services fd)))"

text \<open>\<open>main\<close>: the error that \<open>protogen\<close> reports, or the files.\<close>

definition go_plugin :: "(GoIdent \<Rightarrow> string) \<Rightarrow> go_file_desc list \<Rightarrow> string + (string \<times> string) list" where
  "go_plugin q files =
     (case checkHashCollisions files of
        Some e \<Rightarrow> Inl e
      | None \<Rightarrow> Inr (map (generateFile q) (filter (\<lambda>f. gf_Generate f \<and> gf_Services f \<noteq> []) files)))"

subsection \<open>The same decision as the C++ plugin\<close>

definition go_full_names :: "go_file_desc list \<Rightarrow> string list" where
  "go_full_names files =
     [methodFullName (gf_Package f) (gsd_Name s) (gm_Name m). f \<leftarrow> files, s \<leftarrow> gf_Services f, m \<leftarrow> gsd_Methods s]"

text \<open>A file as the C++ plugin sees it; the types of messages do not matter here.\<close>

definition cpp_file :: "go_file_desc \<Rightarrow> FileDescriptorProto" where
  "cpp_file f =
     \<lparr>file_name = gf_Path f, package = gf_Package f,
      services = map (\<lambda>s. \<lparr>service_name = gsd_Name s,
        methods = map (\<lambda>m. \<lparr>method_name = gm_Name m, input_type = GoName (gm_Input m), output_type = GoName (gm_Output m)\<rparr>)
          (gsd_Methods s)\<rparr>) (gf_Services f)\<rparr>"

lemma methodFullName_cpp: "methodFullName p s m = method_full_name p s m"
  by (simp add: methodFullName_def method_full_name_def service_full_name_def)

lemma plugin_fnv1a32_eq: "plugin_fnv1a32 s = Go_Fnv1a32 s"
proof -
  have "plugin_fnv1a32_loop h bs = Go_Fnv1a32_loop h bs" for h bs by (induction bs arbitrary: h) simp_all
  then show ?thesis by (simp add: plugin_fnv1a32_def Go_Fnv1a32_def)
qed

lemma go_full_names_cpp: "go_full_names files = full_names (map cpp_file files)"
  by (simp add: go_full_names_def full_names_def cpp_file_def methodFullName_cpp comp_def)

lemma check_go_methods_scan:
  "check_go_methods p s ms seen =
     collision go_collision_error (scan_names plugin_fnv1a32 (map (\<lambda>m. methodFullName p s (gm_Name m)) ms) seen)"
  by (induction ms arbitrary: seen) (auto simp: Let_def split: option.split)

lemma collision_append:
  "collision err (scan_names hash (xs @ ys) seen) =
     (case collision err (scan_names hash xs seen) of Inl e \<Rightarrow> Inl e | Inr seen \<Rightarrow> collision err (scan_names hash ys seen))"
  by (auto simp: scan_names_append split: sum.split)

lemma check_go_services_scan:
  "check_go_services p ss seen =
     collision go_collision_error (scan_names plugin_fnv1a32
       (concat (map (\<lambda>s. map (\<lambda>m. methodFullName p (gsd_Name s) (gm_Name m)) (gsd_Methods s)) ss)) seen)"
  by (induction ss arbitrary: seen) (auto simp: check_go_methods_scan collision_append split: sum.split)

lemma check_go_files_scan:
  "check_go_files files seen = collision go_collision_error (scan_names plugin_fnv1a32 (go_full_names files) seen)"
  by (induction files arbitrary: seen)
    (auto simp: go_full_names_def check_go_services_scan collision_append split: sum.split)

text \<open>
  C31. The Go plugin's collision check is exact and agrees with the C++ plugin's: it refuses a request
  if and only if the hash is not injective on the full names of all methods, the C++ plugin refuses
  the same requests, and the error names two different methods with the same id. (Names have no zero
  byte.)
\<close>

theorem go_plugin_check:
  assumes "\<forall>x \<in> set (go_full_names files). CHR 0x00 \<notin> set x"
  shows "(checkHashCollisions files = None) = inj_on Fnv1a32 (set (go_full_names files)) \<and>
    (checkHashCollisions files = None) = (\<exists>s. check_all (full_names (map cpp_file files)) Map.empty = Inr s) \<and>
    (checkHashCollisions files \<noteq> None \<longrightarrow>
      (\<exists>x \<in> set (go_full_names files). \<exists>y \<in> set (go_full_names files). x \<noteq> y \<and> Fnv1a32 x = Fnv1a32 y \<and>
        checkHashCollisions files = Some (go_collision_error x y)))"
proof -
  let ?xs = "go_full_names files"
  have hash: "plugin_fnv1a32 x = Fnv1a32 x" if "x \<in> set ?xs" for x
    using assms that by (simp add: plugin_fnv1a32_eq Go_Fnv1a32_eq)
  have inj: "inj_on plugin_fnv1a32 (set ?xs) = inj_on Fnv1a32 (set ?xs)" by (rule inj_on_cong) (rule hash)
  have cpp: "(\<exists>s. check_all (full_names (map cpp_file files)) Map.empty = Inr s) = inj_on Fnv1a32 (set ?xs)"
    by (simp add: check_all_inj go_full_names_cpp)
  note scan = scan_names_inj [where hash = plugin_fnv1a32 and xs = ?xs]
  show ?thesis
  proof (cases "scan_names plugin_fnv1a32 ?xs Map.empty")
    case (Inl xy)
    obtain x y where xy: "xy = (x, y)" by fastforce
    with Inl scan have *: "x \<in> set ?xs" "y \<in> set ?xs" "x \<noteq> y" "plugin_fnv1a32 x = plugin_fnv1a32 y" by simp_all
    then have "Fnv1a32 x = Fnv1a32 y" "\<not> inj_on Fnv1a32 (set ?xs)" using hash by (auto simp: inj_on_def)
    moreover have "checkHashCollisions files = Some (go_collision_error x y)"
      using Inl xy by (simp add: checkHashCollisions_def check_go_files_scan)
    ultimately show ?thesis using * cpp by auto
  next
    case (Inr s)
    with scan inj cpp show ?thesis by (simp add: check_go_files_scan checkHashCollisions_def)
  qed
qed

definition demo_go_file :: go_file_desc where
  "demo_go_file =
     \<lparr>gf_Path = ''math.proto'', gf_Package = ''math'', gf_Generate = True, gf_GeneratedFilenamePrefix = ''math'',
      gf_GoPackageName = ''math'', gf_Services = [\<lparr>gsd_Name = ''Calculator'', gsd_GoName = ''Calculator'',
        gsd_Methods = [\<lparr>gm_Name = ''Add'', gm_GoName = ''Add'', gm_Input = \<lparr>GoName = ''AddRequest'', GoImportPath = ''math''\<rparr>,
          gm_Output = \<lparr>GoName = ''AddReply'', GoImportPath = ''math''\<rparr>\<rparr>]\<rparr>]\<rparr>"

lemma demo_go_names: "go_full_names [demo_go_file] = [''/math.Calculator/Add'']"
  by (simp add: go_full_names_def demo_go_file_def methodFullName_def)

theorem go_plugin_check_witness:
  "checkHashCollisions [demo_go_file] = None \<and> (\<exists>s. check_all (full_names [cpp_file demo_go_file]) Map.empty = Inr s)"
  using go_plugin_check [of "[demo_go_file]"] by (auto simp: demo_go_names)

subsection \<open>The ids in the generated code\<close>







end
