(* ===== verification/Go_Stub.thy ===== *)
theory Go_Stub
  imports Interop Go_Generator
begin

text \<open>
  What the functions do that \<open>Go_Generator\<close> emits for a method, statement by statement, and
  \<open>src/go/prototrace/prototrace.go\<close>, which they call. Messages, \<open>proto.Marshal\<close>, \<open>proto.Unmarshal\<close> and
  \<open>prototext\<close> belong to protobuf: a message type is a record of the functions the code calls. The
  method itself is the application's.
\<close>

subsection \<open>Messages\<close>

record 'm go_message =
  pb_new :: 'm
  pb_IsValid :: "'m \<Rightarrow> bool"
  pb_Marshal :: "'m \<Rightarrow> string + bytes"
  pb_Unmarshal :: "bytes \<Rightarrow> 'm \<Rightarrow> string option \<times> 'm"
  pb_text :: "'m \<Rightarrow> string + bytes"

definition MaxBody :: nat where "MaxBody = 1024"

definition Render :: "'m go_message \<Rightarrow> 'm \<Rightarrow> bytes" where
  "Render M m =
     (if \<not> pb_IsValid M m then []
      else case pb_text M m of
        Inl err \<Rightarrow> []
      | Inr out \<Rightarrow> if length out > MaxBody then take MaxBody out @ [0xE2, 0x80, 0xA6] else out)"

subsection \<open>The client\<close>

text \<open>
  A method of the client: the response, or none, the status, and what it hands to \<open>Trace\<close>. The channel
  is the function \<open>UnaryCall\<close> and whether it traces, which is asked once, after the call.
\<close>

definition Go_Client_call ::
  "'i go_message \<Rightarrow> 'o go_message \<Rightarrow> (u32 \<Rightarrow> bytes \<Rightarrow> bytes \<times> Go_Status) \<Rightarrow> bool \<Rightarrow> u32 \<Rightarrow> 'i \<Rightarrow>
   'o option \<times> Go_Status \<times> (bytes \<times> bytes \<times> Go_Status) option" where
  "Go_Client_call MI MO UnaryCall tr mid req =
     (case pb_Marshal MI req of
        Inl err \<Rightarrow> (None, go_status Go_Internal (''marshal: '' @ err), None)
      | Inr data \<Rightarrow>
          let (respData, st) = UnaryCall mid data
          in if \<not> IsOK st then (None, st, if tr then Some (Render MI req, [], st) else None)
             else (case pb_Unmarshal MO respData (pb_new MO) of
               (Some err, _) \<Rightarrow> (None, go_status Go_Internal (''unmarshal: '' @ err), None)
             | (None, resp) \<Rightarrow> (Some resp, StatusOK, if tr then Some (Render MI req, Render MO resp, st) else None)))"

subsection \<open>The server\<close>

type_synonym ('i, 'o, 'w) go_service_method =
  "Go_ServerContext \<Rightarrow> 'i \<Rightarrow> 'w \<Rightarrow> ('o \<times> Go_Status \<times> Go_ServerContext) option \<times> 'w"

text \<open>\<open>Unimplemented...Server\<close>; the nil response is the value \<open>none\<close>.\<close>

definition Go_Unimplemented_method :: "string \<Rightarrow> 'o \<Rightarrow> ('i, 'o, 'w) go_service_method" where
  "Go_Unimplemented_method mname none ctx req w =
     (Some (none, go_status Go_Unimplemented (mname @ '' not implemented''), ctx), w)"


subsection \<open>The same service in both languages\<close>

text \<open>
  A message type in both languages: they have the wire format \<open>enc\<close> in common, and accept and refuse the
  same bytes, as \<open>dec\<close> says. Sizes are below \<open>2 ^ 31\<close>, the limit of protobuf.
\<close>

definition same_message :: "'m go_message \<Rightarrow> 'm Message \<Rightarrow> ('m \<Rightarrow> bytes) \<Rightarrow> (bytes \<Rightarrow> 'm option) \<Rightarrow> bool" where
  "same_message G M enc dec \<longleftrightarrow>
     proto_message M enc \<and> (\<forall>m. length (enc m) < 2 ^ 31 \<longrightarrow> pb_Marshal G m = Inr (enc m)) \<and>
     (\<forall>data m0. case dec data of
        Some m \<Rightarrow> pb_Unmarshal G data m0 = (None, m)
      | None \<Rightarrow> fst (pb_Unmarshal G data m0) \<noteq> None) \<and>
     (\<forall>data m0. length data < 2 ^ 31 \<longrightarrow>
        (case dec data of
           Some m \<Rightarrow> ParseFromArray M data (int (length data)) m0 = (True, m)
         | None \<Rightarrow> \<not> fst (ParseFromArray M data (int (length data)) m0)))"


lemma ParseProto_dec:
  assumes "same_message G M enc dec" and "length data < 2 ^ 31"
  shows "dec data = Some m \<Longrightarrow> ParseProto M data m0 = (Status_default, m)"
    and "dec data = None \<Longrightarrow> error_code (fst (ParseProto M data m0)) = INTERNAL \<and> \<not> ok (fst (ParseProto M data m0))"
  using assms
  by (auto simp: same_message_def ParseProto_def int_cast_small Let_def case_prod_unfold ok_iff_code INTERNAL_def OK_def
      split: option.splits dest!: spec [of _ data])



text \<open>Messages that are byte strings, in Go; the C++ side is \<open>raw_message\<close>.\<close>

definition go_raw_message :: "bytes go_message" where
  "go_raw_message =
     \<lparr>pb_new = [], pb_IsValid = (\<lambda>_. True), pb_Marshal = Inr, pb_Unmarshal = (\<lambda>data _. (None, data)), pb_text = Inr\<rparr>"

lemma same_raw_message: "same_message go_raw_message raw_message (\<lambda>m. m) Some"
  using raw_message by (simp add: same_message_def) (simp add: go_raw_message_def raw_message_def)





text \<open>
  C17. The generated clients of the two languages are interchangeable: over channels that give the same
  answer, they return the same status code, the Go client returns a response exactly when the status
  is OK, and it is the response of the C++ client.
\<close>

theorem generated_clients_agree:
  assumes "same_message GI MI encI decI" "same_message GO MO encO decO" and "length (encI req) < 2 ^ 31"
    and "gcall mid (encI req) = (data, st)" and "call mid (encI req) [] = (st', data')"
    and "IsOK st \<longleftrightarrow> ok st'" "cpp_code (gs_Code st) = error_code st'" "IsOK st \<longrightarrow> data' = data \<and> length data < 2 ^ 31"
    and "Go_Client_call GI GO gcall tr mid req = (resp, rst, t)"
    and "Stub_call MI MO call tr mid req resp0 = (rst', resp', t')"
  shows "cpp_code (gs_Code rst) = error_code rst' \<and> (IsOK rst \<longleftrightarrow> ok rst') \<and>
    resp = (if IsOK rst then Some resp' else None)"
proof -
  have m: "pb_Marshal GI req = Inr (encI req)" "SerializeProto MI req [] = (Status_default, encI req)"
    using assms(1,3) SerializeProto_small [of MI encI req] by (auto simp: same_message_def)
  show ?thesis
  proof (cases "IsOK st")
    case False
    with m assms(4-7,9,10) show ?thesis by (auto simp: Go_Client_call_def Stub_call_def Let_def split: if_splits)
  next
    case True
    then have ok: "ok st'" and d: "data' = data" "length data < 2 ^ 31" using assms(6,8) by auto
    have ok0: "IsOK StatusOK" "cpp_code Go_OK = OK" by (simp_all add: cpp_code_def Go_OK_def OK_def)
    show ?thesis
    proof (cases "decO data")
      case None
      then have "fst (pb_Unmarshal GO data (pb_new GO)) \<noteq> None"
        using assms(2) by (auto simp: same_message_def split: option.splits dest!: spec [of _ data])
      then obtain err x where g: "pb_Unmarshal GO data (pb_new GO) = (Some err, x)" by (metis option.exhaust prod.collapse)
      obtain ps y where p: "ParseProto MO data resp0 = (ps, y)" by fastforce
      with ParseProto_dec(2) [OF assms(2) d(2) None, of resp0] have "error_code ps = INTERNAL" "\<not> ok ps" by simp_all
      moreover have "cpp_code Go_Internal = INTERNAL" by (simp add: cpp_code_def Go_Internal_def INTERNAL_def)
      ultimately show ?thesis
        using m assms(4,5,9,10) True ok d g p by (auto simp: Go_Client_call_def Stub_call_def Let_def)
    next
      case (Some r)
      then have g: "pb_Unmarshal GO data (pb_new GO) = (None, r)"
        using assms(2) by (auto simp: same_message_def split: option.splits dest!: spec [of _ data])
      note p = ParseProto_dec(1) [OF assms(2) d(2) Some, of resp0]
      show ?thesis
        using m assms(4,5,9,10) True ok d g p ok0 by (auto simp: Go_Client_call_def Stub_call_def Let_def)
    qed
  qed
qed

theorem generated_clients_agree_witness:
  "fst (Go_Client_call go_raw_message go_raw_message (\<lambda>mid b. (rev b, StatusOK)) False 9 [1, 2]) =
     Some (fst (snd (Stub_call raw_message raw_message (\<lambda>mid b r. (Status_default, rev b)) False 9 [1, 2] [])))"
proof -
  let ?g = "Go_Client_call go_raw_message go_raw_message (\<lambda>mid b. (rev b, StatusOK)) False 9 [1, 2]"
  let ?c = "Stub_call raw_message raw_message (\<lambda>mid b r. (Status_default, rev b)) False 9 [1, 2] []"
  obtain resp rst t where g: "?g = (resp, rst, t)" by (cases ?g)
  obtain rst' resp' t' where c: "?c = (rst', resp', t')" by (cases ?c)
  have "IsOK rst" using g by (auto simp: Go_Client_call_def go_raw_message_def)
  moreover have "resp = (if IsOK rst then Some resp' else None)"
    using generated_clients_agree [OF same_raw_message same_raw_message, of "[1, 2]" "\<lambda>mid b. (rev b, StatusOK)" 9 "[2, 1]" StatusOK
        "\<lambda>mid b r. (Status_default, rev b)" Status_default "[2, 1]" False resp rst t "[]" rst' resp' t'] g c
    by (simp add: cpp_code_def Go_OK_def OK_def)
  ultimately show ?thesis using g c by simp
qed

end
