(* ===== verification/Spec2Isabelle.thy ===== *)
theory Spec2Isabelle
  imports Mpsc_Concurrent Channel_Shutdown Go_Server_Shutdown Go_Stub
begin

text \<open>
  A verification development of protocomm, a remote procedure call library with implementations in
  C++20 and in Go: unary calls and server push over plain TCP, with protobuf payloads behind a 16-byte
  frame header, routed by the FNV-1a hash of the method's name.

  \<^bold>\<open>The C++ implementation.\<close> A client makes a \<open>Channel\<close> (\<open>src/channel.cc\<close>): one io thread, a connection that is set
  up by a coroutine, a reader, a write pump and a table of pending calls; callbacks run on the io
  thread or, under manual dispatch, wait in a lock-free queue (\<open>src/mpsc_queue.h\<close>) for \<open>RunCallbacks\<close>. A
  \<open>Server\<close> (\<open>src/server.cc\<close>, \<open>src/server_impl.h\<close>), made by a \<open>ServerBuilder\<close> (\<open>src/server_builder.cc\<close>),
  accepts connections and runs a \<open>Session\<close> (\<open>src/session.cc\<close>) for each, which reads requests, calls the
  registered handlers and writes the responses. Both sides use the frame codec (\<open>src/frame.h\<close>) and
  the transport (\<open>src/transport.cc\<close>). A compiler plugin (\<open>protoc/\<close>) emits typed stubs and services on
  top of the library, which use the helpers of \<open>include/protocomm/\<close>. These paths are below \<open>src/c++/\<close>.

  \<^bold>\<open>The Go implementation\<close>, below \<open>src/go/\<close>, speaks the same protocol with goroutines and mutexes in place
  of coroutines and strands: a \<open>Channel\<close> (\<open>channel.go\<close>) on which any number of goroutines call, with one
  more that reads; a \<open>Server\<close> (\<open>server.go\<close>) with a goroutine per connection and one per request; frames,
  hash and status codes of its own (\<open>frame.go\<close>, \<open>hash.go\<close>, \<open>status.go\<close>); and a plugin
  (\<open>protoc-gen-protocomm-go/main.go\<close>) whose generated code uses \<open>prototrace/prototrace.go\<close>.

  \<^bold>\<open>The theories\<close>, in the order of their imports:
  \<^item> \<open>Prelude\<close>: words, byte strings, \<open>std::to_string\<close>, and the contract of an inductive invariant of a
    step relation (\<open>inductive_invariant\<close>), which every state machine here interprets, and of a system
    that comes to rest in a bounded number of steps (\<open>winding_down\<close>).
  \<^item> \<open>Status\<close>: \<open>status.h\<close>, with the narrowing of a code to the 16 bits it has on the wire.
  \<^item> \<open>Frame\<close>: \<open>frame.h\<close>; encoding and decoding are inverse (\<open>header_codec\<close>).
  \<^item> \<open>Transport\<close>: \<open>transport.cc\<close>, blocking and asynchronous, over a socket that is a parameter; both refine
    taking frames off a byte stream (\<open>frame_transport\<close>) and agree with each other.
  \<^item> \<open>Mpsc_Queue\<close>, \<open>Mpsc_Concurrent\<close>: \<open>mpsc_queue.h\<close>, sequentially and with any number of producers and
    the consumer interleaved at every atomic access: first in, first out, nothing lost or duplicated.
  \<^item> \<open>Completion_Queue\<close>: the completions of \<open>channel.cc\<close> on that queue (\<open>fifo_queue\<close>).
  \<^item> \<open>Write_Pump\<close>: the discipline that the pumps of channel and session share (\<open>write_pump\<close>).
  \<^item> \<open>Channel\<close>: \<open>channel.cc\<close>. \<open>Channel_Inv\<close> shows the invariants of connection and writer,
    \<open>Channel_Balance\<close> that every callback is accounted for exactly once until the channel is stopped,
    \<open>Channel_Calls\<close> what single operations do, \<open>Channel_Shutdown\<close> that a shutdown terminates.
  \<^item> \<open>Session\<close>: \<open>session.cc\<close>, \<open>session.h\<close>, \<open>server_context.h\<close>, \<open>connection.h\<close>: one answer per request in
    order, the life of a connection, and the refinement of the request loop to \<open>serve\<close>.
  \<^item> \<open>Server\<close>: \<open>server.cc\<close>, \<open>server_impl.h\<close>, \<open>server_builder.cc\<close>: the map of connections, broadcasts, and the
    server a builder makes.
  \<^item> \<open>Method_Hash\<close>, \<open>Generator\<close>, \<open>Plugin\<close>: \<open>method_hash.h\<close>, \<open>generator.cpp\<close>, \<open>generator_utils.cpp\<close> and
    \<open>plugin.cpp\<close>: the emitted text character for character, its nesting and its method ids, and the
    exactness of the collision check.
  \<^item> \<open>Protobuf\<close>, \<open>Stub\<close>: \<open>protobuf.h\<close>, \<open>async_call.h\<close>, and what the emitted classes do.
  \<^item> \<open>End_To_End\<close>: the legs of a call, from the channel over the session and back; this theory puts them
    together.
  \<^item> \<open>Go_Wire\<close>: \<open>status.go\<close>, \<open>hash.go\<close>, \<open>frame.go\<close>; each encoding agrees with the C++ one, and frames written by
    either side are read by the other.
  \<^item> \<open>Go_Channel\<close>: \<open>channel.go\<close>. \<open>Go_Channel_Inv\<close> shows that callbacks balance, that connections have a
    reader, that mutexes have one holder and call ids are fresh; \<open>Go_Channel_Calls\<close> that callbacks are
    called once, frames do not mix and nothing deadlocks; \<open>Go_Channel_Close\<close> that \<open>Close\<close> settles every
    call in a bounded number of steps.
  \<^item> \<open>Go_Server\<close>: \<open>server.go\<close>, \<open>service.go\<close>, \<open>context.go\<close>. \<open>Go_Server_Inv\<close> counts requests, slots and goroutines
    per connection; \<open>Go_Server_Calls\<close> shows that no request is lost or answered twice, what \<open>onDisconnect\<close>
    and the return of \<open>Shutdown\<close> mean, the limits, the absence of deadlock, and two runs that show
    what \<open>Shutdown\<close> and \<open>Broadcast\<close> do to a connection that is just being accepted; \<open>Go_Server_Shutdown\<close>
    that \<open>Shutdown\<close> terminates once every connection is closed.
  \<^item> \<open>Go_Generator\<close>: \<open>main.go\<close> of the Go plugin: it refuses the same requests as the C++ plugin, and emits the
    same method ids.
  \<^item> \<open>Interop\<close>: a Go client calls a C++ server and the other way round, from end to end. \<open>Go_Stub\<close>: the
    generated Go code; clients and services of the two languages are interchangeable.

  \<^bold>\<open>State and effects.\<close> Each class is a record with the fields of the C++ class, followed by the part
  of the runtime its code drives: the tasks posted on its strand, where its coroutines are
  suspended, and a log of what the application can observe. A coroutine is cut at its \<open>co_await\<close>s, one
  definition per stretch; the step relations \<open>chan_step\<close>, \<open>session_step\<close> and \<open>server_step\<close> interleave these
  stretches, the posted tasks and the calls of the application in every order the executors allow.
  Machine integers keep their width, so call ids, connection ids, payload sizes and status codes
  wrap as they do in the code; where a property needs that they have not wrapped, it says so.
  On the Go side the state holds every goroutine as the point it has reached, \<open>turn\<close> and \<open>gv_turn\<close> are the
  next step of one of them, or none if it has to wait for a mutex, a channel or a wait group, and
  \<open>go_step\<close> and \<open>gv_step\<close> interleave them with the calls of the application and with the network.

  \<^bold>\<open>What is assumed.\<close> Boost.Asio, \<open>net.Conn\<close> and protobuf are parameters. \<open>stream_socket\<close> and \<open>stream_conn\<close>
  state the documented behaviour of reads and writes on a stream socket, \<open>writable\<close> and \<open>writable_net\<close>
  that the peer takes what is written, \<open>closed_socket\<close> and \<open>closed_conn\<close> that reads of a closed socket
  fail, \<open>proto_message\<close> and \<open>same_message\<close> that of a message type, in C++ and in both languages; each has
  a concrete instance. Callbacks do not throw, method handlers may (a panic of a Go handler ends the process). Memory is sequentially consistent, and mutexes serialise what they guard.

  \<^bold>\<open>Loops.\<close> \<open>pop\<close>, \<open>Run\<close> and the drain of a shutdown are unbounded. The retry of \<open>pop\<close> is unrolled as the
  code is; the drain and the request loop are partial functions, for which it is shown that they
  return: the drain on every well-formed queue, the request loop on every stream. No fuel is used. The
  loops of goroutines are steps of the step relations.

  \<^bold>\<open>Not modelled.\<close> The tests of both implementations, the sample services and programs, the files that
  \<open>protoc\<close> generates from them, and the build files. Declarations in headers that only repeat the
  signatures of the source files, and the umbrella header \<open>protocomm.h\<close>. Weak memory orders. The time that
  a server hands to its interceptor. What is left of callbacks that \<open>BuildAndStart\<close> moved out of the
  builder. The getters \<open>ID\<close>, \<open>PeerAddress\<close> and \<open>Port\<close> of the Go server.
\<close>

subsection \<open>A call from end to end\<close>





end
